(* ===== verification/Prelude.thy ===== *)
theory Prelude
  imports Main "HOL-Library.List_Lexorder" "HOL-Library.Char_ord" "HOL-Library.Sublist"
begin

text \<open>
  The prelude of the development: the Go strings and paths the components share, modelled as
  byte lists, the results of fallible operations, and the generic lemmas and collections
  (\<open>go_string\<close>) the component proofs use. A Go string is a list of bytes and a
  HOL \<open>char\<close> is one byte, so \<open>string\<close> is the exact carrier; the order of
  \<open>HOL-Library.List_Lexorder\<close> over \<open>HOL-Library.Char_ord\<close> is Go's comparison of strings.
\<close>

section \<open>Collections\<close>

named_theorems go_string \<open>evaluation of the modelled strings and path packages\<close>

section \<open>Results of fallible operations\<close>

text \<open>A Go function that returns \<open>(T, error)\<close> is modelled in \<open>error + T\<close>: \<open>Inl\<close> is the error.\<close>

fun res_bind :: "'e + 'a \<Rightarrow> ('a \<Rightarrow> 'e + 'b) \<Rightarrow> 'e + 'b" where
  "res_bind (Inl e) f = Inl e"
| "res_bind (Inr a) f = f a"

lemma res_bind_Inr_iff [simp]:
  "res_bind r f = Inr b \<longleftrightarrow> (\<exists>a. r = Inr a \<and> f a = Inr b)"
  by (cases r) auto

lemma res_bind_Inl_iff:
  "res_bind r f = Inl e \<longleftrightarrow> r = Inl e \<or> (\<exists>a. r = Inr a \<and> f a = Inl e)"
  by (cases r) auto

section \<open>Package strings\<close>

definition has_prefix :: "string \<Rightarrow> string \<Rightarrow> bool" where
  "has_prefix s p \<longleftrightarrow> take (length p) s = p"

definition has_suffix :: "string \<Rightarrow> string \<Rightarrow> bool" where
  "has_suffix s p \<longleftrightarrow> length p \<le> length s \<and> drop (length s - length p) s = p"

definition trim_prefix :: "string \<Rightarrow> string \<Rightarrow> string" where
  "trim_prefix s p = (if has_prefix s p then drop (length p) s else s)"

definition trim_suffix :: "string \<Rightarrow> string \<Rightarrow> string" where
  "trim_suffix s p = (if has_suffix s p then take (length s - length p) s else s)"

lemma has_prefix_iff [go_string]: "has_prefix s p \<longleftrightarrow> (\<exists>t. s = p @ t)"
  unfolding has_prefix_def by (metis append_eq_conv_conj append_take_drop_id)

lemma has_suffix_iff [go_string]: "has_suffix s p \<longleftrightarrow> (\<exists>t. s = t @ p)"
proof
  assume "has_suffix s p"
  then show "\<exists>t. s = t @ p"
    unfolding has_suffix_def by (metis append_take_drop_id)
next
  assume "\<exists>t. s = t @ p"
  then show "has_suffix s p"
    by (auto simp: has_suffix_def)
qed

text \<open>\<open>strings.Split\<close> on a one-byte separator, \<open>strings.Join\<close> and \<open>strings.Cut\<close>.\<close>

fun split_on :: "char \<Rightarrow> string \<Rightarrow> string list" where
  "split_on c [] = [[]]"
| "split_on c (x # xs) =
     (if x = c then [] # split_on c xs
      else case split_on c xs of [] \<Rightarrow> [[x]] | w # ws \<Rightarrow> (x # w) # ws)"

fun join_with :: "string \<Rightarrow> string list \<Rightarrow> string" where
  "join_with sep [] = []"
| "join_with sep [w] = w"
| "join_with sep (w # v # ws) = w @ sep @ join_with sep (v # ws)"

lemma split_on_not_Nil [simp]: "split_on c s \<noteq> []"
  by (induction s) (auto split: list.splits)

lemma join_split_on [simp]: "join_with [c] (split_on c s) = s"
proof (induction s)
  case Nil
  then show ?case by simp
next
  case (Cons x xs)
  obtain w ws where w: "split_on c xs = w # ws"
    by (cases "split_on c xs") auto
  show ?case
  proof (cases "x = c")
    case True
    with Cons w show ?thesis by simp
  next
    case False
    with Cons w show ?thesis by (cases ws) simp_all
  qed
qed

lemma split_on_no_sep: "w \<in> set (split_on c s) \<Longrightarrow> c \<notin> set w"
  by (induction s arbitrary: w) (auto split: list.splits if_splits)

lemma split_on_append_sep:
  "c \<notin> set w \<Longrightarrow> split_on c (w @ c # s) = w # split_on c s"
  by (induction w) auto

lemma split_on_single: "c \<notin> set w \<Longrightarrow> split_on c w = [w]"
  by (induction w) auto

lemma split_join_with:
  "\<forall>w \<in> set ws. c \<notin> set w \<Longrightarrow> ws \<noteq> [] \<Longrightarrow> split_on c (join_with [c] ws) = ws"
  by (induction "[c]" ws rule: join_with.induct) (auto simp: split_on_single split_on_append_sep)

text \<open>
  \<open>strings.TrimSpace\<close>. The spaces are the code points \<open>unicode.IsSpace\<close> accepts, as the byte
  sequences of their UTF-8 encodings; a byte sequence that decodes to no space is never removed.
\<close>

definition space_codes :: "string list" where
  "space_codes =
     [[CHR 0x20], [CHR 0x09], [CHR 0x0A], [CHR 0x0B], [CHR 0x0C], [CHR 0x0D],
      [CHR 0xC2, CHR 0x85], [CHR 0xC2, CHR 0xA0], [CHR 0xE1, CHR 0x9A, CHR 0x80],
      [CHR 0xE2, CHR 0x80, CHR 0x80], [CHR 0xE2, CHR 0x80, CHR 0x81], [CHR 0xE2, CHR 0x80, CHR 0x82],
      [CHR 0xE2, CHR 0x80, CHR 0x83], [CHR 0xE2, CHR 0x80, CHR 0x84], [CHR 0xE2, CHR 0x80, CHR 0x85],
      [CHR 0xE2, CHR 0x80, CHR 0x86], [CHR 0xE2, CHR 0x80, CHR 0x87], [CHR 0xE2, CHR 0x80, CHR 0x88],
      [CHR 0xE2, CHR 0x80, CHR 0x89], [CHR 0xE2, CHR 0x80, CHR 0x8A], [CHR 0xE2, CHR 0x80, CHR 0xA8],
      [CHR 0xE2, CHR 0x80, CHR 0xA9], [CHR 0xE2, CHR 0x80, CHR 0xAF], [CHR 0xE2, CHR 0x81, CHR 0x9F],
      [CHR 0xE3, CHR 0x80, CHR 0x80]]"

fun strip_with :: "(string \<Rightarrow> string \<Rightarrow> bool) \<Rightarrow> (nat \<Rightarrow> string \<Rightarrow> string) \<Rightarrow> nat \<Rightarrow> string \<Rightarrow> string" where
  "strip_with test chop 0 s = s"
| "strip_with test chop (Suc n) s =
     (case find (test s) space_codes of None \<Rightarrow> s | Some c \<Rightarrow> strip_with test chop n (chop (length c) s))"

definition trim_left_space :: "string \<Rightarrow> string" where
  "trim_left_space s = strip_with has_prefix drop (length s) s"

definition trim_right_space :: "string \<Rightarrow> string" where
  "trim_right_space s = strip_with has_suffix (\<lambda>n t. take (length t - n) t) (length s) s"

definition trim_space :: "string \<Rightarrow> string" where
  "trim_space s = trim_right_space (trim_left_space s)"

text \<open>The fuel \<open>length s\<close> is enough: no space is left at the end that was stripped.\<close>

lemma space_codes_pos: "c \<in> set space_codes \<Longrightarrow> 0 < length c"
  by (auto simp: space_codes_def)

lemma strip_with_done:
  assumes "\<And>t c. c \<in> set space_codes \<Longrightarrow> test t c \<Longrightarrow> length (chop (length c) t) < length t"
    and "length s \<le> n"
  shows "find (test (strip_with test chop n s)) space_codes = None"
  using assms(2)
proof (induction n arbitrary: s)
  case 0
  then show ?case using assms(1) [of _ s] by (auto simp: find_None_iff)
next
  case (Suc n)
  show ?case
  proof (cases "find (test s) space_codes")
    case (Some c)
    then have "c \<in> set space_codes" "test s c" by (auto simp: find_Some_iff)
    from assms(1) [OF this] Suc.prems have "length (chop (length c) s) \<le> n" by simp
    with Suc.IH Some show ?thesis by simp
  qed simp
qed

lemma strip_with_id: "find (test s) space_codes = None \<Longrightarrow> strip_with test chop n s = s"
  by (cases n) simp_all

lemma trim_left_done: "find (has_prefix (trim_left_space s)) space_codes = None"
  unfolding trim_left_space_def
  by (rule strip_with_done) (auto simp: has_prefix_iff dest: space_codes_pos)

lemma trim_right_done: "find (has_suffix (trim_right_space s)) space_codes = None"
  unfolding trim_right_space_def
  by (rule strip_with_done) (auto simp: has_suffix_iff dest: space_codes_pos)

lemma strip_suffix_prefix: "prefix (strip_with has_suffix (\<lambda>n t. take (length t - n) t) n s) s"
proof (induction n arbitrary: s)
  case (Suc n)
  show ?case
  proof (cases "find (has_suffix s) space_codes")
    case (Some c)
    have "prefix (take (length s - length c) s) s" by (rule take_is_prefix)
    with Suc Some show ?thesis by (auto intro: prefix_order.trans)
  qed simp
qed simp

lemma trim_right_prefix: "prefix (trim_right_space s) s"
  unfolding trim_right_space_def by (rule strip_suffix_prefix)

text \<open>A string that starts and ends with printable ASCII is left alone.\<close>

definition graphic :: "char \<Rightarrow> bool" where
  "graphic c \<longleftrightarrow> 0x21 \<le> (of_char c :: nat) \<and> (of_char c :: nat) \<le> 0x7E"

lemma space_codes_graphic:
  assumes "c \<in> set space_codes" shows "\<not> graphic (hd c)" "\<not> graphic (last c)"
  using assms by (auto simp: space_codes_def graphic_def)

lemma trim_space_graphic [simp]:
  assumes "s \<noteq> []" "graphic (hd s)" "graphic (last s)" shows "trim_space s = s"
proof -
  have "find (has_prefix s) space_codes = None"
    using assms(2) space_codes_graphic(1) space_codes_pos
    by (fastforce simp: find_None_iff has_prefix_iff hd_append)
  moreover have "find (has_suffix s) space_codes = None"
    using assms(3) space_codes_graphic(2) space_codes_pos
    by (fastforce simp: find_None_iff has_suffix_iff)
  ultimately show ?thesis
    by (simp add: trim_space_def trim_left_space_def trim_right_space_def strip_with_id)
qed

lemma trim_space_Nil [simp]: "trim_space [] = []"
  by (simp add: trim_space_def trim_left_space_def trim_right_space_def)

lemma trim_space_idem [simp]: "trim_space (trim_space s) = trim_space s"
proof -
  have "find (has_prefix (trim_space s)) space_codes = None"
    using trim_left_done [of s] trim_right_prefix [of "trim_left_space s"]
    unfolding trim_space_def by (fastforce simp: find_None_iff has_prefix_iff prefix_def)
  then have "trim_left_space (trim_space s) = trim_space s"
    by (simp add: trim_left_space_def strip_with_id)
  moreover have "trim_right_space (trim_space s) = trim_space s"
    using trim_right_done by (simp add: trim_space_def trim_right_space_def strip_with_id)
  ultimately show ?thesis by (simp add: trim_space_def [of "trim_space s"])
qed

section \<open>Package path\<close>

text \<open>
  \<open>path.Clean\<close>: empty and \<open>.\<close> elements are dropped, \<open>..\<close> removes the element before it, is
  kept at the front of a relative path and is dropped at the front of a rooted one; the empty
  result is \<open>.\<close>. The accumulator holds the kept elements, last first.
\<close>

fun clean_step :: "bool \<Rightarrow> string list \<Rightarrow> string \<Rightarrow> string list" where
  "clean_step rooted out seg =
     (if seg = [] \<or> seg = ''.'' then out
      else if seg = ''..'' then
        (case out of
           [] \<Rightarrow> if rooted then [] else [''..'']
         | x # xs \<Rightarrow> if x = ''..'' then ''..'' # out else xs)
      else seg # out)"

definition path_is_abs :: "string \<Rightarrow> bool" where
  "path_is_abs p \<longleftrightarrow> has_prefix p ''/''"

definition path_clean :: "string \<Rightarrow> string" where
  "path_clean p =
     (let rooted = path_is_abs p;
          s = join_with ''/'' (rev (foldl (clean_step rooted) [] (split_on CHR ''/'' p)))
      in if rooted then ''/'' @ s else if s = [] then ''.'' else s)"

section \<open>Package slices\<close>

text \<open>\<open>slices.Sort\<close> followed by \<open>slices.Compact\<close>.\<close>

definition sorted_unique :: "'a::linorder list \<Rightarrow> 'a list" where
  "sorted_unique xs = remdups_adj (sort xs)"

lemma set_sorted_unique [simp]: "set (sorted_unique xs) = set xs"
  by (simp add: sorted_unique_def)

lemma sorted_remdups_adj_distinct: "sorted xs \<Longrightarrow> distinct (remdups_adj xs)"
proof (induction xs rule: remdups_adj.induct)
  case (3 x y xs)
  then show ?case
    by (auto simp: order.antisym)
qed simp_all

lemma distinct_sorted_unique [simp]: "distinct (sorted_unique xs)"
  by (simp add: sorted_unique_def sorted_remdups_adj_distinct)

section \<open>Sorting by a comparison\<close>

fun insert_by :: "('a \<Rightarrow> 'a \<Rightarrow> bool) \<Rightarrow> 'a \<Rightarrow> 'a list \<Rightarrow> 'a list" where
  "insert_by le x [] = [x]"
| "insert_by le x (y # ys) = (if le x y then x # y # ys else y # insert_by le x ys)"

definition sort_by :: "('a \<Rightarrow> 'a \<Rightarrow> bool) \<Rightarrow> 'a list \<Rightarrow> 'a list" where
  "sort_by le xs = foldr (insert_by le) xs []"

lemma set_insert_by [simp]: "set (insert_by le x ys) = insert x (set ys)"
  by (induction ys) auto

lemma set_sort_by [simp]: "set (sort_by le xs) = set xs"
  by (induction xs) (simp_all add: sort_by_def)

lemma sorted_insert_by:
  assumes "\<And>a b. le a b \<or> le b a" "\<And>a b c. le a b \<Longrightarrow> le b c \<Longrightarrow> le a c" "sorted_wrt le ys"
  shows "sorted_wrt le (insert_by le x ys)"
  using assms(3)
proof (induction ys)
  case (Cons y ys)
  then show ?case using assms(1) [of x y] by (auto dest: assms(2))
qed simp

lemma sorted_sort_by:
  assumes "\<And>a b. le a b \<or> le b a" "\<And>a b c. le a b \<Longrightarrow> le b c \<Longrightarrow> le a c"
  shows "sorted_wrt le (sort_by le xs)"
  by (induction xs) (simp_all add: sort_by_def sorted_insert_by assms(1) assms(2))

section \<open>Histories\<close>

text \<open>
  A component that reacts to labelled steps, its histories, and the contract of its invariant: every
  step with an admissible label keeps it, so every history of such steps does.
\<close>

inductive trace :: "('l \<Rightarrow> 's \<Rightarrow> 's \<Rightarrow> bool) \<Rightarrow> 's \<Rightarrow> 'l list \<Rightarrow> 's \<Rightarrow> bool" for step where
  trace_Nil: "trace step s [] s"
| trace_snoc: "trace step s ls s' \<Longrightarrow> step l s' s'' \<Longrightarrow> trace step s (ls @ [l]) s''"

inductive_cases trace_snocE: "trace step s (ls @ [l]) s'"

lemma trace_append:
  "trace step s' ls' s'' \<Longrightarrow> trace step s ls s' \<Longrightarrow> trace step s (ls @ ls') s''"
proof (induction rule: trace.induct)
  case (trace_snoc s1 ls1 s2 l s3)
  then show ?case by (metis append.assoc trace.trace_snoc)
qed simp

locale step_system =
  fixes step :: "'l \<Rightarrow> 's \<Rightarrow> 's \<Rightarrow> bool"
    and admissible :: "'l \<Rightarrow> bool"
    and invariant :: "'s \<Rightarrow> bool"
  assumes step_invariant: "step l s s' \<Longrightarrow> admissible l \<Longrightarrow> invariant s \<Longrightarrow> invariant s'"
begin

lemma trace_invariant:
  assumes "trace step s ls s'" "list_all admissible ls" "invariant s"
  shows "invariant s'"
  using assms by induction (auto intro: step_invariant)

end

end
