(* ===== verification/Lifecycle.thy ===== *)
theory Lifecycle
  imports Prelude "HOL-Library.Multiset"
begin

text \<open>
  The lifecycle planner (\<open>src/internal/lifecycle/plan.go\<close>): the validation of a list of nodes
  (\<open>New\<close>), the reachability test it uses (\<open>dependsOn\<close>), the depth-first order of the accepted
  plan and the execution of the closure of some targets (\<open>Run\<close>). A node's action is a
  transformer of the world \<open>'w\<close> that may fail; the error of the context is a function of the
  world, since a context may be cancelled at any moment. \<open>p.nodes\<close> is an association list in
  insertion order; the order in which Go ranges over that map is the argument \<open>iter\<close> of
  \<open>new_plan\<close>.
\<close>

section \<open>Data\<close>

type_synonym node_id = string
type_synonym capability = string

definition ReadSource :: capability where "ReadSource = ''source.read''"
definition WriteCache :: capability where "WriteCache = ''cache.write''"
definition PublishArtifacts :: capability where "PublishArtifacts = ''artifacts.publish''"
definition UseScratch :: capability where "UseScratch = ''scratch.use''"
definition MutateDatabase :: capability where "MutateDatabase = ''database.mutate''"
definition ControlRuntime :: capability where "ControlRuntime = ''runtime.control''"

definition Reusable :: string where "Reusable = ''reusable''"
definition CurrentValidation :: string where "CurrentValidation = ''current_validation''"
definition ExternalEffect :: string where "ExternalEffect = ''external_effect''"

definition Private :: string where "Private = ''private''"
definition Managed :: string where "Managed = ''managed''"
definition External :: string where "External = ''external''"

lemmas lifecycle_consts =
  ReadSource_def WriteCache_def PublishArtifacts_def UseScratch_def MutateDatabase_def
  ControlRuntime_def Reusable_def CurrentValidation_def ExternalEffect_def Private_def
  Managed_def External_def

record reference =
  ref_name :: string
  ref_kind :: string
  ref_path :: string
  ref_digest :: string
  ref_producer :: node_id
  ref_ownership :: string
  ref_owner :: node_id

type_synonym 'w action = "'w \<Rightarrow> 'w \<times> string option"

record 'w node =
  node_id :: node_id
  node_kind :: string
  dependencies :: "node_id list"
  inputs :: "reference list"
  outputs :: "reference list"
  identity :: "(string \<times> string) list"
  cache :: string
  effects :: "capability list"
  node_action :: "'w action option"

type_synonym 'w node_map = "(node_id \<times> 'w node) list"

record 'w plan =
  plan_nodes :: "'w node_map"
  plan_order :: "node_id list"

datatype lifecycle_error =
    NeedsIdAndKind
  | DuplicateNode node_id
  | InvalidCachePolicy node_id
  | UnknownCapability capability
  | ExternalEffectReusable node_id
  | InvalidInput node_id
  | InvalidOutput node_id
  | MissingOwnership node_id
  | UnsafePath string
  | MissingDependency node_id
  | MissingProducer node_id node_id
  | MissingOutput string node_id
  | OwnerMustPublish node_id node_id
  | OverlappingOwners node_id
  | LifecycleCycle node_id
  | UnknownTarget node_id
  | PermissionDenied node_id capability
  | NoAction node_id
  | ContextErr string
  | ActionErr string

section \<open>Validation of single nodes\<close>

fun check_effects :: "node_id \<Rightarrow> string \<Rightarrow> capability list \<Rightarrow> lifecycle_error + unit" where
  "check_effects i policy [] = Inr ()"
| "check_effects i policy (e # es) =
     (if e \<notin> {ReadSource, WriteCache, PublishArtifacts, UseScratch, MutateDatabase, ControlRuntime}
      then Inl (UnknownCapability e)
      else if policy \<noteq> ExternalEffect \<and> e \<in> {MutateDatabase, ControlRuntime, UseScratch, PublishArtifacts}
      then Inl (ExternalEffectReusable i)
      else check_effects i policy es)"

fun check_inputs :: "node_id \<Rightarrow> string list \<Rightarrow> reference list \<Rightarrow> lifecycle_error + unit" where
  "check_inputs i seen [] = Inr ()"
| "check_inputs i seen (r # rs) =
     (if ref_name r = [] \<or> ref_kind r = [] \<or> ref_name r \<in> set seen then Inl (InvalidInput i)
      else check_inputs i (ref_name r # seen) rs)"

fun check_outputs :: "node_id \<Rightarrow> string list \<Rightarrow> reference list \<Rightarrow> lifecycle_error + unit" where
  "check_outputs i seen [] = Inr ()"
| "check_outputs i seen (r # rs) =
     (if ref_name r = [] \<or> ref_kind r = [] \<or> ref_name r \<in> set seen then Inl (InvalidOutput i)
      else if ref_ownership r \<notin> {Private, Managed, External} then Inl (MissingOwnership i)
      else check_outputs i (ref_name r # seen) rs)"

definition unsafe_path :: "string \<Rightarrow> bool" where
  "unsafe_path p \<longleftrightarrow>
     p \<noteq> [] \<and> (path_clean p \<noteq> p \<or> path_is_abs p \<or> p = ''..'' \<or> has_prefix p ''../''
       \<or> CHR 0x5C \<in> set p)"

fun check_paths :: "reference list \<Rightarrow> lifecycle_error + unit" where
  "check_paths [] = Inr ()"
| "check_paths (r # rs) =
     (if unsafe_path (ref_path r) then Inl (UnsafePath (ref_path r)) else check_paths rs)"

definition add_node :: "'w node \<Rightarrow> 'w node_map \<Rightarrow> lifecycle_error + 'w node_map" where
  "add_node n ns =
     (if node_id n = [] \<or> node_kind n = [] then Inl NeedsIdAndKind
      else if map_of ns (node_id n) \<noteq> None then Inl (DuplicateNode (node_id n))
      else if cache n \<notin> {Reusable, CurrentValidation, ExternalEffect}
      then Inl (InvalidCachePolicy (node_id n))
      else
        let n' = n\<lparr>dependencies := sorted_unique (dependencies n),
                   effects := sorted_unique (effects n)\<rparr>
        in res_bind (check_effects (node_id n') (cache n') (effects n')) (\<lambda>_.
           res_bind (check_inputs (node_id n') [] (inputs n')) (\<lambda>_.
           res_bind (check_outputs (node_id n') [] (outputs n')) (\<lambda>_.
           res_bind (check_paths (inputs n' @ outputs n')) (\<lambda>_.
           Inr (ns @ [(node_id n', n')]))))))"

fun add_nodes :: "'w node list \<Rightarrow> 'w node_map \<Rightarrow> lifecycle_error + 'w node_map" where
  "add_nodes [] ns = Inr ns"
| "add_nodes (n # rest) ns = res_bind (add_node n ns) (add_nodes rest)"

section \<open>Reachability\<close>

text \<open>Go's \<open>p.nodes[id].Dependencies\<close> is empty for an identifier that is not a key.\<close>

definition deps_of :: "'w node_map \<Rightarrow> node_id \<Rightarrow> node_id list" where
  "deps_of ns i = (case map_of ns i of None \<Rightarrow> [] | Some n \<Rightarrow> dependencies n)"

definition dep_rel :: "'w node_map \<Rightarrow> (node_id \<times> node_id) set" where
  "dep_rel ns = {(i, j). j \<in> set (deps_of ns i)}"

lemma deps_of_notin [simp]: "i \<notin> fst ` set ns \<Longrightarrow> deps_of ns i = []"
  by (simp add: deps_of_def map_of_eq_None_iff[THEN iffD2])

text \<open>The loop of \<open>dependsOn\<close>; the stack \<open>pending\<close> is kept with its last element first.\<close>

function depends_loop ::
  "'w node_map \<Rightarrow> node_id \<Rightarrow> node_id list \<Rightarrow> node_id list \<Rightarrow> bool" where
  "depends_loop ns producer seen [] = False"
| "depends_loop ns producer seen (i # pending) =
     (if i = producer then True
      else if i \<in> set seen then depends_loop ns producer seen pending
      else depends_loop ns producer (i # seen) (rev (deps_of ns i) @ pending))"
  by pat_completeness auto
termination
proof (relation "inv_image (finite_psubset <*lex*> less_than)
        (\<lambda>(ns, producer, seen, pending). (fst ` set ns - set seen, length pending))")
  fix ns :: "'w node_map" and producer i :: node_id and seen pending :: "node_id list"
  assume "i \<notin> set seen"
  then show "((ns, producer, i # seen, rev (deps_of ns i) @ pending), ns, producer, seen, i # pending)
    \<in> inv_image (finite_psubset <*lex*> less_than)
        (\<lambda>(ns, producer, seen, pending). (fst ` set ns - set seen, length pending))"
    by (cases "i \<in> fst ` set ns") (auto simp: finite_psubset_def)
qed auto

definition depends_on :: "'w node_map \<Rightarrow> node_id \<Rightarrow> node_id \<Rightarrow> bool" where
  "depends_on ns owner producer = depends_loop ns producer [] [owner]"

section \<open>Validation of the whole plan\<close>

text \<open>The owner of an output: the shared publication it names, or the producing node.\<close>

definition output_owner :: "'w node \<Rightarrow> reference \<Rightarrow> node_id" where
  "output_owner n r =
     (if ref_owner r \<noteq> [] \<and> ref_owner r \<noteq> node_id n then ref_owner r else node_id n)"

definition paths_overlap :: "string \<Rightarrow> string \<Rightarrow> bool" where
  "paths_overlap p q \<longleftrightarrow> p = q \<or> has_prefix p (q @ ''/'') \<or> has_prefix q (p @ ''/'')"

fun check_dependencies :: "'w node_map \<Rightarrow> node_id list \<Rightarrow> lifecycle_error + unit" where
  "check_dependencies ns [] = Inr ()"
| "check_dependencies ns (d # ds) =
     (if map_of ns d = None then Inl (MissingDependency d) else check_dependencies ns ds)"

fun check_producers ::
  "'w node_map \<Rightarrow> 'w node \<Rightarrow> reference list \<Rightarrow> lifecycle_error + unit" where
  "check_producers ns n [] = Inr ()"
| "check_producers ns n (r # rs) =
     (if ref_producer r = [] then check_producers ns n rs
      else case map_of ns (ref_producer r) of
        None \<Rightarrow> Inl (MissingProducer (ref_producer r) (node_id n))
      | Some m \<Rightarrow>
          if ref_producer r \<notin> set (dependencies n)
          then Inl (MissingProducer (ref_producer r) (node_id n))
          else if \<not> list_ex (\<lambda>out. ref_name out = ref_name r \<and> ref_kind out = ref_kind r
                 \<and> ref_path out = ref_path r) (outputs m)
          then Inl (MissingOutput (ref_name r) (ref_producer r))
          else check_producers ns n rs)"

text \<open>\<open>owners\<close> maps the output paths seen so far to their owners.\<close>

fun check_owners ::
  "'w node_map \<Rightarrow> 'w node \<Rightarrow> reference list \<Rightarrow> (string \<times> node_id) list
     \<Rightarrow> lifecycle_error + (string \<times> node_id) list" where
  "check_owners ns n [] owners = Inr owners"
| "check_owners ns n (r # rs) owners =
     (if ref_path r = [] then check_owners ns n rs owners
      else if ref_owner r \<noteq> [] \<and> ref_owner r \<noteq> node_id n
        \<and> (case map_of ns (ref_owner r) of
             None \<Rightarrow> True
           | Some publication \<Rightarrow> PublishArtifacts \<notin> set (effects publication)
               \<or> \<not> depends_on ns (ref_owner r) (node_id n))
      then Inl (OwnerMustPublish (ref_owner r) (node_id n))
      else if list_ex (\<lambda>(owned, existing). existing \<noteq> output_owner n r
                \<and> paths_overlap (ref_path r) owned) owners
      then Inl (OverlappingOwners (output_owner n r))
      else check_owners ns n rs ((ref_path r, output_owner n r) # owners))"

fun validate_nodes ::
  "'w node_map \<Rightarrow> node_id list \<Rightarrow> (string \<times> node_id) list
     \<Rightarrow> lifecycle_error + (string \<times> node_id) list" where
  "validate_nodes ns [] owners = Inr owners"
| "validate_nodes ns (i # is) owners =
     (case map_of ns i of
        None \<Rightarrow> validate_nodes ns is owners
      | Some n \<Rightarrow>
          res_bind (check_dependencies ns (dependencies n)) (\<lambda>_.
          res_bind (check_producers ns n (inputs n)) (\<lambda>_.
          res_bind (check_owners ns n (outputs n) owners) (\<lambda>owners'.
          validate_nodes ns is owners'))))"

text \<open>
  The depth-first order. \<open>visit\<close> sets \<open>visiting[id]\<close> before it visits the dependencies of \<open>id\<close>
  and clears it afterwards, and a failure abandons the traversal, so \<open>visiting\<close> is the stack of
  open calls. One function serves the loop over the sorted identifiers and the loop over the
  dependencies of a node; its state is the visited identifiers and \<open>p.order\<close>.
\<close>

function visit ::
  "'w node_map \<Rightarrow> node_id list \<Rightarrow> node_id list \<Rightarrow> node_id list \<times> node_id list
     \<Rightarrow> lifecycle_error + node_id list \<times> node_id list" where
  "visit ns visiting [] st = Inr st"
| "visit ns visiting (i # is) st =
     (if i \<in> set visiting then Inl (LifecycleCycle i)
      else if i \<in> set (fst st) then visit ns visiting is st
      else case visit ns (i # visiting) (deps_of ns i) st of
        Inl e \<Rightarrow> Inl e
      | Inr st' \<Rightarrow> visit ns visiting is (i # fst st', snd st' @ [i]))"
  by pat_completeness auto
termination
proof (relation "inv_image (finite_psubset <*lex*> less_than)
        (\<lambda>(ns, visiting, is, st). (fst ` set ns - set visiting, length is))")
  fix ns :: "'w node_map" and i and visiting is' :: "node_id list"
    and st :: "node_id list \<times> node_id list"
  assume "i \<notin> set visiting"
  then show "((ns, i # visiting, deps_of ns i, st), ns, visiting, i # is', st)
    \<in> inv_image (finite_psubset <*lex*> less_than)
        (\<lambda>(ns, visiting, is, st). (fst ` set ns - set visiting, length is))"
    by (cases "i \<in> fst ` set ns") (auto simp: finite_psubset_def)
qed auto

definition new_plan ::
  "(node_id list \<Rightarrow> node_id list) \<Rightarrow> 'w node list \<Rightarrow> lifecycle_error + 'w plan" where
  "new_plan iter nodes =
     res_bind (add_nodes nodes []) (\<lambda>ns.
     res_bind (validate_nodes ns (iter (map fst ns)) []) (\<lambda>_.
     res_bind (visit ns [] (sort (map fst ns)) ([], [])) (\<lambda>(visited, order).
     Inr \<lparr>plan_nodes = ns, plan_order = order\<rparr>)))"

section \<open>Execution\<close>

text \<open>The closure of the targets: \<open>selectNode\<close> over a list of identifiers.\<close>

function select_nodes ::
  "'w node_map \<Rightarrow> node_id list \<Rightarrow> node_id list \<Rightarrow> lifecycle_error + node_id list" where
  "select_nodes ns [] selected = Inr selected"
| "select_nodes ns (i # is) selected =
     (case map_of ns i of
        None \<Rightarrow> Inl (UnknownTarget i)
      | Some n \<Rightarrow>
          if i \<in> set selected then select_nodes ns is selected
          else case select_nodes ns (dependencies n) (i # selected) of
            Inl e \<Rightarrow> Inl e
          | Inr selected' \<Rightarrow> select_nodes ns is selected')"
  by pat_completeness auto

termination
proof (relation "inv_image (finite_psubset <*lex*> less_than)
        (\<lambda>(ns, is, selected). (fst ` set ns - set selected, length is))")
  have grows: "select_nodes ns is selected = Inr selected' \<Longrightarrow> set selected \<subseteq> set selected'"
    if "select_nodes_dom (ns, is, selected)" for ns :: "'w node_map" and "is" selected selected'
    using that
  proof (induction ns "is" selected arbitrary: selected' rule: select_nodes.pinduct)
    case (1 ns selected)
    then show ?case by (simp add: select_nodes.psimps)
  next
    case (2 ns i "is" selected)
    then show ?case
      by (fastforce simp: select_nodes.psimps split: option.splits if_splits sum.splits)
  qed
  fix ns :: "'w node_map" and i and is' selected selected' :: "node_id list" and n :: "'w node"
  assume n: "map_of ns i = Some n" and i: "i \<notin> set selected"
  from n have k: "i \<in> fst ` set ns" by (metis map_of_eq_None_iff option.distinct(1))
  from i k show "((ns, dependencies n, i # selected), ns, i # is', selected)
    \<in> inv_image (finite_psubset <*lex*> less_than)
        (\<lambda>(ns, is, selected). (fst ` set ns - set selected, length is))"
    by (auto simp: finite_psubset_def)
  assume "select_nodes_dom (ns, dependencies n, i # selected)"
    and "select_nodes ns (dependencies n) (i # selected) = Inr selected'"
  then have "set (i # selected) \<subseteq> set selected'"
    by (rule grows)
  with i k show "((ns, is', selected'), ns, i # is', selected)
    \<in> inv_image (finite_psubset <*lex*> less_than)
        (\<lambda>(ns, is, selected). (fst ` set ns - set selected, length is))"
    by (auto simp: finite_psubset_def)
qed auto

fun check_selected ::
  "'w node_map \<Rightarrow> node_id list \<Rightarrow> capability list \<Rightarrow> node_id list \<Rightarrow> lifecycle_error option" where
  "check_selected ns selected allowed [] = None"
| "check_selected ns selected allowed (i # is) =
     (if i \<notin> set selected then check_selected ns selected allowed is
      else case map_of ns i of
        None \<Rightarrow> Some (NoAction i)
      | Some n \<Rightarrow>
          case find (\<lambda>e. e \<notin> set allowed) (effects n) of
            Some e \<Rightarrow> Some (PermissionDenied i e)
          | None \<Rightarrow> if node_action n = None then Some (NoAction i)
                    else check_selected ns selected allowed is)"

text \<open>A nil action is never reached here; \<open>node_act\<close> is the identity then.\<close>

definition node_act :: "'w node_map \<Rightarrow> node_id \<Rightarrow> 'w action" where
  "node_act ns i =
     (case map_of ns i of None \<Rightarrow> (\<lambda>w. (w, None))
      | Some n \<Rightarrow> case node_action n of None \<Rightarrow> (\<lambda>w. (w, None)) | Some a \<Rightarrow> a)"

fun run_selected ::
  "('w \<Rightarrow> string option) \<Rightarrow> 'w node_map \<Rightarrow> node_id list \<Rightarrow> node_id list \<Rightarrow> 'w
     \<Rightarrow> 'w \<times> lifecycle_error option" where
  "run_selected ctx_err ns selected [] w = (w, None)"
| "run_selected ctx_err ns selected (i # is) w =
     (if i \<notin> set selected then run_selected ctx_err ns selected is w
      else case ctx_err w of
        Some e \<Rightarrow> (w, Some (ContextErr e))
      | None \<Rightarrow>
          case node_act ns i w of
            (w', Some e) \<Rightarrow> (w', Some (ActionErr e))
          | (w', None) \<Rightarrow> run_selected ctx_err ns selected is w')"

definition run_plan ::
  "('w \<Rightarrow> string option) \<Rightarrow> 'w plan \<Rightarrow> node_id list \<Rightarrow> capability list \<Rightarrow> 'w
     \<Rightarrow> 'w \<times> lifecycle_error option" where
  "run_plan ctx_err p targets allowed w =
     (case select_nodes (plan_nodes p) targets [] of
        Inl e \<Rightarrow> (w, Some e)
      | Inr selected \<Rightarrow>
          case check_selected (plan_nodes p) selected allowed (plan_order p) of
            Some e \<Rightarrow> (w, Some e)
          | None \<Rightarrow> run_selected ctx_err (plan_nodes p) selected (plan_order p) w)"

section \<open>Reachability is reachability\<close>

lemma depends_loop_sound:
  "depends_loop ns producer seen pending \<Longrightarrow> \<exists>i \<in> set pending. (i, producer) \<in> (dep_rel ns)\<^sup>*"
proof (induction ns producer seen pending rule: depends_loop.induct)
  case (2 ns producer seen i pending)
  then show ?case
    by (auto simp: dep_rel_def split: if_splits intro: converse_rtrancl_into_rtrancl)
qed simp

lemma depends_loop_complete:
  "\<not> depends_loop ns producer seen pending \<Longrightarrow> producer \<notin> set seen \<Longrightarrow>
     \<forall>s \<in> set seen. set (deps_of ns s) \<subseteq> set seen \<union> set pending \<Longrightarrow>
     \<exists>C. set seen \<union> set pending \<subseteq> C \<and> producer \<notin> C \<and> (\<forall>c \<in> C. set (deps_of ns c) \<subseteq> C)"
proof (induction ns producer seen pending rule: depends_loop.induct)
  case (1 ns producer seen)
  then show ?case by (intro exI [of _ "set seen"]) auto
next
  case (2 ns producer seen i pending)
  show ?case
  proof (cases "i \<in> set seen")
    case True
    with "2.prems" have "i \<noteq> producer" "\<not> depends_loop ns producer seen pending"
      "\<forall>s \<in> set seen. set (deps_of ns s) \<subseteq> set seen \<union> set pending"
      by (auto split: if_splits)
    from "2.IH"(1) [OF this(1) True this(2) "2.prems"(2) this(3)]
    obtain C where "set seen \<union> set pending \<subseteq> C" "producer \<notin> C"
      "\<forall>c \<in> C. set (deps_of ns c) \<subseteq> C" by blast
    with True show ?thesis by (intro exI [of _ C]) auto
  next
    case False
    from False 2 have "\<exists>C. set (i # seen) \<union> set (rev (deps_of ns i) @ pending) \<subseteq> C
        \<and> producer \<notin> C \<and> (\<forall>c \<in> C. set (deps_of ns c) \<subseteq> C)"
      by (intro "2.IH"(2)) (auto split: if_splits)
    then show ?thesis by auto
  qed
qed

lemma closed_rtrancl:
  assumes "(i, j) \<in> (dep_rel ns)\<^sup>*" "i \<in> C" "\<forall>c \<in> C. set (deps_of ns c) \<subseteq> C"
  shows "j \<in> C"
  using assms by (induction rule: rtrancl_induct) (auto simp: dep_rel_def)

lemma depends_on_iff: "depends_on ns owner producer \<longleftrightarrow> (owner, producer) \<in> (dep_rel ns)\<^sup>*"
proof
  assume "depends_on ns owner producer"
  then have "\<exists>i \<in> set [owner]. (i, producer) \<in> (dep_rel ns)\<^sup>*"
    unfolding depends_on_def by (rule depends_loop_sound)
  then show "(owner, producer) \<in> (dep_rel ns)\<^sup>*" by simp
next
  assume r: "(owner, producer) \<in> (dep_rel ns)\<^sup>*"
  show "depends_on ns owner producer"
  proof (rule ccontr)
    assume "\<not> depends_on ns owner producer"
    then obtain C where "owner \<in> C" "producer \<notin> C" "\<forall>c \<in> C. set (deps_of ns c) \<subseteq> C"
      unfolding depends_on_def using depends_loop_complete [of ns producer "[]" "[owner]"]
      by (auto simp del: depends_loop.simps)
    with r show False using closed_rtrancl by blast
  qed
qed

section \<open>The depth-first order\<close>

text \<open>
  \<open>topological ns xs\<close>: every identifier of \<open>xs\<close> stands after all its dependencies. It is what
  the traversal keeps of \<open>p.order\<close>, together with \<open>dfs_inv\<close>.
\<close>

definition topological :: "'w node_map \<Rightarrow> node_id list \<Rightarrow> bool" where
  "topological ns xs \<longleftrightarrow> (\<forall>k < length xs. set (deps_of ns (xs ! k)) \<subseteq> set (take k xs))"

definition dfs_inv :: "'w node_map \<Rightarrow> node_id list \<times> node_id list \<Rightarrow> bool" where
  "dfs_inv ns st \<longleftrightarrow>
     set (fst st) = set (snd st) \<and> distinct (snd st) \<and> topological ns (snd st)"

lemma topological_snoc:
  "topological ns xs \<Longrightarrow> set (deps_of ns i) \<subseteq> set xs \<Longrightarrow> topological ns (xs @ [i])"
  by (auto simp: topological_def nth_append less_Suc_eq dest: subsetD)

lemma visit_Cons_Inr:
  "visit ns visiting (i # is) st = Inr st' \<longleftrightarrow>
     i \<notin> set visiting \<and>
     (if i \<in> set (fst st) then visit ns visiting is st = Inr st'
      else \<exists>st1. visit ns (i # visiting) (deps_of ns i) st = Inr st1
             \<and> visit ns visiting is (i # fst st1, snd st1 @ [i]) = Inr st')"
  by (auto split: sum.splits)

declare visit.simps(2) [simp del]

text \<open>Induction over a traversal that succeeds.\<close>

lemma visit_induct [consumes 1, case_names Nil Seen Fresh]:
  assumes "visit ns visiting is st = Inr st'"
    and "\<And>visiting st. P visiting [] st st"
    and "\<And>visiting i is st st'. i \<notin> set visiting \<Longrightarrow> i \<in> set (fst st) \<Longrightarrow>
       P visiting is st st' \<Longrightarrow> P visiting (i # is) st st'"
    and "\<And>visiting i is st st1 st'. i \<notin> set visiting \<Longrightarrow> i \<notin> set (fst st) \<Longrightarrow>
       visit ns (i # visiting) (deps_of ns i) st = Inr st1 \<Longrightarrow>
       P (i # visiting) (deps_of ns i) st st1 \<Longrightarrow>
       P visiting is (i # fst st1, snd st1 @ [i]) st' \<Longrightarrow> P visiting (i # is) st st'"
  shows "P visiting is st st'"
  using assms
proof (induction ns visiting "is" st arbitrary: st' rule: visit.induct)
  case (1 ns visiting st)
  then show ?case by simp
next
  case (2 ns visiting i "is" st)
  note steps = "2.prems"(2-4)
  show ?case
  proof (cases "i \<in> set (fst st)")
    case True
    with "2.prems"(1) have nv: "i \<notin> set visiting" and v: "visit ns visiting is st = Inr st'"
      by (simp_all add: visit_Cons_Inr)
    show ?thesis by (rule steps(2) [OF nv True "2.IH"(1) [OF nv True v steps]])
  next
    case False
    with "2.prems"(1) obtain st1 where nv: "i \<notin> set visiting"
      and st1: "visit ns (i # visiting) (deps_of ns i) st = Inr st1"
      and st': "visit ns visiting is (i # fst st1, snd st1 @ [i]) = Inr st'"
      by (auto simp: visit_Cons_Inr)
    show ?thesis
      by (rule steps(3) [OF nv False st1 "2.IH"(2) [OF nv False st1 steps]
            "2.IH"(3) [OF nv False st1 st' steps]])
  qed
qed

lemma visit_mono:
  "visit ns visiting is st = Inr st' \<Longrightarrow> set (fst st) \<subseteq> set (fst st') \<and> set is \<subseteq> set (fst st')"
  by (induction rule: visit_induct) auto

lemma visit_avoids:
  "visit ns visiting is st = Inr st' \<Longrightarrow> set (fst st') \<inter> set visiting \<subseteq> set (fst st)"
  by (induction rule: visit_induct) auto

lemma visit_inv:
  "visit ns visiting is st = Inr st' \<Longrightarrow> dfs_inv ns st \<Longrightarrow> dfs_inv ns st'"
proof (induction rule: visit_induct)
  case (Fresh visiting i "is" st st1 st')
  then have inv1: "dfs_inv ns st1" by blast
  have "i \<notin> set (fst st1)" using visit_avoids [OF Fresh.hyps(3)] Fresh.hyps(2) by auto
  moreover have "set (deps_of ns i) \<subseteq> set (snd st1)"
    using visit_mono [OF Fresh.hyps(3)] inv1 by (auto simp: dfs_inv_def)
  ultimately have "dfs_inv ns (i # fst st1, snd st1 @ [i])"
    using inv1 by (auto simp: dfs_inv_def topological_snoc)
  then show ?case by (rule Fresh.IH)
qed simp_all

lemma visit_within:
  "visit ns visiting is st = Inr st' \<Longrightarrow> \<forall>k \<in> K. set (deps_of ns k) \<subseteq> K \<Longrightarrow>
     set (fst st) \<subseteq> K \<Longrightarrow> set is \<subseteq> K \<Longrightarrow> set (fst st') \<subseteq> K"
  by (induction rule: visit_induct) simp_all

lemma visit_cycle:
  "visit ns visiting is st = Inl e \<Longrightarrow>
     \<forall>v \<in> set visiting. \<forall>i \<in> set is. (v, i) \<in> (dep_rel ns)\<^sup>+ \<Longrightarrow>
     \<exists>i. e = LifecycleCycle i \<and> (i, i) \<in> (dep_rel ns)\<^sup>+"
proof (induction ns visiting "is" st arbitrary: e rule: visit.induct)
  case (2 ns visiting i "is" st)
  consider "i \<in> set visiting" | "i \<notin> set visiting" "i \<in> set (fst st)"
    | "i \<notin> set visiting" "i \<notin> set (fst st)" by blast
  then show ?case
  proof cases
    case 1
    with "2.prems" show ?thesis by (auto simp: visit.simps(2))
  next
    case 2
    with "2.IH"(1) "2.prems" show ?thesis by (simp add: visit.simps(2))
  next
    case 3
    have "\<forall>v \<in> set (i # visiting). \<forall>d \<in> set (deps_of ns i). (v, d) \<in> (dep_rel ns)\<^sup>+"
      using "2.prems"(2) by (auto simp: dep_rel_def intro: trancl_into_trancl)
    with 3 "2.IH"(2,3) "2.prems" show ?thesis by (auto simp: visit.simps(2) split: sum.splits)
  qed
qed simp

lemma topological_take_closed:
  assumes "topological ns xs" "k < length xs"
  shows "\<forall>c \<in> set (take k xs). set (deps_of ns c) \<subseteq> set (take k xs)"
proof
  fix c assume "c \<in> set (take k xs)"
  then obtain m where m: "m < k" "c = xs ! m" by (auto simp: in_set_conv_nth)
  with assms have "set (deps_of ns c) \<subseteq> set (take m xs)" by (simp add: topological_def)
  also have "\<dots> \<subseteq> set (take k xs)" using m by (simp add: set_take_subset_set_take)
  finally show "set (deps_of ns c) \<subseteq> set (take k xs)" .
qed

lemma topological_acyclic:
  assumes "topological ns xs" "\<And>i. i \<notin> set xs \<Longrightarrow> deps_of ns i = []"
  shows "acyclic (dep_rel ns)"
proof (rule acyclicI, rule allI, rule notI)
  fix i assume c: "(i, i) \<in> (dep_rel ns)\<^sup>+"
  then obtain j where j: "(i, j) \<in> dep_rel ns" "(j, i) \<in> (dep_rel ns)\<^sup>*"
    by (meson tranclD)
  have no: "k < length xs \<Longrightarrow> xs ! k \<noteq> i" for k
  proof (induction k rule: less_induct)
    case (less k)
    show ?case
    proof
      assume k: "xs ! k = i"
      with less.prems assms(1) j(1) have "j \<in> set (take k xs)"
        by (auto simp: topological_def dep_rel_def)
      moreover have "\<forall>c \<in> set (take k xs). set (deps_of ns c) \<subseteq> set (take k xs)"
        using assms(1) less.prems by (rule topological_take_closed)
      ultimately have "i \<in> set (take k xs)" using j(2) closed_rtrancl by blast
      then obtain m where "m < k" "xs ! m = i" by (auto simp: in_set_conv_nth)
      with less show False by simp
    qed
  qed
  then have "i \<notin> set xs" by (auto simp: in_set_conv_nth)
  with assms(2) j(1) show False by (auto simp: dep_rel_def)
qed

section \<open>What the validation accepts\<close>

lemma add_node_Inr:
  "add_node n ns = Inr ns' \<Longrightarrow>
     \<exists>n'. ns' = ns @ [(node_id n, n')] \<and> node_id n' = node_id n \<and> map_of ns (node_id n) = None"
  by (auto simp: add_node_def Let_def split: if_splits)

lemma add_nodes_keys:
  "add_nodes nodes ns = Inr ns' \<Longrightarrow> map fst ns' = map fst ns @ map node_id nodes"
proof (induction nodes arbitrary: ns)
  case (Cons n nodes)
  then show ?case by (fastforce dest: add_node_Inr)
qed simp

lemma add_nodes_wf:
  "add_nodes nodes ns = Inr ns' \<Longrightarrow> distinct (map fst ns) \<Longrightarrow> \<forall>(i, n) \<in> set ns. node_id n = i \<Longrightarrow>
     distinct (map fst ns') \<and> (\<forall>(i, n) \<in> set ns'. node_id n = i)"
proof (induction nodes arbitrary: ns)
  case (Cons n nodes)
  then obtain ns1 where ns1: "add_node n ns = Inr ns1" "add_nodes nodes ns1 = Inr ns'" by auto
  from add_node_Inr [OF ns1(1)] Cons.prems
  have "distinct (map fst ns1)" "\<forall>(i, n) \<in> set ns1. node_id n = i"
    by (auto simp: map_of_eq_None_iff)
  with Cons.IH [OF ns1(2)] show ?case by blast
qed simp

definition must_publish :: "'w node_map \<Rightarrow> 'w node \<Rightarrow> reference \<Rightarrow> bool" where
  "must_publish ns n r \<longleftrightarrow>
     ref_owner r \<noteq> [] \<and> ref_owner r \<noteq> node_id n
     \<and> (case map_of ns (ref_owner r) of
          None \<Rightarrow> True
        | Some publication \<Rightarrow> PublishArtifacts \<notin> set (effects publication)
            \<or> \<not> depends_on ns (ref_owner r) (node_id n))"

definition node_claims :: "'w node \<Rightarrow> (string \<times> node_id) list" where
  "node_claims n = map (\<lambda>r. (ref_path r, output_owner n r)) (filter (\<lambda>r. ref_path r \<noteq> []) (outputs n))"

definition compatible :: "(string \<times> node_id) set \<Rightarrow> bool" where
  "compatible E \<longleftrightarrow> (\<forall>p i q j. (p, i) \<in> E \<longrightarrow> (q, j) \<in> E \<longrightarrow> i \<noteq> j \<longrightarrow> \<not> paths_overlap p q)"

lemma paths_overlap_sym: "paths_overlap p q \<longleftrightarrow> paths_overlap q p"
  by (auto simp: paths_overlap_def)

lemma compatible_insert:
  "compatible (insert (p, i) E) \<longleftrightarrow>
     compatible E \<and> (\<forall>(q, j) \<in> E. j \<noteq> i \<longrightarrow> \<not> paths_overlap p q)"
  unfolding compatible_def using paths_overlap_sym by auto

lemma compatible_mono: "compatible F \<Longrightarrow> E \<subseteq> F \<Longrightarrow> compatible E"
  unfolding compatible_def by blast

lemma check_owners_Inr:
  "compatible (set owners) \<Longrightarrow>
     check_owners ns n rs owners = Inr ow \<longleftrightarrow>
       (\<forall>r \<in> set rs. ref_path r \<noteq> [] \<longrightarrow> \<not> must_publish ns n r) \<and> compatible (set ow)
       \<and> ow = rev (map (\<lambda>r. (ref_path r, output_owner n r)) (filter (\<lambda>r. ref_path r \<noteq> []) rs)) @ owners"
proof (induction rs arbitrary: owners)
  case Nil
  then show ?case by auto
next
  case (Cons r rs)
  let ?c = "(ref_path r, output_owner n r)"
  show ?case
  proof (cases "ref_path r = []")
    case True
    with Cons show ?thesis by simp
  next
    case False
    have step: "check_owners ns n (r # rs) owners = Inr ow \<longleftrightarrow>
        \<not> must_publish ns n r \<and> compatible (set (?c # owners))
        \<and> check_owners ns n rs (?c # owners) = Inr ow"
      using False Cons.prems by (auto simp: must_publish_def compatible_insert list_ex_iff)
    show ?thesis
    proof (cases "compatible (set (?c # owners))")
      case True
      from Cons.IH [OF True] True False show ?thesis unfolding step by auto
    next
      case not: False
      then have "\<not> compatible (set (rev (map (\<lambda>r. (ref_path r, output_owner n r))
          (filter (\<lambda>r. ref_path r \<noteq> []) (r # rs))) @ owners))"
        using False by (auto elim!: contrapos_nn elim: compatible_mono)
      with not show ?thesis unfolding step by blast
    qed
  qed
qed

lemma check_owners_claims:
  "compatible (set owners) \<Longrightarrow>
     (\<exists>ow. check_owners ns n (outputs n) owners = Inr ow \<and> Q ow) \<longleftrightarrow>
       (\<forall>r \<in> set (outputs n). ref_path r \<noteq> [] \<longrightarrow> \<not> must_publish ns n r)
       \<and> compatible (set (rev (node_claims n) @ owners)) \<and> Q (rev (node_claims n) @ owners)"
  unfolding node_claims_def by (subst check_owners_Inr) auto

definition node_ok :: "'w node_map \<Rightarrow> 'w node \<Rightarrow> bool" where
  "node_ok ns n \<longleftrightarrow>
     check_dependencies ns (dependencies n) = Inr () \<and> check_producers ns n (inputs n) = Inr ()
     \<and> (\<forall>r \<in> set (outputs n). ref_path r \<noteq> [] \<longrightarrow> \<not> must_publish ns n r)"

definition claims_of :: "'w node_map \<Rightarrow> node_id set \<Rightarrow> (string \<times> node_id) set" where
  "claims_of ns I = (\<Union>i \<in> I. case map_of ns i of None \<Rightarrow> {} | Some n \<Rightarrow> set (node_claims n))"

lemma validate_nodes_iff:
  "compatible (set owners) \<Longrightarrow>
     (\<exists>ow. validate_nodes ns is owners = Inr ow) \<longleftrightarrow>
       (\<forall>i \<in> set is. \<forall>n. map_of ns i = Some n \<longrightarrow> node_ok ns n)
       \<and> compatible (set owners \<union> claims_of ns (set is))"
proof (induction "is" arbitrary: owners)
  case Nil
  then show ?case by (simp add: claims_of_def)
next
  case (Cons i "is")
  show ?case
  proof (cases "map_of ns i")
    case None
    with Cons show ?thesis by (simp add: claims_of_def)
  next
    case (Some n)
    let ?o = "rev (node_claims n) @ owners"
    have "(\<exists>ow. validate_nodes ns (i # is) owners = Inr ow) \<longleftrightarrow>
        check_dependencies ns (dependencies n) = Inr () \<and> check_producers ns n (inputs n) = Inr ()
        \<and> (\<exists>ow'. check_owners ns n (outputs n) owners = Inr ow'
              \<and> (\<exists>ow. validate_nodes ns is ow' = Inr ow))"
      using Some by auto
    also have "\<dots> \<longleftrightarrow> node_ok ns n \<and> compatible (set ?o)
        \<and> (\<exists>ow. validate_nodes ns is ?o = Inr ow)"
      unfolding check_owners_claims [OF Cons.prems] by (auto simp: node_ok_def)
    also have "\<dots> \<longleftrightarrow> node_ok ns n \<and> compatible (set ?o)
        \<and> (\<forall>i \<in> set is. \<forall>n. map_of ns i = Some n \<longrightarrow> node_ok ns n)
        \<and> compatible (set ?o \<union> claims_of ns (set is))"
      using Cons.IH [of ?o] by blast
    also have "\<dots> \<longleftrightarrow> (\<forall>i \<in> set (i # is). \<forall>n. map_of ns i = Some n \<longrightarrow> node_ok ns n)
        \<and> compatible (set owners \<union> claims_of ns (set (i # is)))"
      using Some by (auto simp: claims_of_def Un_assoc Un_left_commute elim: compatible_mono)
    finally show ?thesis .
  qed
qed

lemma check_dependencies_iff [simp]:
  "check_dependencies ns ds = Inr () \<longleftrightarrow> set ds \<subseteq> fst ` set ns"
  by (induction ds) (auto simp: map_of_eq_None_iff)

definition validated :: "'w node_map \<Rightarrow> bool" where
  "validated ns \<longleftrightarrow>
     (\<forall>i n. map_of ns i = Some n \<longrightarrow> node_ok ns n) \<and> compatible (claims_of ns (fst ` set ns))"

lemma validate_nodes_validated:
  assumes "\<And>xs. set (iter xs) = set xs"
  shows "(\<exists>ow. validate_nodes ns (iter (map fst ns)) [] = Inr ow) \<longleftrightarrow> validated ns"
proof -
  have "(\<forall>i \<in> fst ` set ns. \<forall>n. map_of ns i = Some n \<longrightarrow> node_ok ns n) \<longleftrightarrow>
        (\<forall>i n. map_of ns i = Some n \<longrightarrow> node_ok ns n)"
    by (metis map_of_eq_None_iff option.distinct(1))
  then show ?thesis
    using assms by (subst validate_nodes_iff) (auto simp: validated_def compatible_def)
qed

lemma validated_deps:
  assumes "validated ns" shows "set (deps_of ns i) \<subseteq> fst ` set ns"
  using assms by (cases "map_of ns i") (auto simp: validated_def node_ok_def deps_of_def)

lemma new_plan_Inr_iff:
  assumes "\<And>xs. set (iter xs) = set xs"
  shows "new_plan iter nodes = Inr p \<longleftrightarrow>
    (\<exists>ns visited order. add_nodes nodes [] = Inr ns \<and> validated ns
       \<and> visit ns [] (sort (map fst ns)) ([], []) = Inr (visited, order)
       \<and> p = \<lparr>plan_nodes = ns, plan_order = order\<rparr>)"
  unfolding new_plan_def validate_nodes_validated [OF assms, symmetric] by auto

lemma visit_all:
  assumes "validated ns" "visit ns [] (sort (map fst ns)) ([], []) = Inr (visited, order)"
  shows "set order = fst ` set ns \<and> distinct order \<and> topological ns order"
proof -
  have "dfs_inv ns ([], [])" by (simp add: dfs_inv_def topological_def)
  with assms(2) have inv: "dfs_inv ns (visited, order)" by (rule visit_inv)
  have "set visited \<subseteq> fst ` set ns"
    using visit_within [OF assms(2), of "fst ` set ns"] validated_deps [OF assms(1)] by simp
  moreover have "fst ` set ns \<subseteq> set visited" using visit_mono [OF assms(2)] by simp
  ultimately show ?thesis using inv by (auto simp: dfs_inv_def)
qed

text \<open>What holds of every plan that \<open>New\<close> returns.\<close>

definition plan_ok :: "'w plan \<Rightarrow> bool" where
  "plan_ok p \<longleftrightarrow>
     validated (plan_nodes p) \<and> set (plan_order p) = fst ` set (plan_nodes p)
     \<and> distinct (plan_order p) \<and> topological (plan_nodes p) (plan_order p)
     \<and> (\<forall>(i, n) \<in> set (plan_nodes p). node_id n = i) \<and> distinct (map fst (plan_nodes p))"

lemma new_plan_ok:
  assumes "\<And>xs. set (iter xs) = set xs" "new_plan iter nodes = Inr p"
  shows "plan_ok p \<and> map fst (plan_nodes p) = map node_id nodes"
proof -
  from assms obtain ns visited order where ns: "add_nodes nodes [] = Inr ns" "validated ns"
    and v: "visit ns [] (sort (map fst ns)) ([], []) = Inr (visited, order)"
    and p: "p = \<lparr>plan_nodes = ns, plan_order = order\<rparr>" by (auto simp: new_plan_Inr_iff)
  from add_nodes_wf [OF ns(1)] add_nodes_keys [OF ns(1)] visit_all [OF ns(2) v] ns(2)
  show ?thesis unfolding p plan_ok_def by simp
qed

section \<open>Properties of plans\<close>

text \<open>
  C19. A plan that \<open>New\<close> accepts orders its nodes: every node of the request occurs exactly once in
  \<open>Order()\<close>, and every dependency of a node stands before the node.
\<close>

theorem new_plan_order:
  assumes "\<And>xs. set (iter xs) = set xs" "new_plan iter nodes = Inr p"
  shows "mset (plan_order p) = mset (map node_id nodes)
    \<and> (\<forall>k < length (plan_order p).
         set (deps_of (plan_nodes p) (plan_order p ! k)) \<subseteq> set (take k (plan_order p)))"
proof -
  have ok: "plan_ok p" and keys: "map fst (plan_nodes p) = map node_id nodes"
    using new_plan_ok [OF assms] by auto
  have "mset (plan_order p) = mset (map fst (plan_nodes p))"
    using ok by (intro set_eq_iff_mset_eq_distinct [THEN iffD1]) (auto simp: plan_ok_def)
  with ok keys show ?thesis by (simp add: plan_ok_def topological_def)
qed

text \<open>
  C39. Once the nodes pass the local checks, the only failure left is a cycle, it is reported exactly
  when the dependency relation has one, and the node the error names lies on it.
\<close>

theorem new_plan_cycle_exact:
  assumes "\<And>xs. set (iter xs) = set xs" "add_nodes nodes [] = Inr ns"
    "validate_nodes ns (iter (map fst ns)) [] = Inr ow"
  shows "case new_plan iter nodes of
      Inr p \<Rightarrow> plan_nodes p = ns \<and> acyclic (dep_rel ns)
    | Inl e \<Rightarrow> \<exists>i. e = LifecycleCycle i \<and> (i, i) \<in> (dep_rel ns)\<^sup>+"
proof (cases "visit ns [] (sort (map fst ns)) ([], [])")
  case (Inl e)
  with assms(2,3) have "new_plan iter nodes = Inl e" by (simp add: new_plan_def)
  with visit_cycle [OF Inl] show ?thesis by simp
next
  case (Inr st)
  then obtain visited order where st: "st = (visited, order)" by fastforce
  from Inr assms(2,3) have np: "new_plan iter nodes = Inr \<lparr>plan_nodes = ns, plan_order = order\<rparr>"
    by (simp add: new_plan_def st)
  have "validated ns" using validate_nodes_validated [OF assms(1)] assms(3) by blast
  from visit_all [OF this Inr [unfolded st]] have "acyclic (dep_rel ns)"
    by (intro topological_acyclic) auto
  with np show ?thesis by simp
qed

text \<open>
  Go iterates over the node map in an unspecified order. The order does not matter: two runs
  of \<open>New\<close> on the same nodes accept the same requests and return the same plan.
\<close>

theorem new_plan_iteration_independent:
  assumes "\<And>xs. set (iter xs) = set xs" "\<And>xs. set (iter' xs) = set xs"
  shows "new_plan iter nodes = Inr p \<longleftrightarrow> new_plan iter' nodes = Inr p"
  unfolding new_plan_Inr_iff [OF assms(1)] new_plan_Inr_iff [OF assms(2)] ..

text \<open>
  In an accepted plan two outputs whose paths overlap have the same owner, and an owner other
  than the producing node is a node of the plan that has the artifact publication capability and
  depends, directly or not, on the producer.
\<close>

theorem new_plan_output_owners:
  assumes "\<And>xs. set (iter xs) = set xs" "new_plan iter nodes = Inr p"
    and "(i, n) \<in> set (plan_nodes p)" "r \<in> set (outputs n)" "ref_path r \<noteq> []"
  shows "(\<forall>(j, m) \<in> set (plan_nodes p). \<forall>s \<in> set (outputs m).
            ref_path s \<noteq> [] \<longrightarrow> paths_overlap (ref_path r) (ref_path s) \<longrightarrow>
            output_owner n r = output_owner m s)
    \<and> (output_owner n r \<noteq> i \<longrightarrow>
         (\<exists>publication. map_of (plan_nodes p) (output_owner n r) = Some publication
            \<and> PublishArtifacts \<in> set (effects publication)
            \<and> (output_owner n r, i) \<in> (dep_rel (plan_nodes p))\<^sup>+))"
proof -
  let ?ns = "plan_nodes p"
  have ok: "plan_ok p" using new_plan_ok [OF assms(1,2)] by blast
  then have look: "(j, m) \<in> set ?ns \<Longrightarrow> map_of ?ns j = Some m" for j m
    by (simp add: plan_ok_def map_of_is_SomeI)
  have claim: "(ref_path s, output_owner m s) \<in> claims_of ?ns (fst ` set ?ns)"
    if "(j, m) \<in> set ?ns" "s \<in> set (outputs m)" "ref_path s \<noteq> []" for j m s
    using that look [OF that(1)] by (force simp: claims_of_def node_claims_def)
  have "compatible (claims_of ?ns (fst ` set ?ns))" using ok by (simp add: plan_ok_def validated_def)
  then have one: "\<forall>(j, m) \<in> set ?ns. \<forall>s \<in> set (outputs m). ref_path s \<noteq> [] \<longrightarrow>
      paths_overlap (ref_path r) (ref_path s) \<longrightarrow> output_owner n r = output_owner m s"
    using claim [OF assms(3-5)] claim unfolding compatible_def by blast
  have "\<not> must_publish ?ns n r" and [simp]: "node_id n = i"
    using ok assms(3-5) look [OF assms(3)] by (auto simp: plan_ok_def validated_def node_ok_def)
  then have "output_owner n r \<noteq> i \<longrightarrow> (\<exists>publication. map_of ?ns (output_owner n r) = Some publication
      \<and> PublishArtifacts \<in> set (effects publication) \<and> (output_owner n r, i) \<in> (dep_rel ?ns)\<^sup>+)"
    by (auto simp: must_publish_def output_owner_def depends_on_iff rtrancl_eq_or_trancl
        split: option.splits if_splits)
  with one show ?thesis by blast
qed

section \<open>Properties of runs\<close>

definition needed :: "'w node_map \<Rightarrow> node_id list \<Rightarrow> node_id set" where
  "needed ns targets = {i. \<exists>t \<in> set targets. (t, i) \<in> (dep_rel ns)\<^sup>*}"

lemma select_nodes_upper:
  "select_nodes ns is sel = Inr sel' \<Longrightarrow> set sel' \<subseteq> set sel \<union> needed ns is"
proof (induction ns "is" sel arbitrary: sel' rule: select_nodes.induct)
  case (2 ns i "is" sel)
  have dep: "needed ns (dependencies n) \<subseteq> needed ns (i # is)" if "map_of ns i = Some n" for n
    using that by (auto simp: needed_def dep_rel_def deps_of_def intro: converse_rtrancl_into_rtrancl)
  have rest: "needed ns is \<subseteq> needed ns (i # is)" "i \<in> needed ns (i # is)" by (auto simp: needed_def)
  show ?case
  proof (cases "map_of ns i")
    case None
    with "2.prems" show ?thesis by simp
  next
    case n: (Some n)
    show ?thesis
    proof (cases "i \<in> set sel")
      case True
      with n 2 rest(1) show ?thesis by fastforce
    next
      case False
      with n "2.prems" obtain s1 where s1: "select_nodes ns (dependencies n) (i # sel) = Inr s1"
        "select_nodes ns is s1 = Inr sel'" by (auto split: sum.splits)
      from "2.IH"(2) [OF n False s1(1)] "2.IH"(3) [OF n False s1] dep [OF n] rest
      show ?thesis by auto
    qed
  qed
qed simp

lemma select_nodes_lower:
  "select_nodes ns is sel = Inr sel' \<Longrightarrow>
     set sel \<union> set is \<subseteq> set sel' \<and> (\<forall>x \<in> set sel' - set sel. set (deps_of ns x) \<subseteq> set sel')"
proof (induction ns "is" sel arbitrary: sel' rule: select_nodes.induct)
  case (2 ns i "is" sel)
  show ?case
  proof (cases "map_of ns i")
    case None
    with "2.prems" show ?thesis by simp
  next
    case n: (Some n)
    show ?thesis
    proof (cases "i \<in> set sel")
      case True
      with n 2 show ?thesis by fastforce
    next
      case False
      with n "2.prems" obtain s1 where s1: "select_nodes ns (dependencies n) (i # sel) = Inr s1"
        "select_nodes ns is s1 = Inr sel'" by (auto split: sum.splits)
      have d: "deps_of ns i = dependencies n" using n by (simp add: deps_of_def)
      from "2.IH"(2) [OF n False s1(1)] have 1: "set (i # sel) \<union> set (deps_of ns i) \<subseteq> set s1"
        "\<forall>x \<in> set s1 - set (i # sel). set (deps_of ns x) \<subseteq> set s1" by (simp_all add: d)
      from "2.IH"(3) [OF n False s1] have 2: "set s1 \<union> set is \<subseteq> set sel'"
        "\<forall>x \<in> set sel' - set s1. set (deps_of ns x) \<subseteq> set sel'" by simp_all
      have "set (deps_of ns x) \<subseteq> set sel'" if "x \<in> set sel' - set sel" for x
        using that 1 2 by (cases "x \<in> set s1"; cases "x = i") auto
      with 1(1) 2(1) show ?thesis by auto
    qed
  qed
qed simp

lemma select_nodes_needed:
  assumes "select_nodes ns targets [] = Inr sel" shows "set sel = needed ns targets"
proof
  show "set sel \<subseteq> needed ns targets" using select_nodes_upper [OF assms] by simp
  have closed: "\<forall>c \<in> set sel. set (deps_of ns c) \<subseteq> set sel" and t: "set targets \<subseteq> set sel"
    using select_nodes_lower [OF assms] by auto
  show "needed ns targets \<subseteq> set sel"
  proof
    fix i assume "i \<in> needed ns targets"
    then obtain t where "t \<in> set targets" "(t, i) \<in> (dep_rel ns)\<^sup>*" by (auto simp: needed_def)
    with t closed show "i \<in> set sel" by (blast intro: closed_rtrancl [of t i])
  qed
qed

definition exec_nodes :: "'w node_map \<Rightarrow> node_id list \<Rightarrow> 'w \<Rightarrow> 'w" where
  "exec_nodes ns is w = fold (\<lambda>i w. fst (node_act ns i w)) is w"

lemma check_selected_None:
  "check_selected ns sel allowed is = None \<longleftrightarrow>
     (\<forall>i \<in> set is \<inter> set sel. \<exists>n. map_of ns i = Some n \<and> set (effects n) \<subseteq> set allowed \<and> node_action n \<noteq> None)"
proof (induction "is")
  case (Cons i "is")
  show ?case
  proof (cases "map_of ns i")
    case (Some n)
    have "find (\<lambda>e. e \<notin> set allowed) (effects n) = None \<longleftrightarrow> set (effects n) \<subseteq> set allowed"
      by (auto simp: find_None_iff)
    with Cons Some show ?thesis
      by (cases "find (\<lambda>e. e \<notin> set allowed) (effects n)"; cases "i \<in> set sel") simp_all
  qed (use Cons in auto)
qed simp

lemma run_selected_prefix:
  "run_selected ctx_err ns sel is w = (w', e) \<Longrightarrow>
     \<exists>done rest. filter (\<lambda>i. i \<in> set sel) is = done @ rest \<and> w' = exec_nodes ns done w
       \<and> (e = None \<longrightarrow> rest = []) \<and> (e = None \<or> (\<exists>m. e = Some (ContextErr m) \<or> e = Some (ActionErr m)))"
proof (induction "is" arbitrary: w)
  case Nil
  then show ?case by (simp add: exec_nodes_def)
next
  case (Cons i "is")
  consider "i \<notin> set sel" | m where "i \<in> set sel" "ctx_err w = Some m"
    | "i \<in> set sel" "ctx_err w = None" by (cases "ctx_err w") auto
  then show ?case
  proof cases
    case 1
    with Cons show ?thesis by simp
  next
    case (2 m)
    with Cons.prems show ?thesis by - (rule exI [of _ "[]"], auto simp: exec_nodes_def)
  next
    case True: 3
    obtain w1 e1 where act: "node_act ns i w = (w1, e1)" by fastforce
    show ?thesis
    proof (cases e1)
      case (Some m)
      with Cons.prems True act have "w' = exec_nodes ns [i] w" "e = Some (ActionErr m)"
        by (simp_all add: exec_nodes_def)
      with True show ?thesis by - (rule exI [of _ "[i]"], simp)
    next
      case None
      with Cons.prems True act have "run_selected ctx_err ns sel is w1 = (w', e)" by simp
      from Cons.IH [OF this] obtain ran rest where "filter (\<lambda>i. i \<in> set sel) is = ran @ rest"
        "w' = exec_nodes ns (i # ran) w" "e = None \<longrightarrow> rest = []"
        "e = None \<or> (\<exists>m. e = Some (ContextErr m) \<or> e = Some (ActionErr m))"
        using act by (auto simp: exec_nodes_def)
      with True show ?thesis by (intro exI [of _ "i # ran"] exI [of _ rest]) simp
    qed
  qed
qed

text \<open>
  C21. A run executes an initial part of the targets' dependency closure, each action once and in
  plan order, so after the actions it depends on. It executes the whole closure when it succeeds
  and nothing at all when it fails otherwise than in an action or by cancellation, in particular
  when some node of the closure, however late, has an effect that is not allowed.
\<close>

theorem run_plan_executes_allowed_closure:
  assumes "run_plan ctx_err p targets allowed w = (w', e)"
  shows "\<exists>done rest.
      filter (\<lambda>i. i \<in> needed (plan_nodes p) targets) (plan_order p) = done @ rest
    \<and> w' = exec_nodes (plan_nodes p) done w
    \<and> (e = None \<longrightarrow> rest = [])
    \<and> (e \<noteq> None \<and> (\<forall>m. e \<noteq> Some (ContextErr m) \<and> e \<noteq> Some (ActionErr m)) \<longrightarrow> done = [])
    \<and> (done \<noteq> [] \<longrightarrow> (\<forall>i \<in> set (done @ rest). \<exists>n. map_of (plan_nodes p) i = Some n
          \<and> set (effects n) \<subseteq> set allowed \<and> node_action n \<noteq> None))"
proof (cases "\<exists>sel. select_nodes (plan_nodes p) targets [] = Inr sel
      \<and> check_selected (plan_nodes p) sel allowed (plan_order p) = None")
  case True
  then obtain sel where sel: "select_nodes (plan_nodes p) targets [] = Inr sel"
    and chk: "check_selected (plan_nodes p) sel allowed (plan_order p) = None" by blast
  have run: "run_selected ctx_err (plan_nodes p) sel (plan_order p) w = (w', e)"
    using assms sel chk by (simp add: run_plan_def)
  from run_selected_prefix [OF run] obtain ran rest where
    fl: "filter (\<lambda>i. i \<in> set sel) (plan_order p) = ran @ rest" and w': "w' = exec_nodes (plan_nodes p) ran w"
    and e: "e = None \<longrightarrow> rest = []" "e = None \<or> (\<exists>m. e = Some (ContextErr m) \<or> e = Some (ActionErr m))"
    by blast
  have "set (ran @ rest) = set (plan_order p) \<inter> set sel" unfolding fl [symmetric] by auto
  with chk have "\<forall>i \<in> set (ran @ rest). \<exists>n. map_of (plan_nodes p) i = Some n
      \<and> set (effects n) \<subseteq> set allowed \<and> node_action n \<noteq> None"
    by (simp only: check_selected_None)
  then have "filter (\<lambda>i. i \<in> set sel) (plan_order p) = ran @ rest
      \<and> w' = exec_nodes (plan_nodes p) ran w \<and> (e = None \<longrightarrow> rest = [])
      \<and> (e \<noteq> None \<and> (\<forall>m. e \<noteq> Some (ContextErr m) \<and> e \<noteq> Some (ActionErr m)) \<longrightarrow> ran = [])
      \<and> (ran \<noteq> [] \<longrightarrow> (\<forall>i \<in> set (ran @ rest). \<exists>n. map_of (plan_nodes p) i = Some n
          \<and> set (effects n) \<subseteq> set allowed \<and> node_action n \<noteq> None))"
    using fl w' e by blast
  then show ?thesis unfolding select_nodes_needed [OF sel] by (intro exI)
next
  case False
  with assms have "w' = w" "e \<noteq> None"
    by (auto simp: run_plan_def split: sum.splits option.splits dest: sym)
  then show ?thesis by - (rule exI [of _ "[]"], auto simp: exec_nodes_def)
qed

section \<open>Examples\<close>

text \<open>
  A generator whose output is published by a second node, and a pair of nodes that depend on each
  other. The world is the log of the nodes that ran.
\<close>

definition log_node ::
  "node_id \<Rightarrow> node_id list \<Rightarrow> reference list \<Rightarrow> string \<Rightarrow> capability list \<Rightarrow> string list node" where
  "log_node i ds outs policy es =
     \<lparr>node_id = i, node_kind = ''step'', dependencies = ds, inputs = [], outputs = outs, identity = [],
      cache = policy, effects = es, node_action = Some (\<lambda>w. (w @ [i], None))\<rparr>"

definition bundle_ref :: reference where
  "bundle_ref = \<lparr>ref_name = ''bundle'', ref_kind = ''file'', ref_path = ''dist/bundle'', ref_digest = [],
     ref_producer = [], ref_ownership = Managed, ref_owner = ''publish''\<rparr>"

definition publish_nodes :: "string list node list" where
  "publish_nodes =
     [log_node ''publish'' [''generate''] [] ExternalEffect [PublishArtifacts],
      log_node ''generate'' [] [bundle_ref] Reusable [WriteCache, ReadSource]]"

definition cyclic_nodes :: "string list node list" where
  "cyclic_nodes = [log_node ''a'' [''b''] [] Reusable [], log_node ''b'' [''a''] [] Reusable []]"

lemma publish_plan:
  obtains p where "new_plan id publish_nodes = Inr p" "plan_order p = [''generate'', ''publish'']"
    "run_plan (\<lambda>_. None) p [''publish''] [ReadSource, WriteCache, PublishArtifacts] []
       = ([''generate'', ''publish''], None)"
    "map (\<lambda>(i, n). (i, outputs n)) (plan_nodes p) = [(''publish'', []), (''generate'', [bundle_ref])]"
proof -
  have "case new_plan id publish_nodes of
      Inr p \<Rightarrow> plan_order p = [''generate'', ''publish'']
        \<and> run_plan (\<lambda>_. None) p [''publish''] [ReadSource, WriteCache, PublishArtifacts] []
            = ([''generate'', ''publish''], None)
        \<and> map (\<lambda>(i, n). (i, outputs n)) (plan_nodes p) = [(''publish'', []), (''generate'', [bundle_ref])]
    | Inl e \<Rightarrow> False" by code_simp
  then show ?thesis using that by (auto split: sum.splits)
qed

theorem new_plan_order_witness:
  "\<exists>p. new_plan id publish_nodes = Inr p \<and> mset (plan_order p) = {#''generate'', ''publish''#}"
proof -
  obtain p where p: "new_plan id publish_nodes = Inr p" by (rule publish_plan)
  with new_plan_order [of id publish_nodes p] show ?thesis
    by (auto simp: publish_nodes_def log_node_def)
qed

theorem new_plan_cycle_exact_witness:
  "\<exists>ns i. add_nodes cyclic_nodes [] = Inr ns
     \<and> new_plan id cyclic_nodes = Inl (LifecycleCycle i) \<and> (i, i) \<in> (dep_rel ns)\<^sup>+"
proof -
  have "case add_nodes cyclic_nodes [] of
      Inr ns \<Rightarrow> (case validate_nodes ns (id (map fst ns)) [] of Inr ow \<Rightarrow> True | Inl e \<Rightarrow> False)
    | Inl e \<Rightarrow> False" by code_simp
  then obtain ns ow where ns: "add_nodes cyclic_nodes [] = Inr ns"
    and ow: "validate_nodes ns (id (map fst ns)) [] = Inr ow" by (auto split: sum.splits)
  have "case new_plan id cyclic_nodes of Inr p \<Rightarrow> False | Inl e \<Rightarrow> True" by code_simp
  with new_plan_cycle_exact [of id, OF _ ns ow] ns show ?thesis by (auto split: sum.splits)
qed

theorem new_plan_iteration_independent_witness:
  "\<exists>p. new_plan id publish_nodes = Inr p \<and> new_plan rev publish_nodes = Inr p"
proof -
  obtain p where "new_plan id publish_nodes = Inr p" by (rule publish_plan)
  with new_plan_iteration_independent [of id rev publish_nodes p] show ?thesis by auto
qed

theorem new_plan_output_owners_witness:
  "\<exists>p publication. new_plan id publish_nodes = Inr p \<and> map_of (plan_nodes p) ''publish'' = Some publication
     \<and> PublishArtifacts \<in> set (effects publication) \<and> (''publish'', ''generate'') \<in> (dep_rel (plan_nodes p))\<^sup>+"
proof -
  obtain p where p: "new_plan id publish_nodes = Inr p"
    and "map (\<lambda>(i, n). (i, outputs n)) (plan_nodes p) = [(''publish'', []), (''generate'', [bundle_ref])]"
    by (rule publish_plan)
  then obtain n where n: "(''generate'', n) \<in> set (plan_nodes p)" "outputs n = [bundle_ref]"
    by (auto simp: map_eq_Cons_conv)
  have "output_owner n bundle_ref = ''publish''" by (simp add: output_owner_def bundle_ref_def)
  with new_plan_output_owners [of id, OF _ p n(1), of bundle_ref] n p show ?thesis
    by (auto simp: bundle_ref_def)
qed

theorem run_plan_executes_allowed_closure_witness:
  "\<exists>p done. new_plan id publish_nodes = Inr p
     \<and> filter (\<lambda>i. i \<in> needed (plan_nodes p) [''publish'']) (plan_order p) = done
     \<and> [''generate'', ''publish''] = exec_nodes (plan_nodes p) done []"
proof -
  obtain p where p: "new_plan id publish_nodes = Inr p"
    and run: "run_plan (\<lambda>_. None) p [''publish''] [ReadSource, WriteCache, PublishArtifacts] []
       = ([''generate'', ''publish''], None)" by (rule publish_plan)
  from run_plan_executes_allowed_closure [OF run] p show ?thesis by auto
qed

end
