(* ===== verification/DurableStore.thy ===== *)
theory DurableStore
  imports Prelude Complex_Main
begin

text \<open>
  The durable job store (\<open>src/internal/durable/store\<close>): jobs, their event log, tasks, steps,
  signals, schedules and worker tokens in Postgres tables, and the operations a service, its
  workers and its callers perform on them.

  A table is the list of its rows, with the columns of \<open>schema.go\<close>. An operation runs its
  statements in one transaction: it yields an error, and then the tables are unchanged, or a result
  and the new tables. Times are microseconds, as Postgres keeps them; \<open>now\<close> is the time of the
  transaction. What the store leaves to Postgres is a parameter: the canonical text of a JSON value, the
  collation of text and the text of a timestamp, in \<open>pg_env\<close>, and the rows that other transactions hold locked.
  Binary floating point numbers are rationals, without their rounding. Values are assumed to fit
  the width of their columns; failures of the connection roll back and are not represented.
\<close>

section \<open>Tables\<close>

type_synonym timestamp = int
type_synonym blob = string

record pg_env =
  jsonb :: "string \<Rightarrow> string option"
  collate_le :: "string \<Rightarrow> string \<Rightarrow> bool"
  ts_text :: "timestamp \<Rightarrow> string"

datatype job_state = Queued | Running | Succeeded | Failed | Canceled

primrec state_name :: "job_state \<Rightarrow> string" where
  "state_name Queued = ''queued''"
| "state_name Running = ''running''"
| "state_name Succeeded = ''succeeded''"
| "state_name Failed = ''failed''"
| "state_name Canceled = ''canceled''"

record task_row =
  t_service :: string
  t_name :: string
  t_version :: int
  t_handler_ref :: string
  t_input_codec :: string
  t_result_codec :: string
  t_timeout_ms :: int
  t_lease_ms :: int
  t_max_attempts :: int
  t_max_concurrency :: int
  t_dedup_retention_ms :: int
  t_dedup_conflict :: string
  t_retry_initial_ms :: int
  t_retry_max_ms :: int
  t_retry_backoff :: rat
  t_retry_jitter :: rat
  t_success_retention_ms :: int
  t_failure_retention_ms :: int
  t_requirements :: string
  t_enabled :: bool
  t_created_at :: timestamp
  t_updated_at :: timestamp

record job_row =
  j_service :: string
  j_id :: string
  j_task :: string
  j_version :: int
  j_state :: job_state
  j_dedupe_key :: "string option"
  j_dedupe_expires_at :: "timestamp option"
  j_concurrency_key :: "string option"
  j_priority :: int
  j_run_after :: timestamp
  j_attempt :: int
  j_max_attempts :: int
  j_success_retention_ms :: int
  j_failure_retention_ms :: int
  j_timeout_at :: "timestamp option"
  j_lease_id :: "string option"
  j_lease_owner :: "string option"
  j_lease_token_hash :: "string option"
  j_lease_until :: "timestamp option"
  j_input_codec :: string
  j_input_blob :: blob
  j_result_codec :: "string option"
  j_result_blob :: "blob option"
  j_error_codec :: "string option"
  j_error_blob :: "blob option"
  j_requirements :: string
  j_labels :: string
  j_memo :: string
  j_created_by :: string
  j_created_at :: timestamp
  j_updated_at :: timestamp
  j_completed_at :: "timestamp option"

record event_row =
  e_seq :: nat
  e_service :: string
  e_job :: string
  e_attempt :: "int option"
  e_type :: string
  e_payload :: blob
  e_created_at :: timestamp

record step_row =
  s_service :: string
  s_job :: string
  s_key :: string
  s_state :: string
  s_idempotency_key :: string
  s_result_codec :: "string option"
  s_result_blob :: "blob option"
  s_error_codec :: "string option"
  s_error_blob :: "blob option"
  s_updated_at :: timestamp

record signal_row =
  g_service :: string
  g_job :: string
  g_name :: string
  g_dedupe_key :: string
  g_payload :: blob
  g_received_at :: timestamp

record schedule_row =
  c_service :: string
  c_id :: string
  c_task :: string
  c_enabled :: bool
  c_every_ms :: int
  c_next_fire_at :: "timestamp option"
  c_last_fire_at :: "timestamp option"
  c_input_blob :: blob
  c_updated_at :: timestamp

record token_row =
  k_service :: string
  k_id :: string
  k_name :: string
  k_hash :: string
  k_scopes :: string
  k_expires_at :: "timestamp option"
  k_disabled_at :: "timestamp option"
  k_last_used_at :: "timestamp option"

record notification =
  n_service :: string
  n_kind :: string
  n_task :: string
  n_job :: string

record durable_db =
  tasks :: "task_row list"
  jobs :: "job_row list"
  events :: "event_row list"
  next_seq :: nat
  steps :: "step_row list"
  signals :: "signal_row list"
  schedules :: "schedule_row list"
  tokens :: "token_row list"
  outbox :: "notification list"

datatype durable_error =
    JobIdRequired
  | TaskNameRequired
  | InputBlobRequired
  | WorkerIdRequired
  | LeaseIdRequired
  | InvalidJson
  | UniqueViolation
  | ForeignKeyViolation
  | CheckViolation
  | LoadJob string
  | CannotCancel string
  | CannotRetry string
  | LeaseDoesNotOwn string string
  | RowsAffected string nat
  | ConflictingRevisions string
  | MigrationRequired string nat int int
  | HandlerRefRequired string
  | UnsupportedConflictPolicy string string
  | StepRequired
  | SignalRequired
  | ScheduleRequired
  | IntervalNotPositive
  | TokenRequired

section \<open>Statements\<close>

definition job_key :: "job_row \<Rightarrow> string \<times> string" where
  "job_key j = (j_service j, j_id j)"

definition event_key :: "event_row \<Rightarrow> string \<times> string" where
  "event_key e = (e_service e, e_job e)"

definition task_key :: "task_row \<Rightarrow> string \<times> string" where
  "task_key t = (t_service t, t_name t)"

text \<open>\<open>UPDATE ... SET f WHERE P\<close> on one table, and the number of rows it affects.\<close>

definition sql_update :: "('r \<Rightarrow> bool) \<Rightarrow> ('r \<Rightarrow> 'r) \<Rightarrow> 'r list \<Rightarrow> 'r list" where
  "sql_update P f rows = map (\<lambda>r. if P r then f r else r) rows"

definition sql_count :: "('r \<Rightarrow> bool) \<Rightarrow> 'r list \<Rightarrow> nat" where
  "sql_count P rows = length (filter P rows)"

text \<open>\<open>INSERT INTO durable_job_events\<close>: the job has to exist.\<close>

definition insert_event ::
  "timestamp \<Rightarrow> string \<Rightarrow> string \<Rightarrow> int option \<Rightarrow> string \<Rightarrow> blob \<Rightarrow> durable_db \<Rightarrow> durable_error + durable_db"
  where
  "insert_event now svc job attempt typ payload db =
     (if (svc, job) \<notin> job_key ` set (jobs db) then Inl ForeignKeyViolation
      else Inr (db\<lparr>events := events db @
             [\<lparr>e_seq = next_seq db, e_service = svc, e_job = job, e_attempt = attempt, e_type = typ,
               e_payload = payload, e_created_at = now\<rparr>],
           next_seq := Suc (next_seq db)\<rparr>))"

definition notify_tx :: "string \<Rightarrow> string \<Rightarrow> string \<Rightarrow> string \<Rightarrow> durable_db \<Rightarrow> durable_db" where
  "notify_tx svc kind task job db =
     db\<lparr>outbox := outbox db @ [\<lparr>n_service = svc, n_kind = kind, n_task = task, n_job = job\<rparr>]\<rparr>"

text \<open>\<open>INSERT INTO durable_jobs\<close> with the primary key, the foreign key and the partial unique index.\<close>

definition insert_job :: "job_row \<Rightarrow> durable_db \<Rightarrow> durable_error + durable_db" where
  "insert_job j db =
     (if job_key j \<in> job_key ` set (jobs db) then Inl UniqueViolation
      else if j_dedupe_key j \<noteq> None
        \<and> list_ex (\<lambda>k. j_service k = j_service j \<and> j_task k = j_task j \<and> j_dedupe_key k = j_dedupe_key j)
            (jobs db)
      then Inl UniqueViolation
      else if (j_service j, j_task j) \<notin> task_key ` set (tasks db) then Inl ForeignKeyViolation
      else Inr (db\<lparr>jobs := jobs db @ [j]\<rparr>))"

text \<open>\<open>UPDATE durable_jobs\<close> that has to affect exactly one row.\<close>

definition update_one ::
  "(nat \<Rightarrow> durable_error) \<Rightarrow> (job_row \<Rightarrow> bool) \<Rightarrow> (job_row \<Rightarrow> job_row) \<Rightarrow> durable_db
     \<Rightarrow> durable_error + durable_db" where
  "update_one err P f db =
     (if sql_count P (jobs db) \<noteq> 1 then Inl (err (sql_count P (jobs db)))
      else Inr (db\<lparr>jobs := sql_update P f (jobs db)\<rparr>))"

definition ms :: "int \<Rightarrow> int" where
  "ms n = n * 1000"

definition clear_lease :: "job_row \<Rightarrow> job_row" where
  "clear_lease j =
     j\<lparr>j_lease_id := None, j_lease_owner := None, j_lease_token_hash := None, j_lease_until := None\<rparr>"

definition nullif_empty :: "string \<Rightarrow> string option" where
  "nullif_empty s = (if s = [] then None else Some s)"

definition opt_or :: "'a option \<Rightarrow> 'a \<Rightarrow> 'a" where
  "opt_or x d = (case x of None \<Rightarrow> d | Some v \<Rightarrow> v)"

section \<open>Starting jobs\<close>

record start_request =
  q_id :: string
  q_task :: string
  q_version :: int
  q_dedupe_key :: string
  q_concurrency_key :: string
  q_priority :: int
  q_input_codec :: string
  q_input_blob :: blob
  q_requirements :: string
  q_labels :: string
  q_memo :: string
  q_created_by :: string

record job_view =
  v_id :: string
  v_task :: string
  v_state :: job_state
  v_dedupe_key :: string

definition or_default :: "string \<Rightarrow> string \<Rightarrow> string" where
  "or_default s d = (if s = [] then d else s)"

definition normalize_start :: "start_request \<Rightarrow> start_request" where
  "normalize_start q =
     q\<lparr>q_id := trim_space (q_id q), q_task := trim_space (q_task q),
       q_dedupe_key := trim_space (q_dedupe_key q),
       q_concurrency_key := trim_space (q_concurrency_key q),
       q_version := (if q_version q = 0 then 1 else q_version q),
       q_input_codec := or_default (q_input_codec q) ''json'',
       q_requirements := or_default (q_requirements q) ''{}'',
       q_labels := or_default (q_labels q) ''{}'',
       q_memo := or_default (q_memo q) ''{}''\<rparr>"

definition find_task :: "string \<Rightarrow> string \<Rightarrow> durable_db \<Rightarrow> task_row option" where
  "find_task svc name db = find (\<lambda>t. t_service t = svc \<and> t_name t = name) (tasks db)"

definition find_task_version :: "string \<Rightarrow> string \<Rightarrow> int \<Rightarrow> durable_db \<Rightarrow> task_row option" where
  "find_task_version svc name ver db =
     find (\<lambda>t. t_service t = svc \<and> t_name t = name \<and> t_version t = ver) (tasks db)"

definition expire_dedupe ::
  "timestamp \<Rightarrow> string \<Rightarrow> string \<Rightarrow> string \<Rightarrow> durable_db \<Rightarrow> durable_db" where
  "expire_dedupe now svc task key db =
     db\<lparr>jobs := sql_update
          (\<lambda>j. j_service j = svc \<and> j_task j = task \<and> j_dedupe_key j = Some key
             \<and> (case j_dedupe_expires_at j of None \<Rightarrow> False | Some t \<Rightarrow> t \<le> now))
          (\<lambda>j. j\<lparr>j_dedupe_key := None, j_dedupe_expires_at := None, j_updated_at := now\<rparr>) (jobs db)\<rparr>"

definition job_by_dedupe_key ::
  "string \<Rightarrow> string \<Rightarrow> string \<Rightarrow> durable_db \<Rightarrow> job_view option" where
  "job_by_dedupe_key svc task key db =
     map_option (\<lambda>j. \<lparr>v_id = j_id j, v_task = j_task j, v_state = j_state j,
         v_dedupe_key = opt_or (j_dedupe_key j) []\<rparr>)
       (find (\<lambda>j. j_service j = svc \<and> j_task j = task \<and> j_dedupe_key j = Some key) (jobs db))"

definition new_job ::
  "timestamp \<Rightarrow> string \<Rightarrow> start_request \<Rightarrow> string \<Rightarrow> string \<Rightarrow> string \<Rightarrow> durable_db \<Rightarrow> job_row" where
  "new_job now svc q reqs labels memo db =
     \<lparr>j_service = svc, j_id = q_id q, j_task = q_task q, j_version = q_version q, j_state = Queued,
      j_dedupe_key = nullif_empty (q_dedupe_key q),
      j_dedupe_expires_at =
        (if q_dedupe_key q = [] then None
         else Some (now + ms (opt_or (map_option t_dedup_retention_ms
                (find_task_version svc (q_task q) (q_version q) db)) 604800000))),
      j_concurrency_key = nullif_empty (q_concurrency_key q),
      j_priority = q_priority q, j_run_after = now, j_attempt = 0,
      j_max_attempts = opt_or (map_option t_max_attempts (find_task svc (q_task q) db)) 1,
      j_success_retention_ms =
        opt_or (map_option t_success_retention_ms (find_task svc (q_task q) db)) 604800000,
      j_failure_retention_ms =
        opt_or (map_option t_failure_retention_ms (find_task svc (q_task q) db)) 2592000000,
      j_timeout_at = None, j_lease_id = None, j_lease_owner = None, j_lease_token_hash = None,
      j_lease_until = None, j_input_codec = q_input_codec q, j_input_blob = q_input_blob q,
      j_result_codec = None, j_result_blob = None, j_error_codec = None, j_error_blob = None,
      j_requirements = reqs, j_labels = labels, j_memo = memo, j_created_by = q_created_by q,
      j_created_at = now, j_updated_at = now, j_completed_at = None\<rparr>"

definition existing_job ::
  "string \<Rightarrow> start_request \<Rightarrow> durable_db \<Rightarrow> job_view option" where
  "existing_job svc q db =
     (if q_dedupe_key q = [] then None else job_by_dedupe_key svc (q_task q) (q_dedupe_key q) db)"

definition insert_started ::
  "pg_env \<Rightarrow> timestamp \<Rightarrow> string \<Rightarrow> start_request \<Rightarrow> durable_db
     \<Rightarrow> durable_error + job_view \<times> durable_db" where
  "insert_started env now svc q db =
     (case (jsonb env (q_requirements q), jsonb env (q_labels q), jsonb env (q_memo q)) of
        (Some reqs, Some labels, Some memo) \<Rightarrow>
          res_bind (insert_job (new_job now svc q reqs labels memo db) db) (\<lambda>db1.
          res_bind (insert_event now svc (q_id q) None ''job.created'' ''{}'' db1) (\<lambda>db2.
          Inr (\<lparr>v_id = q_id q, v_task = q_task q, v_state = Queued, v_dedupe_key = q_dedupe_key q\<rparr>,
               notify_tx svc ''queued'' (q_task q) [] db2)))
      | _ \<Rightarrow> Inl InvalidJson)"

definition start_job ::
  "pg_env \<Rightarrow> timestamp \<Rightarrow> string \<Rightarrow> start_request \<Rightarrow> durable_db
     \<Rightarrow> durable_error + job_view \<times> durable_db" where
  "start_job env now svc req db =
     (let q = normalize_start req in
      if q_id q = [] then Inl JobIdRequired
      else if q_task q = [] then Inl TaskNameRequired
      else if q_input_blob q = [] then Inl InputBlobRequired
      else
        let db1 = (if q_dedupe_key q = [] then db
                   else expire_dedupe now svc (q_task q) (q_dedupe_key q) db)
        in case existing_job svc q db1 of
             Some job \<Rightarrow> Inr (job, db1)
           | None \<Rightarrow> insert_started env now svc q db1)"

section \<open>Transitions of one job\<close>

definition find_job :: "string \<Rightarrow> string \<Rightarrow> durable_db \<Rightarrow> job_row option" where
  "find_job svc i db = find (\<lambda>j. job_key j = (svc, i)) (jobs db)"

text \<open>
  The transactions below share their shape: an update that has to affect one row, an event for the
  job and a notification.
\<close>

definition transition_tx ::
  "(nat \<Rightarrow> durable_error) \<Rightarrow> (job_row \<Rightarrow> bool) \<Rightarrow> (job_row \<Rightarrow> job_row) \<Rightarrow> timestamp \<Rightarrow> string \<Rightarrow> string
     \<Rightarrow> int \<Rightarrow> string \<Rightarrow> (durable_db \<Rightarrow> durable_db) \<Rightarrow> durable_db \<Rightarrow> durable_error + durable_db" where
  "transition_tx err P f now svc i attempt typ note db =
     res_bind (update_one err P f db) (\<lambda>db1.
     res_bind (insert_event now svc i (Some attempt) typ ''{}'' db1) (\<lambda>db2.
     Inr (note db2)))"

definition cancelable :: "string \<Rightarrow> string \<Rightarrow> job_row \<Rightarrow> bool" where
  "cancelable svc i k \<longleftrightarrow> job_key k = (svc, i) \<and> j_state k \<in> {Queued, Running, Failed}"

definition cancel_row :: "timestamp \<Rightarrow> job_row \<Rightarrow> job_row" where
  "cancel_row now k =
     (clear_lease k)\<lparr>j_state := Canceled, j_completed_at := Some now, j_updated_at := now\<rparr>"

definition cancel_job ::
  "timestamp \<Rightarrow> string \<Rightarrow> string \<Rightarrow> durable_db \<Rightarrow> durable_error + durable_db" where
  "cancel_job now svc job_id db =
     (let i = trim_space job_id in
      if i = [] then Inl JobIdRequired
      else case find_job svc i db of
        None \<Rightarrow> Inl (LoadJob i)
      | Some j \<Rightarrow>
          transition_tx (\<lambda>_. CannotCancel i) (cancelable svc i) (cancel_row now) now svc i (j_attempt j)
            ''job.canceled'' (notify_tx svc ''done'' (j_task j) i) db)"

definition retryable :: "string \<Rightarrow> string \<Rightarrow> job_row \<Rightarrow> bool" where
  "retryable svc i k \<longleftrightarrow> job_key k = (svc, i) \<and> j_state k \<in> {Failed, Canceled}"

definition retry_row :: "timestamp \<Rightarrow> job_row \<Rightarrow> job_row" where
  "retry_row now k =
     (clear_lease k)\<lparr>j_state := Queued, j_run_after := now,
       j_max_attempts := (if j_max_attempts k \<le> j_attempt k then j_attempt k + 1 else j_max_attempts k),
       j_error_codec := None, j_error_blob := None, j_completed_at := None, j_updated_at := now\<rparr>"

definition retry_job ::
  "timestamp \<Rightarrow> string \<Rightarrow> string \<Rightarrow> durable_db \<Rightarrow> durable_error + durable_db" where
  "retry_job now svc job_id db =
     (let i = trim_space job_id in
      if i = [] then Inl JobIdRequired
      else case find_job svc i db of
        None \<Rightarrow> Inl (LoadJob i)
      | Some j \<Rightarrow>
          transition_tx (\<lambda>_. CannotRetry i) (retryable svc i) (retry_row now) now svc i (j_attempt j)
            ''job.retry_requested'' (notify_tx svc ''queued'' (j_task j) []) db)"

text \<open>\<open>PurgeExpiredJobs\<close>; deleting a job deletes its events, steps and signals.\<close>

definition purgeable :: "timestamp \<Rightarrow> string \<Rightarrow> job_row \<Rightarrow> bool" where
  "purgeable now svc j \<longleftrightarrow>
     j_service j = svc \<and>
     (case j_completed_at j of
        None \<Rightarrow> False
      | Some t \<Rightarrow>
          (j_state j = Succeeded \<and> j_success_retention_ms j > 0 \<and> t \<le> now - ms (j_success_retention_ms j))
        \<or> (j_state j \<in> {Failed, Canceled} \<and> j_failure_retention_ms j > 0
             \<and> t \<le> now - ms (j_failure_retention_ms j)))"

definition purge_expired_jobs :: "timestamp \<Rightarrow> string \<Rightarrow> durable_db \<Rightarrow> nat \<times> durable_db" where
  "purge_expired_jobs now svc db =
     (let gone = map job_key (filter (purgeable now svc) (jobs db)) in
      (length gone,
       db\<lparr>jobs := filter (\<lambda>j. \<not> purgeable now svc j) (jobs db),
          events := filter (\<lambda>e. event_key e \<notin> set gone) (events db),
          steps := filter (\<lambda>r. (s_service r, s_job r) \<notin> set gone) (steps db),
          signals := filter (\<lambda>g. (g_service g, g_job g) \<notin> set gone) (signals db)\<rparr>))"

text \<open>
  \<open>finishJob\<close> and \<open>failOrRetryJob\<close>. An empty worker stands for a caller that holds no lease;
  otherwise the worker and the lease have to be those of the running job.
\<close>

definition holds_lease :: "string \<Rightarrow> string \<Rightarrow> job_row \<Rightarrow> bool" where
  "holds_lease worker lease j \<longleftrightarrow>
     worker = [] \<or> (j_lease_owner j = Some worker \<and> j_lease_id j = Some lease)"

definition running_held :: "string \<Rightarrow> string \<Rightarrow> string \<Rightarrow> string \<Rightarrow> job_row \<Rightarrow> bool" where
  "running_held svc i worker lease j \<longleftrightarrow>
     job_key j = (svc, i) \<and> j_state j = Running \<and> holds_lease worker lease j"

definition finish_row ::
  "timestamp \<Rightarrow> job_state \<Rightarrow> string \<Rightarrow> blob option \<Rightarrow> blob option \<Rightarrow> job_row \<Rightarrow> job_row" where
  "finish_row now state result_codec result_blob error_blob k =
     (clear_lease k)\<lparr>j_state := state, j_result_codec := nullif_empty result_codec,
       j_result_blob := result_blob,
       j_error_codec := (if error_blob = None then None else Some ''text''),
       j_error_blob := error_blob, j_completed_at := Some now, j_updated_at := now\<rparr>"

definition finish_job ::
  "timestamp \<Rightarrow> string \<Rightarrow> string \<Rightarrow> string \<Rightarrow> string \<Rightarrow> job_state \<Rightarrow> string \<Rightarrow> blob option \<Rightarrow> blob option
     \<Rightarrow> durable_db \<Rightarrow> durable_error + durable_db" where
  "finish_job now svc job_id worker_id lease_id state result_codec result_blob error_blob db =
     (let i = trim_space job_id; worker = trim_space worker_id; lease = trim_space lease_id in
      if i = [] then Inl JobIdRequired
      else case find (running_held svc i worker lease) (jobs db) of
        None \<Rightarrow> Inl (LoadJob i)
      | Some j \<Rightarrow>
          transition_tx (\<lambda>_. LeaseDoesNotOwn lease i) (running_held svc i worker lease)
            (finish_row now state result_codec result_blob error_blob) now svc i (j_attempt j)
            (''job.'' @ state_name state) (notify_tx svc ''done'' (j_task j) i) db)"

definition complete_job ::
  "timestamp \<Rightarrow> string \<Rightarrow> string \<Rightarrow> blob option \<Rightarrow> durable_db \<Rightarrow> durable_error + durable_db" where
  "complete_job now svc job_id result db =
     finish_job now svc job_id [] [] Succeeded ''json'' result None db"

definition complete_leased_job ::
  "timestamp \<Rightarrow> string \<Rightarrow> string \<Rightarrow> string \<Rightarrow> string \<Rightarrow> blob option \<Rightarrow> durable_db \<Rightarrow> durable_error + durable_db"
  where
  "complete_leased_job now svc job_id worker_id lease_id result db =
     finish_job now svc job_id worker_id lease_id Succeeded ''json'' result None db"

text \<open>\<open>retryDelaySeconds\<close>, in seconds.\<close>

definition retry_delay_seconds :: "int \<Rightarrow> int \<Rightarrow> int \<Rightarrow> rat \<Rightarrow> rat" where
  "retry_delay_seconds attempt initial_ms max_ms backoff =
     (let initial = (if initial_ms \<le> 0 then 1000 else initial_ms);
          limit = (if max_ms \<le> 0 then 60000 else max_ms);
          factor = (if backoff \<le> 0 then 2 else backoff);
          delay = of_int initial * factor ^ nat (max 0 (attempt - 1))
      in (if delay > of_int limit then of_int limit else delay) / 1000)"

definition requeue_failed :: "timestamp \<Rightarrow> blob option \<Rightarrow> rat \<Rightarrow> job_row \<Rightarrow> job_row" where
  "requeue_failed now error_blob delay k =
     (clear_lease k)\<lparr>j_state := Queued, j_run_after := now + round (delay * 1000000),
       j_error_codec := Some ''text'', j_error_blob := error_blob, j_updated_at := now\<rparr>"

definition mark_failed :: "timestamp \<Rightarrow> blob option \<Rightarrow> job_row \<Rightarrow> job_row" where
  "mark_failed now error_blob k =
     (clear_lease k)\<lparr>j_state := Failed, j_error_codec := Some ''text'', j_error_blob := error_blob,
       j_completed_at := Some now, j_updated_at := now\<rparr>"

definition fail_or_retry_job ::
  "timestamp \<Rightarrow> string \<Rightarrow> string \<Rightarrow> string \<Rightarrow> string \<Rightarrow> blob option \<Rightarrow> durable_db \<Rightarrow> durable_error + durable_db"
  where
  "fail_or_retry_job now svc job_id worker_id lease_id error_blob db =
     (let i = trim_space job_id; worker = trim_space worker_id; lease = trim_space lease_id in
      if i = [] then Inl JobIdRequired
      else case find (running_held svc i worker lease) (jobs db) of
        None \<Rightarrow> Inl (LoadJob i)
      | Some j \<Rightarrow>
          case find_task svc (j_task j) db of
            None \<Rightarrow> Inl (LoadJob i)
          | Some t \<Rightarrow>
              if j_attempt j < j_max_attempts j
              then
                transition_tx (RowsAffected i) (running_held svc i worker lease)
                  (requeue_failed now error_blob (retry_delay_seconds (j_attempt j)
                     (t_retry_initial_ms t) (t_retry_max_ms t) (t_retry_backoff t))) now svc i (j_attempt j)
                  ''job.retry_scheduled'' (notify_tx svc ''requeued'' (j_task j) i) db
              else
                transition_tx (RowsAffected i) (running_held svc i worker lease)
                  (mark_failed now error_blob) now svc i (j_attempt j)
                  ''job.failed'' (notify_tx svc ''done'' (j_task j) i) db)"

definition fail_job ::
  "timestamp \<Rightarrow> string \<Rightarrow> string \<Rightarrow> blob option \<Rightarrow> durable_db \<Rightarrow> durable_error + durable_db" where
  "fail_job now svc job_id error_blob db = fail_or_retry_job now svc job_id [] [] error_blob db"

definition fail_leased_job ::
  "timestamp \<Rightarrow> string \<Rightarrow> string \<Rightarrow> string \<Rightarrow> string \<Rightarrow> blob option \<Rightarrow> durable_db \<Rightarrow> durable_error + durable_db"
  where
  "fail_leased_job now svc job_id worker_id lease_id error_blob db =
     fail_or_retry_job now svc job_id worker_id lease_id error_blob db"

definition heartbeat_job ::
  "timestamp \<Rightarrow> string \<Rightarrow> string \<Rightarrow> string \<Rightarrow> string \<Rightarrow> durable_db \<Rightarrow> durable_error + durable_db" where
  "heartbeat_job now svc job_id worker_id lease_id db =
     (let i = trim_space job_id; worker = trim_space worker_id; lease = trim_space lease_id in
      if i = [] \<or> worker = [] \<or> lease = [] then Inl LeaseIdRequired
      else
        update_one (\<lambda>_. LeaseDoesNotOwn lease i)
          (\<lambda>j. job_key j = (svc, i) \<and> j_state j = Running
             \<and> j_lease_owner j = Some worker \<and> j_lease_id j = Some lease)
          (\<lambda>j. let until = now + ms (case find_task_version svc (j_task j) (j_version j) db of
                      None \<Rightarrow> 60000
                    | Some t \<Rightarrow> if t_lease_ms t > 0 then t_lease_ms t else 60000)
               in j\<lparr>j_lease_until := Some (case j_timeout_at j of None \<Rightarrow> until | Some t \<Rightarrow> min t until),
                    j_updated_at := now\<rparr>) db)"

section \<open>Leasing\<close>

text \<open>\<open>recoverExpiredJobs\<close>: running jobs whose lease or timeout has passed are requeued or failed.\<close>

definition passed :: "timestamp \<Rightarrow> timestamp option \<Rightarrow> bool" where
  "passed now t = (case t of None \<Rightarrow> False | Some u \<Rightarrow> u \<le> now)"

definition expired :: "timestamp \<Rightarrow> string \<Rightarrow> string \<Rightarrow> job_row \<Rightarrow> bool" where
  "expired now svc task j \<longleftrightarrow>
     j_service j = svc \<and> j_task j = task \<and> j_state j = Running
     \<and> (passed now (j_lease_until j) \<or> passed now (j_timeout_at j))"

definition recover_row :: "timestamp \<Rightarrow> job_row \<Rightarrow> job_row" where
  "recover_row now j =
     (clear_lease j)\<lparr>
       j_state := (if j_attempt j < j_max_attempts j then Queued else Failed),
       j_run_after := (if j_attempt j < j_max_attempts j then now else j_run_after j),
       j_error_codec := Some ''text'', j_error_blob := Some ''durable lease or timeout expired'',
       j_timeout_at := None,
       j_completed_at := (if j_attempt j < j_max_attempts j then None else Some now),
       j_updated_at := now\<rparr>"

fun append_recovered ::
  "timestamp \<Rightarrow> string \<Rightarrow> job_row list \<Rightarrow> durable_db \<Rightarrow> durable_error + durable_db" where
  "append_recovered now svc [] db = Inr db"
| "append_recovered now svc (j # js) db =
     res_bind (insert_event now svc (j_id j) (Some (j_attempt j))
         (if j_state j = Failed then ''job.failed'' else ''job.lease_expired'') ''{}'' db)
       (append_recovered now svc js)"

definition recover_expired_jobs ::
  "timestamp \<Rightarrow> string \<Rightarrow> string \<Rightarrow> durable_db \<Rightarrow> durable_error + durable_db" where
  "recover_expired_jobs now svc task db =
     append_recovered now svc (map (recover_row now) (filter (expired now svc task) (jobs db)))
       (db\<lparr>jobs := sql_update (expired now svc task) (recover_row now) (jobs db)\<rparr>)"

text \<open>
  The ready jobs of a task: queued, due, with an enabled task of the same revision and fewer running
  jobs of the same concurrency key than the task allows. \<open>locked\<close> are the rows that another
  transaction holds and \<open>SKIP LOCKED\<close> leaves out.
\<close>

definition same_group :: "job_row \<Rightarrow> job_row \<Rightarrow> bool" where
  "same_group j r \<longleftrightarrow>
     j_service r = j_service j \<and> j_task r = j_task j
     \<and> opt_or (j_concurrency_key r) [] = opt_or (j_concurrency_key j) []"

definition running_in_group :: "durable_db \<Rightarrow> job_row \<Rightarrow> nat" where
  "running_in_group db j = sql_count (\<lambda>r. same_group j r \<and> j_state r = Running) (jobs db)"

definition ready :: "timestamp \<Rightarrow> string \<Rightarrow> string \<Rightarrow> durable_db \<Rightarrow> job_row \<Rightarrow> task_row \<Rightarrow> bool" where
  "ready now svc task db j t \<longleftrightarrow>
     t_service t = j_service j \<and> t_name t = j_task j \<and> t_version t = j_version j
     \<and> j_service j = svc \<and> j_task j = task \<and> j_state j = Queued \<and> j_run_after j \<le> now \<and> t_enabled t
     \<and> (t_max_concurrency t \<le> 0 \<or> int (running_in_group db j) < t_max_concurrency t)"

definition lease_before :: "pg_env \<Rightarrow> job_row \<Rightarrow> job_row \<Rightarrow> bool" where
  "lease_before env j k \<longleftrightarrow>
     j_priority j > j_priority k
     \<or> (j_priority j = j_priority k
         \<and> (j_created_at j < j_created_at k
             \<or> (j_created_at j = j_created_at k \<and> collate_le env (j_id j) (j_id k))))"

fun pick_first :: "('a \<Rightarrow> 'a \<Rightarrow> bool) \<Rightarrow> 'a list \<Rightarrow> 'a option" where
  "pick_first before [] = None"
| "pick_first before (x # xs) =
     (case pick_first before xs of
        None \<Rightarrow> Some x
      | Some y \<Rightarrow> if before x y then Some x else Some y)"

definition select_ready ::
  "pg_env \<Rightarrow> (job_row \<Rightarrow> task_row \<Rightarrow> bool) \<Rightarrow> timestamp \<Rightarrow> string \<Rightarrow> string \<Rightarrow> durable_db
     \<Rightarrow> (job_row \<times> task_row) option" where
  "select_ready env locked now svc task db =
     pick_first (\<lambda>x y. lease_before env (fst x) (fst y))
       (filter (\<lambda>(j, t). ready now svc task db j t \<and> \<not> locked j t) (List.product (jobs db) (tasks db)))"

record leased_job =
  l_id :: string
  l_task :: string
  l_attempt :: int
  l_lease_id :: string
  l_lease_ms :: int
  l_timeout_ms :: int
  l_input_codec :: string
  l_input_blob :: blob
  l_memo :: string

datatype lease_result = Leased leased_job | Idle int

text \<open>\<open>nextTaskWakeDelay\<close> and \<open>taskWakeDelay\<close>, in nanoseconds.\<close>

definition wake_time :: "timestamp \<Rightarrow> job_row \<Rightarrow> timestamp option" where
  "wake_time now j =
     (if j_state j = Queued \<and> j_run_after j > now then Some (j_run_after j)
      else if j_state j = Running
      then (case (j_lease_until j, j_timeout_at j) of
              (None, t) \<Rightarrow> t
            | (Some u, None) \<Rightarrow> Some u
            | (Some u, Some t) \<Rightarrow> Some (min u t))
      else None)"

definition task_wake_delay :: "rat \<Rightarrow> int" where
  "task_wake_delay seconds = \<lfloor>min (max seconds (1 / 100)) 10 * 1000000000\<rfloor>"

definition next_task_wake_delay :: "timestamp \<Rightarrow> string \<Rightarrow> string \<Rightarrow> durable_db \<Rightarrow> int" where
  "next_task_wake_delay now svc task db =
     (let times = List.map_filter (wake_time now)
            (filter (\<lambda>j. j_service j = svc \<and> j_task j = task \<and> j_state j \<in> {Queued, Running}) (jobs db))
      in task_wake_delay (case pick_first (\<le>) times of
           None \<Rightarrow> 10
         | Some t \<Rightarrow> of_int (t - now) / 1000000))"

definition positive_or :: "int \<Rightarrow> int \<Rightarrow> int" where
  "positive_or n d = (if n > 0 then n else d)"

definition mark_running ::
  "timestamp \<Rightarrow> string \<Rightarrow> string \<Rightarrow> string \<Rightarrow> job_row \<Rightarrow> task_row \<Rightarrow> job_row \<Rightarrow> job_row" where
  "mark_running now worker lease token j t k =
     k\<lparr>j_state := Running, j_attempt := j_attempt j + 1, j_lease_id := Some lease,
       j_lease_owner := Some worker, j_lease_token_hash := Some (trim_space token),
       j_lease_until := Some (now + ms (positive_or (t_lease_ms t) 60000)),
       j_timeout_at := Some (now + ms (positive_or (t_timeout_ms t) 60000)),
       j_updated_at := now\<rparr>"

definition take_lease ::
  "timestamp \<Rightarrow> string \<Rightarrow> string \<Rightarrow> string \<Rightarrow> string \<Rightarrow> job_row \<Rightarrow> task_row \<Rightarrow> durable_db
     \<Rightarrow> durable_error + lease_result \<times> durable_db" where
  "take_lease now svc worker lease token j t db =
     res_bind (transition_tx (RowsAffected (j_id j)) (\<lambda>k. job_key k = (svc, j_id j) \<and> j_state k = Queued)
       (mark_running now worker lease token j t) now svc (j_id j) (j_attempt j + 1) ''job.leased'' id db)
     (\<lambda>db1. Inr (Leased \<lparr>l_id = j_id j, l_task = j_task j, l_attempt = j_attempt j + 1, l_lease_id = lease,
          l_lease_ms = positive_or (t_lease_ms t) 60000,
          l_timeout_ms = positive_or (t_timeout_ms t) 60000,
          l_input_codec = j_input_codec j, l_input_blob = j_input_blob j, l_memo = j_memo j\<rparr>, db1))"

definition lease_ready_job_with_token ::
  "pg_env \<Rightarrow> (job_row \<Rightarrow> task_row \<Rightarrow> bool) \<Rightarrow> timestamp \<Rightarrow> string \<Rightarrow> string \<Rightarrow> string \<Rightarrow> string \<Rightarrow> string
     \<Rightarrow> durable_db \<Rightarrow> durable_error + lease_result \<times> durable_db" where
  "lease_ready_job_with_token env locked now svc worker_id lease_id task_name token db =
     (let worker = trim_space worker_id; lease = trim_space lease_id; task = trim_space task_name in
      if worker = [] then Inl WorkerIdRequired
      else if lease = [] then Inl LeaseIdRequired
      else if task = [] then Inl TaskNameRequired
      else res_bind (recover_expired_jobs now svc task db) (\<lambda>db1.
        case select_ready env locked now svc task db1 of
          None \<Rightarrow> Inr (Idle (next_task_wake_delay now svc task db1), db1)
        | Some (j, t) \<Rightarrow> take_lease now svc worker lease token j t db1))"

definition lease_ready_job ::
  "pg_env \<Rightarrow> (job_row \<Rightarrow> task_row \<Rightarrow> bool) \<Rightarrow> timestamp \<Rightarrow> string \<Rightarrow> string \<Rightarrow> string \<Rightarrow> string
     \<Rightarrow> durable_db \<Rightarrow> durable_error + lease_result \<times> durable_db" where
  "lease_ready_job env locked now svc worker_id lease_id task_name db =
     lease_ready_job_with_token env locked now svc worker_id lease_id task_name [] db"

section \<open>Tasks\<close>

record task_declaration =
  d_name :: string
  d_version :: int
  d_handler_ref :: string
  d_input_codec :: string
  d_result_codec :: string
  d_timeout_ms :: int
  d_lease_ms :: int
  d_max_attempts :: int
  d_retry_initial_ms :: int
  d_retry_max_ms :: int
  d_retry_backoff :: rat
  d_retry_jitter :: rat
  d_success_retention_ms :: int
  d_failure_retention_ms :: int
  d_max_concurrency :: int
  d_dedup_retention_ms :: int
  d_dedup_conflict :: string
  d_requirements :: string

definition nonzero_or :: "'a::zero \<Rightarrow> 'a \<Rightarrow> 'a" where
  "nonzero_or n d = (if n = 0 then d else n)"

definition normalize_task :: "task_declaration \<Rightarrow> task_declaration" where
  "normalize_task d =
     (let success = nonzero_or (d_success_retention_ms d) (7 * 24 * 3600000) in
      d\<lparr>d_name := trim_space (d_name d), d_handler_ref := trim_space (d_handler_ref d),
        d_version := nonzero_or (d_version d) 1,
        d_input_codec := or_default (d_input_codec d) ''json'',
        d_result_codec := or_default (d_result_codec d) ''json'',
        d_timeout_ms := nonzero_or (d_timeout_ms d) 60000,
        d_lease_ms := nonzero_or (d_lease_ms d) 60000,
        d_max_attempts := nonzero_or (d_max_attempts d) 1,
        d_retry_initial_ms := nonzero_or (d_retry_initial_ms d) 1000,
        d_retry_max_ms := nonzero_or (d_retry_max_ms d) 60000,
        d_retry_backoff := nonzero_or (d_retry_backoff d) 2,
        d_retry_jitter := nonzero_or (d_retry_jitter d) (1 / 10),
        d_success_retention_ms := success,
        d_failure_retention_ms := nonzero_or (d_failure_retention_ms d) (30 * 24 * 3600000),
        d_dedup_retention_ms := nonzero_or (d_dedup_retention_ms d) success,
        d_dedup_conflict := or_default (d_dedup_conflict d) ''return_existing'',
        d_requirements := or_default (d_requirements d) ''{}''\<rparr>)"

fun declare_tasks ::
  "task_declaration list \<Rightarrow> (string \<times> int) list \<Rightarrow> durable_error + (string \<times> int) list" where
  "declare_tasks [] declared = Inr declared"
| "declare_tasks (d # ds) declared =
     (let n = normalize_task d in
      if d_name n = [] then Inl TaskNameRequired
      else if (case map_of declared (d_name n) of None \<Rightarrow> False | Some v \<Rightarrow> v \<noteq> d_version n)
      then Inl (ConflictingRevisions (d_name n))
      else declare_tasks ds ((d_name n, d_version n) # declared))"

definition active_jobs :: "string \<Rightarrow> durable_db \<Rightarrow> job_row list" where
  "active_jobs svc db = filter (\<lambda>j. j_service j = svc \<and> j_state j \<in> {Queued, Running}) (jobs db)"

definition active_revisions :: "string \<Rightarrow> durable_db \<Rightarrow> (string \<times> int \<times> nat) list" where
  "active_revisions svc db =
     (let rs = map (\<lambda>j. (j_task j, j_version j)) (active_jobs svc db) in
      map (\<lambda>(name, ver). (name, ver, count_list rs (name, ver))) (remdups rs))"

fun check_revisions ::
  "(string \<times> int) list \<Rightarrow> (string \<times> int \<times> nat) list \<Rightarrow> durable_error + unit" where
  "check_revisions declared [] = Inr ()"
| "check_revisions declared ((name, ver, count) # rs) =
     (case map_of declared name of
        None \<Rightarrow> Inl (MigrationRequired name count ver 0)
      | Some wanted \<Rightarrow>
          if wanted \<noteq> ver then Inl (MigrationRequired name count ver wanted)
          else check_revisions declared rs)"

definition task_of_declaration ::
  "timestamp \<Rightarrow> string \<Rightarrow> task_declaration \<Rightarrow> string \<Rightarrow> timestamp \<Rightarrow> task_row" where
  "task_of_declaration now svc d reqs created =
     \<lparr>t_service = svc, t_name = d_name d, t_version = d_version d, t_handler_ref = d_handler_ref d,
      t_input_codec = d_input_codec d, t_result_codec = d_result_codec d,
      t_timeout_ms = d_timeout_ms d, t_lease_ms = d_lease_ms d, t_max_attempts = d_max_attempts d,
      t_max_concurrency = d_max_concurrency d, t_dedup_retention_ms = d_dedup_retention_ms d,
      t_dedup_conflict = d_dedup_conflict d, t_retry_initial_ms = d_retry_initial_ms d,
      t_retry_max_ms = d_retry_max_ms d, t_retry_backoff = d_retry_backoff d,
      t_retry_jitter = d_retry_jitter d, t_success_retention_ms = d_success_retention_ms d,
      t_failure_retention_ms = d_failure_retention_ms d, t_requirements = reqs, t_enabled = True,
      t_created_at = created, t_updated_at = now\<rparr>"

definition upsert_task ::
  "timestamp \<Rightarrow> string \<Rightarrow> task_declaration \<Rightarrow> string \<Rightarrow> task_row list \<Rightarrow> task_row list" where
  "upsert_task now svc d reqs ts =
     (if (svc, d_name d) \<in> task_key ` set ts
      then sql_update (\<lambda>t. task_key t = (svc, d_name d))
             (\<lambda>t. task_of_declaration now svc d reqs (t_created_at t)) ts
      else ts @ [task_of_declaration now svc d reqs now])"

fun upsert_tasks ::
  "pg_env \<Rightarrow> timestamp \<Rightarrow> string \<Rightarrow> task_declaration list \<Rightarrow> task_row list \<Rightarrow> durable_error + task_row list"
  where
  "upsert_tasks env now svc [] ts = Inr ts"
| "upsert_tasks env now svc (d # ds) ts =
     (let n = normalize_task d in
      if d_name n = [] then Inl TaskNameRequired
      else if d_handler_ref n = [] then Inl (HandlerRefRequired (d_name n))
      else if d_dedup_conflict n \<noteq> ''return_existing''
      then Inl (UnsupportedConflictPolicy (d_name n) (d_dedup_conflict n))
      else case jsonb env (d_requirements n) of
        None \<Rightarrow> Inl InvalidJson
      | Some reqs \<Rightarrow> upsert_tasks env now svc ds (upsert_task now svc n reqs ts))"

definition reconcile_tasks ::
  "pg_env \<Rightarrow> timestamp \<Rightarrow> string \<Rightarrow> task_declaration list \<Rightarrow> durable_db \<Rightarrow> durable_error + durable_db" where
  "reconcile_tasks env now svc ds db =
     res_bind (declare_tasks ds []) (\<lambda>declared.
     res_bind (check_revisions declared (active_revisions svc db)) (\<lambda>_.
     res_bind (upsert_tasks env now svc ds
       (sql_update (\<lambda>t. t_service t = svc) (\<lambda>t. t\<lparr>t_enabled := False, t_updated_at := now\<rparr>) (tasks db)))
     (\<lambda>ts. Inr (db\<lparr>tasks := ts\<rparr>))))"

section \<open>Reading jobs\<close>

record job_detail =
  w_id :: string
  w_task :: string
  w_state :: string
  w_dedupe_key :: string
  w_attempt :: int
  w_max_attempts :: int
  w_created_at :: string
  w_updated_at :: string
  w_completed_at :: string
  w_result_codec :: string
  w_result_blob :: "blob option"
  w_error_codec :: string
  w_error_blob :: "blob option"

definition job_detail_of :: "pg_env \<Rightarrow> job_row \<Rightarrow> job_detail" where
  "job_detail_of env j =
     \<lparr>w_id = j_id j, w_task = j_task j, w_state = state_name (j_state j),
      w_dedupe_key = opt_or (j_dedupe_key j) [], w_attempt = j_attempt j, w_max_attempts = j_max_attempts j,
      w_created_at = ts_text env (j_created_at j), w_updated_at = ts_text env (j_updated_at j),
      w_completed_at = opt_or (map_option (ts_text env) (j_completed_at j)) [],
      w_result_codec = opt_or (j_result_codec j) [], w_result_blob = j_result_blob j,
      w_error_codec = opt_or (j_error_codec j) [], w_error_blob = j_error_blob j\<rparr>"

definition get_job :: "pg_env \<Rightarrow> string \<Rightarrow> string \<Rightarrow> durable_db \<Rightarrow> durable_error + job_detail option" where
  "get_job env svc job_id db =
     (let i = trim_space job_id in
      if i = [] then Inl JobIdRequired
      else Inr (map_option (job_detail_of env) (find_job svc i db)))"

definition newer_first :: "pg_env \<Rightarrow> job_row \<Rightarrow> job_row \<Rightarrow> bool" where
  "newer_first env j k \<longleftrightarrow>
     j_created_at j > j_created_at k
     \<or> (j_created_at j = j_created_at k \<and> collate_le env (j_id k) (j_id j))"

definition list_jobs :: "pg_env \<Rightarrow> string \<Rightarrow> int \<Rightarrow> durable_db \<Rightarrow> job_detail list" where
  "list_jobs env svc limit db =
     map (job_detail_of env)
       (take (nat (if limit \<le> 0 \<or> limit > 500 then 100 else limit))
         (sort_by (newer_first env) (filter (\<lambda>j. j_service j = svc) (jobs db))))"

section \<open>Events, steps and signals\<close>

definition job_events :: "string \<Rightarrow> string \<Rightarrow> durable_db \<Rightarrow> durable_error + event_row list" where
  "job_events svc job_id db =
     (let i = trim_space job_id in
      if i = [] then Inl JobIdRequired
      else Inr (sort_key e_seq (filter (\<lambda>e. event_key e = (svc, i)) (events db))))"

definition get_step ::
  "string \<Rightarrow> string \<Rightarrow> string \<Rightarrow> durable_db \<Rightarrow> durable_error + step_row option" where
  "get_step svc job_id key db =
     (let i = trim_space job_id; k = trim_space key in
      if i = [] \<or> k = [] then Inl StepRequired
      else Inr (find (\<lambda>r. s_service r = svc \<and> s_job r = i \<and> s_key r = k) (steps db)))"

definition save_step ::
  "timestamp \<Rightarrow> string \<Rightarrow> string \<Rightarrow> string \<Rightarrow> string \<Rightarrow> string \<Rightarrow> blob option \<Rightarrow> blob option
     \<Rightarrow> durable_db \<Rightarrow> durable_error + durable_db" where
  "save_step now svc job_id key state_text result_codec result_blob error_blob db =
     (let i = trim_space job_id; k = trim_space key; st = trim_space state_text;
          codec = or_default result_codec ''json'';
          row = \<lparr>s_service = svc, s_job = i, s_key = k, s_state = st,
                 s_idempotency_key = i @ '':'' @ k, s_result_codec = nullif_empty codec,
                 s_result_blob = result_blob,
                 s_error_codec = (if error_blob = None then None else Some ''text''),
                 s_error_blob = error_blob, s_updated_at = now\<rparr>;
          hit = (\<lambda>r. s_service r = svc \<and> s_job r = i \<and> s_key r = k)
      in if i = [] \<or> k = [] \<or> st = [] then Inl StepRequired
         else if st \<notin> {''started'', ''succeeded'', ''failed'', ''skipped''} then Inl CheckViolation
         else if (svc, i) \<notin> job_key ` set (jobs db) then Inl ForeignKeyViolation
         else if list_ex hit (steps db)
         then Inr (db\<lparr>steps := sql_update hit
                (\<lambda>r. row\<lparr>s_idempotency_key := s_idempotency_key r\<rparr>) (steps db)\<rparr>)
         else Inr (db\<lparr>steps := steps db @ [row]\<rparr>))"

definition signal_job ::
  "timestamp \<Rightarrow> string \<Rightarrow> string \<Rightarrow> string \<Rightarrow> string \<Rightarrow> blob \<Rightarrow> durable_db \<Rightarrow> durable_error + durable_db"
  where
  "signal_job now svc job_id name dedupe_key payload db =
     (let i = trim_space job_id; n = trim_space name;
          key = (if trim_space dedupe_key = [] then n else trim_space dedupe_key);
          body = or_default payload ''{}'';
          hit = (\<lambda>g. g_service g = svc \<and> g_job g = i \<and> g_name g = n \<and> g_dedupe_key g = key);
          row = \<lparr>g_service = svc, g_job = i, g_name = n, g_dedupe_key = key, g_payload = body,
                 g_received_at = now\<rparr>
      in if i = [] \<or> n = [] then Inl SignalRequired
         else if list_ex hit (signals db)
         then insert_event now svc i None ''job.signaled'' body db
         else if (svc, i) \<notin> job_key ` set (jobs db) then Inl ForeignKeyViolation
         else insert_event now svc i None ''job.signaled'' body (db\<lparr>signals := signals db @ [row]\<rparr>))"

section \<open>Schedules\<close>

definition upsert_schedule ::
  "timestamp \<Rightarrow> string \<Rightarrow> string \<Rightarrow> string \<Rightarrow> int \<Rightarrow> blob \<Rightarrow> durable_db \<Rightarrow> durable_error + durable_db" where
  "upsert_schedule now svc schedule_id task_name every_ns input db =
     (let i = trim_space schedule_id; task = trim_space task_name; body = or_default input ''{}'';
          every = every_ns div 1000000; hit = (\<lambda>c. c_service c = svc \<and> c_id c = i)
      in if i = [] \<or> task = [] then Inl ScheduleRequired
         else if every_ns \<le> 0 then Inl IntervalNotPositive
         else if (svc, task) \<notin> task_key ` set (tasks db) then Inl ForeignKeyViolation
         else if list_ex hit (schedules db)
         then Inr (db\<lparr>schedules := sql_update hit
                (\<lambda>c. c\<lparr>c_task := task, c_every_ms := every, c_input_blob := body, c_enabled := True,
                       c_updated_at := now\<rparr>) (schedules db)\<rparr>)
         else Inr (db\<lparr>schedules := schedules db @
                [\<lparr>c_service = svc, c_id = i, c_task = task, c_enabled = True, c_every_ms = every,
                  c_next_fire_at = Some now, c_last_fire_at = None, c_input_blob = body,
                  c_updated_at = now\<rparr>]\<rparr>))"

text \<open>
  \<open>RunDueSchedules\<close> is not one transaction: every job is started and every schedule is advanced in a
  transaction of its own. \<open>clock k\<close> is the time of the \<open>k\<close>-th of them and \<open>stamp\<close> the digits of
  \<open>now.UnixNano()\<close>; the result is the jobs started, the error that ended the run and the tables.
\<close>

definition schedule_before :: "pg_env \<Rightarrow> schedule_row \<Rightarrow> schedule_row \<Rightarrow> bool" where
  "schedule_before env a b \<longleftrightarrow>
     the (c_next_fire_at a) < the (c_next_fire_at b)
     \<or> (c_next_fire_at a = c_next_fire_at b \<and> collate_le env (c_id a) (c_id b))"

definition due_schedules :: "pg_env \<Rightarrow> timestamp \<Rightarrow> string \<Rightarrow> durable_db \<Rightarrow> schedule_row list" where
  "due_schedules env now svc db =
     take 50 (sort_by (schedule_before env)
       (filter (\<lambda>c. c_service c = svc \<and> c_enabled c \<and> passed now (c_next_fire_at c)) (schedules db)))"

definition schedule_request :: "string \<Rightarrow> schedule_row \<Rightarrow> start_request" where
  "schedule_request stamp c =
     \<lparr>q_id = ''sched_'' @ c_id c @ ''_'' @ stamp, q_task = c_task c, q_version = 0, q_dedupe_key = [],
      q_concurrency_key = [], q_priority = 0, q_input_codec = [], q_input_blob = c_input_blob c,
      q_requirements = [], q_labels = [], q_memo = [], q_created_by = ''schedule:'' @ c_id c\<rparr>"

definition advance_schedule :: "timestamp \<Rightarrow> string \<Rightarrow> schedule_row \<Rightarrow> durable_db \<Rightarrow> durable_db" where
  "advance_schedule now svc c db =
     db\<lparr>schedules := sql_update (\<lambda>d. c_service d = svc \<and> c_id d = c_id c)
          (\<lambda>d. d\<lparr>c_last_fire_at := Some now, c_next_fire_at := Some (now + ms (c_every_ms c)),
                 c_updated_at := now\<rparr>) (schedules db)\<rparr>"

fun fire_schedules ::
  "pg_env \<Rightarrow> (nat \<Rightarrow> timestamp) \<Rightarrow> nat \<Rightarrow> string \<Rightarrow> string \<Rightarrow> schedule_row list \<Rightarrow> durable_db
     \<Rightarrow> job_view list \<times> durable_error option \<times> durable_db" where
  "fire_schedules env clock k svc stamp [] db = ([], None, db)"
| "fire_schedules env clock k svc stamp (c # cs) db =
     (case start_job env (clock k) svc (schedule_request stamp c) db of
        Inl e \<Rightarrow> ([], Some e, db)
      | Inr (job, db1) \<Rightarrow>
          case fire_schedules env clock (k + 2) svc stamp cs (advance_schedule (clock (k + 1)) svc c db1) of
            (js, r) \<Rightarrow> (job # js, r))"

definition run_due_schedules ::
  "pg_env \<Rightarrow> (nat \<Rightarrow> timestamp) \<Rightarrow> string \<Rightarrow> string \<Rightarrow> durable_db
     \<Rightarrow> job_view list \<times> durable_error option \<times> durable_db" where
  "run_due_schedules env clock svc stamp db =
     fire_schedules env clock 1 svc stamp (due_schedules env (clock 0) svc db) db"

section \<open>Worker tokens\<close>

text \<open>
  \<open>token_hash\<close> is \<open>WorkerTokenHash\<close>: the SHA-256 digest of a fixed prefix and the trimmed secret,
  in hexadecimal; \<open>sha256_hex\<close> is the digest function.
\<close>

definition token_hash :: "(string \<Rightarrow> string) \<Rightarrow> string \<Rightarrow> string" where
  "token_hash sha256_hex secret =
     sha256_hex (''scenery durable worker token'' @ [CHR 0x00] @ trim_space secret)"

definition create_worker_token ::
  "pg_env \<Rightarrow> (string \<Rightarrow> string) \<Rightarrow> string \<Rightarrow> string \<Rightarrow> string \<Rightarrow> string \<Rightarrow> string \<Rightarrow> timestamp option
     \<Rightarrow> durable_db \<Rightarrow> durable_error + durable_db" where
  "create_worker_token env sha256_hex svc token_id name secret scopes expires db =
     (let i = trim_space token_id; n = trim_space name; s = trim_space secret;
          sc = or_default (trim_space scopes) ''{}'';
          hit = (\<lambda>k. k_service k = svc \<and> k_id k = i)
      in if i = [] \<or> n = [] \<or> s = [] then Inl TokenRequired
         else case jsonb env sc of
           None \<Rightarrow> Inl InvalidJson
         | Some scopes_json \<Rightarrow>
             if list_ex hit (tokens db)
             then Inr (db\<lparr>tokens := sql_update hit
                    (\<lambda>k. k\<lparr>k_name := n, k_hash := token_hash sha256_hex s, k_scopes := scopes_json,
                           k_expires_at := expires, k_disabled_at := None\<rparr>) (tokens db)\<rparr>)
             else Inr (db\<lparr>tokens := tokens db @
                    [\<lparr>k_service = svc, k_id = i, k_name = n, k_hash = token_hash sha256_hex s,
                      k_scopes = scopes_json, k_expires_at = expires, k_disabled_at = None,
                      k_last_used_at = None\<rparr>]\<rparr>))"

definition authenticate_worker_token ::
  "(string \<Rightarrow> string) \<Rightarrow> timestamp \<Rightarrow> string \<Rightarrow> string \<Rightarrow> durable_db \<Rightarrow> token_row option \<times> durable_db" where
  "authenticate_worker_token sha256_hex now svc secret db =
     (let s = trim_space secret in
      if s = [] then (None, db)
      else case find (\<lambda>k. k_service k = svc \<and> k_hash k = token_hash sha256_hex s \<and> k_disabled_at k = None
               \<and> (case k_expires_at k of None \<Rightarrow> True | Some t \<Rightarrow> t > now)) (tokens db) of
        None \<Rightarrow> (None, db)
      | Some k \<Rightarrow>
          (Some k, db\<lparr>tokens := sql_update (\<lambda>r. k_service r = svc \<and> k_id r = k_id k)
                    (\<lambda>r. r\<lparr>k_last_used_at := Some now\<rparr>) (tokens db)\<rparr>))"

end
