(* ===== verification/DurableJobs.thy ===== *)
theory DurableJobs
  imports DurableStore
begin

text \<open>
  Histories of the durable store. \<open>exec_op\<close> runs one operation of \<open>DurableStore\<close> as a transaction and
  \<open>durable_step\<close> is one operation, successful or not, of any service, worker or caller; a history is a
  \<open>trace\<close> of such steps. These histories are serial: each transaction runs on the tables the previous
  one left. Postgres gives this for a transaction at the level \<open>READ COMMITTED\<close>, which the code uses, as far
  as it decides on rows it updates or locks itself, since it evaluates the condition of an update
  again on a row that changed. The lease also decides on a count of rows it does not lock;
  \<open>DurableLocks\<close> therefore models lease transactions statement by statement. The invariant \<open>durable_inv\<close> of the reachable databases says what the
  rows of a job may look like in each state and that the event log of a job determines its state
  and its number of attempts.
\<close>

section \<open>Operations and histories\<close>

datatype durable_op =
    OpStart string start_request
  | OpCancel string string
  | OpRetry string string
  | OpPurge string
  | OpLease "job_row \<Rightarrow> task_row \<Rightarrow> bool" string string string string string
  | OpComplete string string string string "blob option"
  | OpFail string string string string "blob option"
  | OpHeartbeat string string string string
  | OpReconcile string "task_declaration list"
  | OpSaveStep string string string string string "blob option" "blob option"
  | OpSignal string string string string blob
  | OpUpsertSchedule string string string int blob
  | OpAdvanceSchedule string schedule_row
  | OpCreateToken "string \<Rightarrow> string" string string string string string "timestamp option"
  | OpAuthenticate "string \<Rightarrow> string" string string

fun exec_op :: "pg_env \<Rightarrow> timestamp \<Rightarrow> durable_op \<Rightarrow> durable_db \<Rightarrow> durable_error + durable_db" where
  "exec_op env now (OpStart svc q) db = map_sum id snd (start_job env now svc q db)"
| "exec_op env now (OpCancel svc i) db = cancel_job now svc i db"
| "exec_op env now (OpRetry svc i) db = retry_job now svc i db"
| "exec_op env now (OpPurge svc) db = Inr (snd (purge_expired_jobs now svc db))"
| "exec_op env now (OpLease locked svc worker lease task token) db =
     map_sum id snd (lease_ready_job_with_token env locked now svc worker lease task token db)"
| "exec_op env now (OpComplete svc i worker lease result) db =
     complete_leased_job now svc i worker lease result db"
| "exec_op env now (OpFail svc i worker lease err) db = fail_leased_job now svc i worker lease err db"
| "exec_op env now (OpHeartbeat svc i worker lease) db = heartbeat_job now svc i worker lease db"
| "exec_op env now (OpReconcile svc ds) db = reconcile_tasks env now svc ds db"
| "exec_op env now (OpSaveStep svc i key st codec res err) db = save_step now svc i key st codec res err db"
| "exec_op env now (OpSignal svc i name key payload) db = signal_job now svc i name key payload db"
| "exec_op env now (OpUpsertSchedule svc i task every input) db =
     upsert_schedule now svc i task every input db"
| "exec_op env now (OpAdvanceSchedule svc c) db = Inr (advance_schedule now svc c db)"
| "exec_op env now (OpCreateToken h svc i name secret scopes expires) db =
     create_worker_token env h svc i name secret scopes expires db"
| "exec_op env now (OpAuthenticate h svc secret) db =
     Inr (snd (authenticate_worker_token h now svc secret db))"

text \<open>
  A declared task has a number of attempts that is not negative; zero stands for the default. An
  operation that fails leaves the database as it is.
\<close>

definition op_declares_attempts :: "durable_op \<Rightarrow> bool" where
  "op_declares_attempts op =
     (case op of OpReconcile svc ds \<Rightarrow> list_all (\<lambda>d. 0 \<le> d_max_attempts d) ds | _ \<Rightarrow> True)"

inductive durable_step :: "pg_env \<Rightarrow> durable_op \<Rightarrow> durable_db \<Rightarrow> durable_db \<Rightarrow> bool" for env where
  committed: "exec_op env now op db = Inr db' \<Longrightarrow> durable_step env op db db'"
| rolled_back: "exec_op env now op db = Inl e \<Longrightarrow> durable_step env op db db"

section \<open>The invariant\<close>

definition job_ok :: "job_row \<Rightarrow> bool" where
  "job_ok j \<longleftrightarrow>
     0 \<le> j_attempt j
   \<and> (j_state j = Queued \<longrightarrow> j_attempt j < j_max_attempts j)
   \<and> (j_state j = Running \<longrightarrow> j_attempt j \<le> j_max_attempts j \<and> j_timeout_at j \<noteq> None)
   \<and> (j_lease_id j \<noteq> None \<longleftrightarrow> j_state j = Running)
   \<and> (j_lease_owner j \<noteq> None \<longleftrightarrow> j_state j = Running)
   \<and> (j_lease_until j \<noteq> None \<longleftrightarrow> j_state j = Running)
   \<and> (j_completed_at j = None \<longleftrightarrow> j_state j \<in> {Queued, Running})"

definition replay_step :: "string \<Rightarrow> job_state option \<Rightarrow> job_state option" where
  "replay_step typ st =
     (if typ \<in> {''job.created'', ''job.lease_expired'', ''job.retry_scheduled'', ''job.retry_requested''}
      then Some Queued
      else if typ = ''job.leased'' then Some Running
      else if typ = ''job.succeeded'' then Some Succeeded
      else if typ = ''job.failed'' then Some Failed
      else if typ = ''job.canceled'' then Some Canceled
      else st)"

definition history :: "durable_db \<Rightarrow> string \<times> string \<Rightarrow> string list" where
  "history db k = map e_type (filter (\<lambda>e. event_key e = k) (events db))"

definition replay :: "string list \<Rightarrow> job_state option" where
  "replay h = fold replay_step h None"

definition log_ok :: "durable_db \<Rightarrow> job_row \<Rightarrow> bool" where
  "log_ok db j \<longleftrightarrow>
     replay (history db (job_key j)) = Some (j_state j)
   \<and> int (count_list (history db (job_key j)) ''job.leased'') = j_attempt j"

definition unique_dedupe :: "job_row list \<Rightarrow> bool" where
  "unique_dedupe rows \<longleftrightarrow>
     (\<forall>a \<in> set rows. \<forall>b \<in> set rows. j_dedupe_key a \<noteq> None \<longrightarrow> j_service a = j_service b
        \<longrightarrow> j_task a = j_task b \<longrightarrow> j_dedupe_key a = j_dedupe_key b \<longrightarrow> job_key a = job_key b)"

definition durable_inv :: "durable_db \<Rightarrow> bool" where
  "durable_inv db \<longleftrightarrow>
     distinct (map job_key (jobs db))
   \<and> (\<forall>e \<in> set (events db). event_key e \<in> job_key ` set (jobs db))
   \<and> (\<forall>j \<in> set (jobs db). job_ok j \<and> log_ok db j \<and> (j_service j, j_task j) \<in> task_key ` set (tasks db))
   \<and> (\<forall>t \<in> set (tasks db). 1 \<le> t_max_attempts t)
   \<and> unique_dedupe (jobs db)"

lemma durable_invI:
  assumes "distinct (map job_key (jobs db))" "event_key ` set (events db) \<subseteq> job_key ` set (jobs db)"
    "\<And>j. j \<in> set (jobs db) \<Longrightarrow> job_ok j \<and> log_ok db j \<and> (j_service j, j_task j) \<in> task_key ` set (tasks db)"
    "\<And>t. t \<in> set (tasks db) \<Longrightarrow> 1 \<le> t_max_attempts t" "unique_dedupe (jobs db)"
  shows "durable_inv db"
  using assms by (simp add: durable_inv_def image_subset_iff)

lemma durable_invD:
  assumes "durable_inv db"
  shows "distinct (map job_key (jobs db))" "event_key ` set (events db) \<subseteq> job_key ` set (jobs db)"
    "\<And>j. j \<in> set (jobs db) \<Longrightarrow> job_ok j \<and> log_ok db j \<and> (j_service j, j_task j) \<in> task_key ` set (tasks db)"
    "\<And>t. t \<in> set (tasks db) \<Longrightarrow> 1 \<le> t_max_attempts t" "unique_dedupe (jobs db)"
  using assms by (simp_all add: durable_inv_def image_subset_iff)

section \<open>Updates of rows\<close>

lemma sql_update_image:
  "(\<And>r. g (f r) = g r) \<Longrightarrow> map g (sql_update P f rows) = map g rows"
  by (simp add: sql_update_def)

lemma set_sql_update: "set (sql_update P f rows) = f ` {r \<in> set rows. P r} \<union> {r \<in> set rows. \<not> P r}"
  by (auto simp: sql_update_def)

lemma sql_count_one:
  assumes "sql_count P rows = 1"
  obtains r where "r \<in> set rows" "P r" "\<And>r'. r' \<in> set rows \<Longrightarrow> P r' \<Longrightarrow> r' = r"
proof -
  from assms obtain r where "filter P rows = [r]"
    by (auto simp: sql_count_def length_Suc_conv)
  then have "set (filter P rows) = {r}" by simp
  then have "r' \<in> set rows \<and> P r' \<longleftrightarrow> r' = r" for r' by auto
  with that show ?thesis by blast
qed

definition keeps_identity :: "(job_row \<Rightarrow> job_row) \<Rightarrow> bool" where
  "keeps_identity f \<longleftrightarrow>
     (\<forall>j. job_key (f j) = job_key j \<and> j_service (f j) = j_service j \<and> j_task (f j) = j_task j
        \<and> j_dedupe_key (f j) = j_dedupe_key j)"

lemma unique_dedupe_update:
  assumes "unique_dedupe rows" "keeps_identity f"
  shows "unique_dedupe (sql_update P f rows)"
proof -
  let ?g = "\<lambda>r. if P r then f r else r"
  have g: "job_key (?g r) = job_key r" "j_service (?g r) = j_service r" "j_task (?g r) = j_task r"
      "j_dedupe_key (?g r) = j_dedupe_key r" for r
    using assms(2) by (simp_all add: keeps_identity_def)
  show ?thesis
    using assms(1) unfolding unique_dedupe_def sql_update_def set_map ball_simps(9) g by blast
qed

lemma unique_dedupe_mono: "unique_dedupe rows \<Longrightarrow> set rows' \<subseteq> set rows \<Longrightarrow> unique_dedupe rows'"
  unfolding unique_dedupe_def by blast

lemma unique_dedupe_append:
  assumes "unique_dedupe rows" "\<And>k. k \<in> set rows \<Longrightarrow> j_dedupe_key j \<noteq> None \<Longrightarrow>
      \<not> (j_service k = j_service j \<and> j_task k = j_task j \<and> j_dedupe_key k = j_dedupe_key j)"
  shows "unique_dedupe (rows @ [j])"
proof (unfold unique_dedupe_def, intro ballI impI)
  fix a b assume ab: "a \<in> set (rows @ [j])" "b \<in> set (rows @ [j])" "j_dedupe_key a \<noteq> None"
    "j_service a = j_service b" "j_task a = j_task b" "j_dedupe_key a = j_dedupe_key b"
  then consider "a \<in> set rows" "b \<in> set rows" | "a = j" "b = j" | "a = j" "b \<in> set rows"
    | "a \<in> set rows" "b = j" by auto
  then show "job_key a = job_key b"
  proof cases
    case 1
    with assms(1) ab(3-6) show ?thesis unfolding unique_dedupe_def by blast
  next
    case 3
    with assms(2) [of b] ab(3-6) show ?thesis by simp
  next
    case 4
    with assms(2) [of a] ab(3-6) show ?thesis by simp
  qed simp
qed

lemma durable_inv_key:
  assumes "durable_inv db" "a \<in> set (jobs db)" "b \<in> set (jobs db)" "job_key a = job_key b"
  shows "a = b"
  using assms by (auto simp: durable_inv_def distinct_map dest: inj_onD)

lemma history_cong: "events db = events db' \<Longrightarrow> history db = history db'"
  by (simp add: history_def fun_eq_iff)

lemma replay_snoc [simp]: "replay (h @ [typ]) = replay_step typ (replay h)"
  by (simp add: replay_def)

definition valid_move :: "string \<Rightarrow> (job_row \<Rightarrow> job_row) \<Rightarrow> job_row \<Rightarrow> bool" where
  "valid_move typ f j \<longleftrightarrow>
     job_ok (f j) \<and> replay_step typ (Some (j_state j)) = Some (j_state (f j))
     \<and> j_attempt (f j) = j_attempt j + (if typ = ''job.leased'' then 1 else 0)"

text \<open>Every transition of one job updates its row and appends one event to its log.\<close>

lemma transition_inv:
  assumes inv: "durable_inv db" and tx: "transition_tx err P f now svc i a typ note db = Inr db'"
    and quiet: "\<And>db. durable_inv (note db) \<longleftrightarrow> durable_inv db"
    and key: "\<And>j. P j \<Longrightarrow> job_key j = (svc, i)" and keep: "keeps_identity f"
    and row: "\<And>j. j \<in> set (jobs db) \<Longrightarrow> P j \<Longrightarrow> job_ok j \<Longrightarrow> valid_move typ f j"
  shows "durable_inv db'"
proof -
  from tx obtain db1 db2 where upd: "update_one err P f db = Inr db1" and db': "db' = note db2"
    and ev: "insert_event now svc i (Some a) typ ''{}'' db1 = Inr db2"
    by (auto simp: transition_tx_def)
  from upd have one: "sql_count P (jobs db) = 1"
    and db1: "db1 = db\<lparr>jobs := sql_update P f (jobs db)\<rparr>"
    by (auto simp: update_one_def split: if_splits)
  from one obtain j where j: "j \<in> set (jobs db)" "P j" "\<And>r. r \<in> set (jobs db) \<Longrightarrow> P r \<Longrightarrow> r = j"
    by (rule sql_count_one) blast
  from ev have db2: "jobs db2 = sql_update P f (jobs db)" "tasks db2 = tasks db"
      "\<And>k. history db2 k = history db k @ (if (svc, i) = k then [typ] else [])"
      "event_key ` set (events db2) = insert (svc, i) (event_key ` set (events db))"
    by (auto simp: insert_event_def db1 history_def event_key_def split: if_splits)
  have keys: "map job_key (jobs db2) = map job_key (jobs db)"
    unfolding db2 by (rule sql_update_image) (use keep in \<open>simp add: keeps_identity_def\<close>)
  then have keyset: "job_key ` set (jobs db2) = job_key ` set (jobs db)" by (metis set_map)
  have jk: "job_key j = (svc, i)" using key j(2) .
  have other: "job_key r \<noteq> (svc, i)" if "r \<in> set (jobs db)" "r \<noteq> j" for r
    using durable_inv_key [OF inv that(1) j(1)] that(2) jk by auto
  have old: "job_ok r \<and> log_ok db r \<and> (j_service r, j_task r) \<in> task_key ` set (tasks db)"
    if "r \<in> set (jobs db)" for r using inv that by (simp add: durable_inv_def)
  have new: "job_ok (f j) \<and> log_ok db2 (f j) \<and> (j_service (f j), j_task (f j)) \<in> task_key ` set (tasks db2)"
    using row [OF j(1,2)] old [OF j(1)] keep jk
    by (auto simp: log_ok_def db2(2,3) keeps_identity_def valid_move_def)
  have rest: "job_ok r \<and> log_ok db2 r \<and> (j_service r, j_task r) \<in> task_key ` set (tasks db2)"
    if "r \<in> set (jobs db)" "r \<noteq> j" for r
    using old [OF that(1)] other [OF that] by (auto simp: log_ok_def db2(2,3))
  have "job_ok r \<and> log_ok db2 r \<and> (j_service r, j_task r) \<in> task_key ` set (tasks db2)"
    if "r \<in> set (jobs db2)" for r
    using that new rest j(2,3) by (auto simp: db2(1) set_sql_update)
  moreover have "unique_dedupe (jobs db2)"
    using inv keep by (auto simp: db2(1) durable_inv_def intro: unique_dedupe_update)
  moreover have "event_key ` set (events db2) \<subseteq> job_key ` set (jobs db2)"
  proof -
    have "(svc, i) \<in> job_key ` set (jobs db)" using j(1) jk by (metis imageI)
    moreover have "event_key ` set (events db) \<subseteq> job_key ` set (jobs db)"
      using inv by (auto simp: durable_inv_def)
    ultimately show ?thesis unfolding keyset db2(4) by blast
  qed
  ultimately show ?thesis unfolding db' quiet unfolding durable_inv_def
    using inv by (simp add: keys db2(2) durable_inv_def image_subset_iff)
qed

lemma notify_inv [simp]: "durable_inv (notify_tx svc kind task job db) \<longleftrightarrow> durable_inv db"
  by (simp add: durable_inv_def log_ok_def history_def notify_tx_def)

subsection \<open>The moves of a job\<close>

lemmas move_simps = valid_move_def job_ok_def replay_step_def clear_lease_def

lemma keeps_identityI:
  "(\<And>j. j_service (f j) = j_service j \<and> j_id (f j) = j_id j \<and> j_task (f j) = j_task j
      \<and> j_dedupe_key (f j) = j_dedupe_key j) \<Longrightarrow> keeps_identity f"
  by (simp add: keeps_identity_def job_key_def)

lemma keeps_identity_rows [simp]:
  "keeps_identity (cancel_row now)" "keeps_identity (retry_row now)"
  "keeps_identity (finish_row now st codec res err)" "keeps_identity (requeue_failed now err delay)"
  "keeps_identity (mark_failed now err)" "keeps_identity (mark_running now worker lease token j t)"
  "keeps_identity (recover_row now)"
  by (rule keeps_identityI, simp add: cancel_row_def retry_row_def finish_row_def requeue_failed_def
      mark_failed_def mark_running_def recover_row_def clear_lease_def)+

lemma cancel_move:
  "job_ok j \<Longrightarrow> valid_move ''job.canceled'' (cancel_row now) j"
  by (simp add: move_simps cancel_row_def)

lemma retry_move:
  "job_ok j \<Longrightarrow> valid_move ''job.retry_requested'' (retry_row now) j"
  by (simp add: move_simps retry_row_def)

lemma succeed_move:
  "job_ok j \<Longrightarrow> valid_move ''job.succeeded'' (finish_row now Succeeded codec res err) j"
  by (simp add: move_simps finish_row_def)

lemma requeue_move:
  "job_ok j \<Longrightarrow> j_state j = Running \<Longrightarrow> j_attempt j < j_max_attempts j \<Longrightarrow>
     valid_move ''job.retry_scheduled'' (requeue_failed now err delay) j"
  by (simp add: move_simps requeue_failed_def)

lemma failed_move:
  "job_ok j \<Longrightarrow> valid_move ''job.failed'' (mark_failed now err) j"
  by (simp add: move_simps mark_failed_def)

lemma lease_move:
  "job_ok j \<Longrightarrow> j_state j = Queued \<Longrightarrow> valid_move ''job.leased'' (mark_running now worker lease token j t) j"
  by (simp add: move_simps mark_running_def)

subsection \<open>Transactions on one job\<close>

lemma cancel_job_inv:
  assumes "durable_inv db" "cancel_job now svc job_id db = Inr db'" shows "durable_inv db'"
proof -
  from assms(2) obtain j :: job_row where
    "transition_tx (\<lambda>_. CannotCancel (trim_space job_id)) (cancelable svc (trim_space job_id)) (cancel_row now)
       now svc (trim_space job_id) (j_attempt j) ''job.canceled''
       (notify_tx svc ''done'' (j_task j) (trim_space job_id)) db = Inr db'"
    by (auto simp: cancel_job_def Let_def split: if_splits option.splits)
  from transition_inv [OF assms(1) this] show ?thesis
    by (simp add: cancelable_def cancel_move)
qed

lemma retry_job_inv:
  assumes "durable_inv db" "retry_job now svc job_id db = Inr db'" shows "durable_inv db'"
proof -
  from assms(2) obtain j :: job_row where
    "transition_tx (\<lambda>_. CannotRetry (trim_space job_id)) (retryable svc (trim_space job_id)) (retry_row now)
       now svc (trim_space job_id) (j_attempt j) ''job.retry_requested''
       (notify_tx svc ''queued'' (j_task j) []) db = Inr db'"
    by (auto simp: retry_job_def Let_def split: if_splits option.splits)
  from transition_inv [OF assms(1) this] show ?thesis
    by (simp add: retryable_def retry_move)
qed

lemma complete_leased_job_inv:
  assumes "durable_inv db" "complete_leased_job now svc job_id worker lease result db = Inr db'"
  shows "durable_inv db'"
proof -
  let ?i = "trim_space job_id" and ?w = "trim_space worker" and ?l = "trim_space lease"
  from assms(2) obtain j :: job_row where
    "transition_tx (\<lambda>_. LeaseDoesNotOwn ?l ?i) (running_held svc ?i ?w ?l)
       (finish_row now Succeeded ''json'' result None) now svc ?i (j_attempt j)
       ''job.succeeded'' (notify_tx svc ''done'' (j_task j) ?i) db = Inr db'"
    by (auto simp: complete_leased_job_def finish_job_def Let_def split: if_splits option.splits)
  from transition_inv [OF assms(1) this] show ?thesis
    by (simp add: running_held_def succeed_move)
qed

lemma held_unique:
  assumes "durable_inv db" "find (running_held svc i worker lease) (jobs db) = Some j"
    "k \<in> set (jobs db)" "running_held svc i worker lease k"
  shows "k = j"
proof -
  from assms(2) have "j \<in> set (jobs db)" "running_held svc i worker lease j"
    by (auto simp: find_Some_iff)
  with assms show ?thesis by (auto simp: running_held_def intro: durable_inv_key)
qed

lemma fail_leased_job_inv:
  assumes "durable_inv db" "fail_leased_job now svc job_id worker lease err db = Inr db'"
  shows "durable_inv db'"
proof -
  let ?i = "trim_space job_id" and ?w = "trim_space worker" and ?l = "trim_space lease"
  from assms(2) obtain j and t :: task_row where j: "find (running_held svc ?i ?w ?l) (jobs db) = Some j"
    and tx: "(if j_attempt j < j_max_attempts j
       then transition_tx (RowsAffected ?i) (running_held svc ?i ?w ?l)
          (requeue_failed now err (retry_delay_seconds (j_attempt j) (t_retry_initial_ms t)
             (t_retry_max_ms t) (t_retry_backoff t))) now svc ?i (j_attempt j)
          ''job.retry_scheduled'' (notify_tx svc ''requeued'' (j_task j) ?i) db
       else transition_tx (RowsAffected ?i) (running_held svc ?i ?w ?l) (mark_failed now err) now svc ?i
          (j_attempt j) ''job.failed'' (notify_tx svc ''done'' (j_task j) ?i) db) = Inr db'"
    by (auto simp: fail_leased_job_def fail_or_retry_job_def Let_def split: if_splits option.splits)
  show ?thesis
  proof (cases "j_attempt j < j_max_attempts j")
    case True
    note t = tx [unfolded if_P [OF True]]
    show ?thesis
    proof (rule transition_inv [OF assms(1) t])
      fix k assume "k \<in> set (jobs db)" "running_held svc ?i ?w ?l k" "job_ok k"
      with held_unique [OF assms(1) j] True
      show "valid_move ''job.retry_scheduled'' (requeue_failed now err (retry_delay_seconds (j_attempt j)
          (t_retry_initial_ms t) (t_retry_max_ms t) (t_retry_backoff t))) k"
        by (auto simp: running_held_def intro: requeue_move)
    qed (simp_all add: running_held_def)
  next
    case False
    note t = tx [unfolded if_not_P [OF False]]
    from transition_inv [OF assms(1) t] show ?thesis by (simp add: running_held_def failed_move)
  qed
qed

subsection \<open>Updates without an event\<close>

lemma quiet_update_inv:
  assumes inv: "durable_inv db" and uniq: "unique_dedupe (sql_update P f (jobs db))"
    and same: "\<And>j. job_key (f j) = job_key j \<and> j_service (f j) = j_service j \<and> j_task (f j) = j_task j
        \<and> j_state (f j) = j_state j \<and> j_attempt (f j) = j_attempt j"
    and ok: "\<And>j. P j \<Longrightarrow> job_ok j \<Longrightarrow> job_ok (f j)"
  shows "durable_inv (db\<lparr>jobs := sql_update P f (jobs db)\<rparr>)" (is "durable_inv ?db")
proof -
  have keys: "map job_key (jobs ?db) = map job_key (jobs db)"
    using same by (simp add: sql_update_image)
  then have keyset: "job_key ` set (jobs ?db) = job_key ` set (jobs db)" by (metis set_map)
  have h: "history ?db = history db" by (simp add: history_def fun_eq_iff)
  have "job_ok r \<and> log_ok ?db r \<and> (j_service r, j_task r) \<in> task_key ` set (tasks db)"
    if "r \<in> set (jobs ?db)" for r
  proof -
    from that obtain j where j: "j \<in> set (jobs db)" "r = (if P j then f j else j)"
      by (auto simp: sql_update_def)
    with inv have "job_ok j" "log_ok db j" "(j_service j, j_task j) \<in> task_key ` set (tasks db)"
      by (simp_all add: durable_inv_def)
    with j(2) same ok show ?thesis by (simp add: log_ok_def h)
  qed
  then show ?thesis unfolding durable_inv_def
    using inv keyset uniq keys by (simp add: durable_inv_def)
qed

lemma heartbeat_job_inv:
  assumes "durable_inv db" "heartbeat_job now svc job_id worker lease db = Inr db'"
  shows "durable_inv db'"
proof -
  let ?f = "\<lambda>j. let until = now + ms (case find_task_version svc (j_task j) (j_version j) db of
          None \<Rightarrow> 60000 | Some t \<Rightarrow> if t_lease_ms t > 0 then t_lease_ms t else 60000)
      in j\<lparr>j_lease_until := Some (case j_timeout_at j of None \<Rightarrow> until | Some t \<Rightarrow> min t until), j_updated_at := now\<rparr>"
  let ?P = "\<lambda>j. job_key j = (svc, trim_space job_id) \<and> j_state j = Running
      \<and> j_lease_owner j = Some (trim_space worker) \<and> j_lease_id j = Some (trim_space lease)"
  from assms(2) have db': "db' = db\<lparr>jobs := sql_update ?P ?f (jobs db)\<rparr>"
    by (auto simp: heartbeat_job_def update_one_def Let_def split: if_splits)
  have "keeps_identity ?f" by (rule keeps_identityI) (simp add: Let_def)
  with assms(1) have "unique_dedupe (sql_update ?P ?f (jobs db))"
    by (simp add: durable_inv_def unique_dedupe_update)
  then show ?thesis unfolding db'
    by (rule quiet_update_inv [OF assms(1)]) (simp_all add: Let_def job_key_def job_ok_def)
qed

lemma expire_dedupe_inv:
  assumes "durable_inv db" shows "durable_inv (expire_dedupe now svc task key db)"
proof -
  let ?f = "\<lambda>j. j\<lparr>j_dedupe_key := None, j_dedupe_expires_at := None, j_updated_at := now\<rparr> :: job_row"
  have u: "unique_dedupe (sql_update P ?f (jobs db))" for P
  proof (unfold unique_dedupe_def, intro ballI impI)
    fix a b assume ab: "a \<in> set (sql_update P ?f (jobs db))" "b \<in> set (sql_update P ?f (jobs db))"
      and d: "j_dedupe_key a \<noteq> None" "j_service a = j_service b" "j_task a = j_task b"
        "j_dedupe_key a = j_dedupe_key b"
    then have "a \<in> set (jobs db)" "b \<in> set (jobs db)" by (auto simp: sql_update_def split: if_splits)
    with d assms show "job_key a = job_key b" unfolding durable_inv_def unique_dedupe_def by blast
  qed
  show ?thesis unfolding expire_dedupe_def
    by (rule quiet_update_inv [OF assms u]) (simp_all add: job_key_def job_ok_def)
qed

lemma purge_expired_jobs_inv:
  assumes "durable_inv db" shows "durable_inv (snd (purge_expired_jobs now svc db))"
proof -
  let ?keep = "\<lambda>j. \<not> purgeable now svc j"
  let ?db = "snd (purge_expired_jobs now svc db)"
  let ?gone = "job_key ` {j \<in> set (jobs db). purgeable now svc j}"
  have db': "jobs ?db = filter ?keep (jobs db)" "tasks ?db = tasks db"
    "events ?db = filter (\<lambda>e. event_key e \<notin> ?gone) (events db)"
    by (simp_all add: purge_expired_jobs_def Let_def)
  have kept: "job_key j \<notin> ?gone" if "j \<in> set (jobs db)" "?keep j" for j
    using durable_inv_key [OF assms that(1)] that(2) by blast
  have h: "history ?db k = history db k" if "k \<notin> ?gone" for k
  proof -
    have "(event_key e \<notin> ?gone \<and> event_key e = k) = (event_key e = k)" for e using that by blast
    then show ?thesis by (simp only: history_def db'(3) filter_filter)
  qed
  have rows: "job_ok j \<and> log_ok ?db j \<and> (j_service j, j_task j) \<in> task_key ` set (tasks ?db)"
    if "j \<in> set (jobs ?db)" for j
  proof -
    from that have j: "j \<in> set (jobs db)" "?keep j" by (simp_all add: db')
    from j(1) assms have "job_ok j \<and> log_ok db j \<and> (j_service j, j_task j) \<in> task_key ` set (tasks db)"
      by (simp add: durable_inv_def)
    then show ?thesis by (simp add: log_ok_def h [OF kept [OF j]] db'(2))
  qed
  have ev: "event_key e \<in> job_key ` set (jobs ?db)" if "e \<in> set (events ?db)" for e
  proof -
    from that have e: "e \<in> set (events db)" "event_key e \<notin> ?gone" by (simp_all add: db')
    with assms obtain j where "j \<in> set (jobs db)" "event_key e = job_key j"
      by (auto simp: durable_inv_def)
    with e(2) show ?thesis by (auto simp: db')
  qed
  have "distinct (map job_key (jobs ?db))"
    using assms by (simp add: db' durable_inv_def distinct_map_filter)
  moreover have "unique_dedupe (jobs ?db)"
    by (rule unique_dedupe_mono [of "jobs db"]) (use assms in \<open>auto simp: db' durable_inv_def\<close>)
  ultimately have "distinct (map job_key (jobs ?db))" "unique_dedupe (jobs ?db)" .
  with rows ev show ?thesis using assms by (simp add: durable_inv_def db'(2))
qed

subsection \<open>Starting, recovering and leasing\<close>

lemma find_task_exists:
  assumes "(svc, name) \<in> task_key ` set (tasks db)"
  obtains t where "find_task svc name db = Some t" "t \<in> set (tasks db)"
proof (cases "find_task svc name db")
  case None
  with assms show ?thesis by (auto simp: find_task_def find_None_iff task_key_def)
next
  case (Some t)
  then have "t \<in> set (tasks db)" by (auto simp: find_task_def find_Some_iff)
  with Some that show ?thesis by blast
qed

lemma insert_started_inv:
  assumes inv: "durable_inv db" and ok: "insert_started env now svc q db = Inr (v, db')"
  shows "durable_inv db'"
proof -
  from ok obtain reqs labels memo db1 db2 where
    ins: "insert_job (new_job now svc q reqs labels memo db) db = Inr db1"
    and ev: "insert_event now svc (q_id q) None ''job.created'' ''{}'' db1 = Inr db2"
    and db': "db' = notify_tx svc ''queued'' (q_task q) [] db2"
    by (auto simp: insert_started_def split: option.splits)
  define j where "j = new_job now svc q reqs labels memo db"
  have j: "job_key j = (svc, q_id q)" "j_service j = svc" "j_task j = q_task q" "j_state j = Queued" "j_attempt j = 0"
    by (simp_all add: j_def new_job_def job_key_def)
  from ins have fresh: "(svc, q_id q) \<notin> job_key ` set (jobs db)"
    and uniq: "\<And>k. k \<in> set (jobs db) \<Longrightarrow> j_dedupe_key j \<noteq> None \<Longrightarrow>
        \<not> (j_service k = svc \<and> j_task k = q_task q \<and> j_dedupe_key k = j_dedupe_key j)"
    and fk: "(svc, q_task q) \<in> task_key ` set (tasks db)" and db1: "db1 = db\<lparr>jobs := jobs db @ [j]\<rparr>"
    unfolding j_def [symmetric] by (auto simp: insert_job_def j list_ex_iff split: if_splits)
  from ev have db2: "jobs db2 = jobs db @ [j]" "tasks db2 = tasks db"
      "\<And>k. history db2 k = history db k @ (if (svc, q_id q) = k then [''job.created''] else [])"
      "event_key ` set (events db2) = insert (svc, q_id q) (event_key ` set (events db))"
    by (auto simp: insert_event_def db1 history_def event_key_def split: if_splits)
  have sub: "event_key ` set (events db) \<subseteq> job_key ` set (jobs db)"
    using inv by (auto simp: durable_inv_def)
  with fresh have "event_key e \<noteq> (svc, q_id q)" if "e \<in> set (events db)" for e
    using that by (metis imageI subsetD)
  then have empty: "history db (svc, q_id q) = []"
    by (simp add: history_def filter_empty_conv)
  obtain t where "find_task svc (q_task q) db = Some t" "t \<in> set (tasks db)"
    using fk by (rule find_task_exists)
  then have ok: "job_ok j"
    using durable_invD(4) [OF inv, of t] by (simp add: j_def new_job_def job_ok_def opt_or_def)
  have new: "job_ok j \<and> log_ok db2 j \<and> (j_service j, j_task j) \<in> task_key ` set (tasks db2)"
    using ok fk by (simp add: log_ok_def db2(2,3) j empty replay_def replay_step_def)
  have rest: "job_ok r \<and> log_ok db2 r \<and> (j_service r, j_task r) \<in> task_key ` set (tasks db2)"
    if "r \<in> set (jobs db)" for r
  proof -
    have "job_key r \<noteq> (svc, q_id q)" using that fresh by (metis imageI)
    then have "history db2 (job_key r) = history db (job_key r)" by (simp add: db2(3))
    with durable_invD(3) [OF inv that] show ?thesis by (simp add: log_ok_def db2(2))
  qed
  have "unique_dedupe (jobs db2)"
    unfolding db2(1) by (rule unique_dedupe_append [OF durable_invD(5) [OF inv]]) (use uniq j(2,3) in simp)
  moreover have "event_key ` set (events db2) \<subseteq> job_key ` set (jobs db2)"
    using sub j(1) by (auto simp: db2(1,4))
  moreover have "distinct (map job_key (jobs db2))"
    using durable_invD(1) [OF inv] fresh by (simp add: db2(1) j(1))
  ultimately show ?thesis unfolding db' notify_inv
    using new rest durable_invD(4) [OF inv] by (intro durable_invI) (auto simp: db2(1,2))
qed

lemma start_job_inv:
  assumes "durable_inv db" "start_job env now svc q db = Inr (v, db')" shows "durable_inv db'"
  using assms expire_dedupe_inv [OF assms(1)]
  by (auto simp: start_job_def Let_def split: if_splits option.splits elim!: insert_started_inv [rotated])

definition recovered_type :: "job_row \<Rightarrow> string" where
  "recovered_type j = (if j_state j = Failed then ''job.failed'' else ''job.lease_expired'')"

lemma append_recovered_effect:
  assumes "append_recovered now svc js db = Inr db'"
  shows "jobs db' = jobs db \<and> tasks db' = tasks db
    \<and> history db' k = history db k @ map recovered_type (filter (\<lambda>j. (svc, j_id j) = k) js)
    \<and> event_key ` set (events db') \<subseteq> event_key ` set (events db) \<union> job_key ` set (jobs db)"
  using assms
proof (induction js arbitrary: db)
  case Nil
  then show ?case by auto
next
  case (Cons j js)
  then obtain db1 where db1: "insert_event now svc (j_id j) (Some (j_attempt j)) (recovered_type j) ''{}'' db = Inr db1"
    and rest: "append_recovered now svc js db1 = Inr db'" by (auto simp: recovered_type_def)
  from db1 have 1: "jobs db1 = jobs db \<and> tasks db1 = tasks db"
      "\<And>k. history db1 k = history db k @ (if (svc, j_id j) = k then [recovered_type j] else [])"
      "event_key ` set (events db1) \<subseteq> event_key ` set (events db) \<union> job_key ` set (jobs db)"
    by (auto simp: insert_event_def history_def event_key_def split: if_splits)
  note ih = Cons.IH [OF rest]
  have "event_key ` set (events db') \<subseteq> event_key ` set (events db) \<union> job_key ` set (jobs db)"
    using ih 1(1) by (auto dest!: subsetD [OF 1(3)] dest: subsetD)
  with ih 1(1,2) show ?case by simp
qed

lemma filter_key_unique:
  "distinct (map g xs) \<Longrightarrow> r \<in> set xs \<Longrightarrow> filter (\<lambda>x. g x = g r) xs = [r]"
proof (induction xs)
  case (Cons x xs)
  show ?case
  proof (cases "r = x")
    case True
    with Cons.prems have "filter (\<lambda>x. g x = g r) xs = []" by (auto simp: filter_empty_conv image_iff)
    with True show ?thesis by simp
  next
    case False
    with Cons have "g x \<noteq> g r" "filter (\<lambda>x. g x = g r) xs = [r]" by auto
    then show ?thesis by simp
  qed
qed simp

lemma recover_move:
  "job_ok j \<Longrightarrow> j_state j = Running \<Longrightarrow> valid_move (recovered_type (recover_row now j)) (recover_row now) j"
  by (auto simp: move_simps recover_row_def recovered_type_def)

lemma recover_rows_inv:
  assumes inv: "durable_inv db"
    and ok: "append_recovered now svc (map (recover_row now) (filter P (jobs db)))
      (db\<lparr>jobs := sql_update P (recover_row now) (jobs db)\<rparr>) = Inr db'"
    and P: "\<And>r. r \<in> set (jobs db) \<Longrightarrow> P r \<Longrightarrow> j_state r = Running \<and> j_service r = svc"
  shows "durable_inv db'"
proof -
  let ?P = P and ?f = "recover_row now"
  let ?js = "map ?f (filter ?P (jobs db))"
  let ?db = "db\<lparr>jobs := sql_update ?P ?f (jobs db)\<rparr>"
  have keep: "keeps_identity ?f" by simp
  then have fk: "job_key (?f r) = job_key r" "j_service (?f r) = j_service r" "j_task (?f r) = j_task r" for r
    by (simp_all add: keeps_identity_def)
  have h0: "history ?db k = history db k" for k by (simp add: history_def)
  from append_recovered_effect [OF ok]
  have db': "jobs db' = sql_update ?P ?f (jobs db)" "tasks db' = tasks db"
      "\<And>k. history db' k = history db k @ map recovered_type (filter (\<lambda>j. (svc, j_id j) = k) ?js)"
      "event_key ` set (events db') \<subseteq> event_key ` set (events db) \<union> job_key ` set (jobs db')"
    by (simp_all add: h0)
  have keys: "map job_key (jobs db') = map job_key (jobs db)"
    unfolding db' using fk by (simp add: sql_update_image)
  then have keyset: "job_key ` set (jobs db') = job_key ` set (jobs db)" by (metis set_map)
  have sel: "filter (\<lambda>j. (svc, j_id j) = job_key r) ?js = (if ?P r then [?f r] else [])"
    if "r \<in> set (jobs db)" for r
  proof -
    have "(svc, j_id (?f x)) = job_key x" if "x \<in> set (jobs db)" "?P x" for x
      using P [OF that] fk(1,2) [of x] by (auto simp: job_key_def)
    then have "filter (\<lambda>x. ?P x \<and> (svc, j_id (?f x)) = job_key r) (jobs db)
        = filter (\<lambda>x. job_key x = job_key r \<and> ?P x) (jobs db)"
      by (intro filter_cong) auto
    then have "filter (\<lambda>j. (svc, j_id j) = job_key r) ?js = map ?f (filter ?P (filter (\<lambda>x. job_key x = job_key r) (jobs db)))"
      by (simp add: filter_map comp_def)
    also have "filter (\<lambda>x. job_key x = job_key r) (jobs db) = [r]"
      by (rule filter_key_unique [OF durable_invD(1) [OF inv] that])
    finally show ?thesis by simp
  qed
  have "job_ok r' \<and> log_ok db' r' \<and> (j_service r', j_task r') \<in> task_key ` set (tasks db')"
    if "r' \<in> set (jobs db')" for r'
  proof -
    from that obtain r where r: "r \<in> set (jobs db)" "r' = (if ?P r then ?f r else r)"
      by (auto simp: db' sql_update_def)
    note old = durable_invD(3) [OF inv r(1)]
    have "job_key r' = job_key r" by (simp add: r(2) fk)
    then have h: "history db' (job_key r') = history db (job_key r) @ (if ?P r then [recovered_type (?f r)] else [])"
      using sel [OF r(1)] by (simp add: db'(3))
    show ?thesis
    proof (cases "?P r")
      case True
      then have "j_state r = Running" using P [OF r(1)] by simp
      with old True recover_move [of r now] h fk r(2) show ?thesis
        by (simp add: log_ok_def valid_move_def db'(2))
    next
      case False
      with old h r(2) show ?thesis by (simp add: log_ok_def db'(2))
    qed
  qed
  moreover have "unique_dedupe (jobs db')"
    unfolding db' by (rule unique_dedupe_update [OF durable_invD(5) [OF inv] keep])
  moreover have "event_key ` set (events db') \<subseteq> job_key ` set (jobs db')"
    using db'(4) unfolding keyset Un_absorb1 [OF durable_invD(2) [OF inv]] .
  ultimately show ?thesis
    using durable_invD(1,4) [OF inv] keys by (intro durable_invI) (simp_all add: db'(2))
qed

lemma recover_expired_jobs_inv:
  assumes "durable_inv db" "recover_expired_jobs now svc task db = Inr db'"
  shows "durable_inv db'"
  using recover_rows_inv [OF assms(1) assms(2) [unfolded recover_expired_jobs_def]]
  by (auto simp: expired_def)

lemma pick_first_mem: "pick_first before xs = Some x \<Longrightarrow> x \<in> set xs"
  by (induction xs arbitrary: x) (auto split: option.splits if_splits)

lemma pick_first_None [simp]: "pick_first before xs = None \<longleftrightarrow> xs = []"
  by (cases xs) (auto split: option.splits)

lemma select_ready_Some:
  assumes "select_ready env locked now svc task db = Some (j, t)"
  shows "j \<in> set (jobs db)" "t \<in> set (tasks db)" "ready now svc task db j t" "\<not> locked j t"
proof -
  have "(j, t) \<in> set (filter (\<lambda>(j, t). ready now svc task db j t \<and> \<not> locked j t)
      (List.product (jobs db) (tasks db)))"
    using assms unfolding select_ready_def by (rule pick_first_mem)
  then show "j \<in> set (jobs db)" "t \<in> set (tasks db)" "ready now svc task db j t" "\<not> locked j t"
    by simp_all
qed

lemma take_lease_row_inv:
  assumes inv: "durable_inv db" and j: "j \<in> set (jobs db)" "j_state j = Queued" "j_service j = svc"
    and ok: "take_lease now svc worker lease token j t db = Inr (r, db')"
  shows "durable_inv db'"
proof -
  have key: "job_key j = (svc, j_id j)" using j(3) by (simp add: job_key_def)
  from ok have tx: "transition_tx (RowsAffected (j_id j)) (\<lambda>k. job_key k = (svc, j_id j) \<and> j_state k = Queued)
       (mark_running now worker lease token j t) now svc (j_id j) (j_attempt j + 1) ''job.leased'' id db = Inr db'"
    by (auto simp: take_lease_def)
  show ?thesis
  proof (rule transition_inv [OF inv tx])
    fix k assume k: "k \<in> set (jobs db)" "job_key k = (svc, j_id j) \<and> j_state k = Queued" "job_ok k"
    then have "k = j" using durable_inv_key [OF inv _ j(1)] key by metis
    with k(3) j(2) show "valid_move ''job.leased'' (mark_running now worker lease token j t) k"
      by (simp add: lease_move)
  qed simp_all
qed

lemma take_lease_inv:
  assumes "durable_inv db" "select_ready env locked now svc task db = Some (j, t)"
    and "take_lease now svc worker lease token j t db = Inr (r, db')"
  shows "durable_inv db'"
  using take_lease_row_inv [OF assms(1) _ _ _ assms(3)] select_ready_Some [OF assms(2)]
  by (simp add: ready_def)

lemma lease_inv:
  assumes "durable_inv db"
    "lease_ready_job_with_token env locked now svc worker lease task token db = Inr (r, db')"
  shows "durable_inv db'"
proof -
  from assms(2) obtain db1 where db1: "recover_expired_jobs now svc (trim_space task) db = Inr db1"
    and rest: "(case select_ready env locked now svc (trim_space task) db1 of
        None \<Rightarrow> Inr (Idle (next_task_wake_delay now svc (trim_space task) db1), db1)
      | Some (j, t) \<Rightarrow> take_lease now svc (trim_space worker) (trim_space lease) token j t db1) = Inr (r, db')"
    by (auto simp: lease_ready_job_with_token_def Let_def split: if_splits)
  have inv1: "durable_inv db1" using assms(1) db1 by (rule recover_expired_jobs_inv)
  show ?thesis
  proof (cases "select_ready env locked now svc (trim_space task) db1")
    case None
    with rest inv1 show ?thesis by simp
  next
    case (Some jt)
    obtain j t where jt: "jt = (j, t)" by fastforce
    from rest Some jt have "take_lease now svc (trim_space worker) (trim_space lease) token j t db1 = Inr (r, db')"
      by simp
    with inv1 Some [unfolded jt] show ?thesis by (rule take_lease_inv)
  qed
qed

subsection \<open>Tasks and signals\<close>

lemma upsert_tasks_effect:
  assumes "upsert_tasks env now svc ds ts = Inr ts'"
  shows "task_key ` set ts \<subseteq> task_key ` set ts' \<and>
    (\<forall>t \<in> set ts'. t \<in> set ts \<or> (\<exists>d \<in> set ds. t_max_attempts t = d_max_attempts (normalize_task d)))"
  using assms
proof (induction ds arbitrary: ts)
  case Nil
  then show ?case by simp
next
  case (Cons d ds)
  let ?n = "normalize_task d"
  from Cons.prems obtain reqs where rest: "upsert_tasks env now svc ds (upsert_task now svc ?n reqs ts) = Inr ts'"
    by (auto simp: Let_def split: if_splits option.splits)
  have key: "task_key (task_of_declaration now svc ?n reqs c) = (svc, d_name ?n)" for c
    by (simp add: task_key_def task_of_declaration_def)
  have "task_key ` set ts \<subseteq> task_key ` set (upsert_task now svc ?n reqs ts)"
  proof (cases "(svc, d_name ?n) \<in> task_key ` set ts")
    case True
    have "map task_key (upsert_task now svc ?n reqs ts) = map task_key ts"
      using True key by (simp add: upsert_task_def sql_update_def)
    then show ?thesis by (metis set_map order.refl)
  qed (auto simp: upsert_task_def)
  moreover have "t \<in> set ts \<or> t_max_attempts t = d_max_attempts ?n" if "t \<in> set (upsert_task now svc ?n reqs ts)" for t
    using that by (auto simp: upsert_task_def sql_update_def task_of_declaration_def split: if_splits)
  ultimately show ?case using Cons.IH [OF rest] by (meson list.set_intros order.trans)
qed

lemma reconcile_tasks_inv:
  assumes inv: "durable_inv db" and ok: "reconcile_tasks env now svc ds db = Inr db'"
    and att: "list_all (\<lambda>d. 0 \<le> d_max_attempts d) ds"
  shows "durable_inv db'"
proof -
  let ?off = "sql_update (\<lambda>t. t_service t = svc) (\<lambda>t. t\<lparr>t_enabled := False, t_updated_at := now\<rparr>) (tasks db)"
  from ok obtain ts where ts: "upsert_tasks env now svc ds ?off = Inr ts" and db': "db' = db\<lparr>tasks := ts\<rparr>"
    by (auto simp: reconcile_tasks_def)
  have off: "map task_key ?off = map task_key (tasks db)" by (rule sql_update_image) (simp add: task_key_def)
  have "task_key ` set (tasks db) = task_key ` set ?off" by (metis off set_map)
  also have "\<dots> \<subseteq> task_key ` set ts" using upsert_tasks_effect [OF ts] by blast
  finally have keys: "task_key ` set (tasks db) \<subseteq> task_key ` set ts" .
  have "1 \<le> t_max_attempts t" if "t \<in> set ?off" for t
    using that durable_invD(4) [OF inv] by (auto simp: sql_update_def)
  moreover have "1 \<le> d_max_attempts (normalize_task d)" if "d \<in> set ds" for d
    using that att by (auto simp: list_all_iff normalize_task_def Let_def nonzero_or_def)
  ultimately have "1 \<le> t_max_attempts t" if "t \<in> set ts" for t
    using that upsert_tasks_effect [OF ts] by metis
  moreover have "log_ok db' j \<longleftrightarrow> log_ok db j" for j by (simp add: db' log_ok_def history_def)
  ultimately show ?thesis
    using durable_invD [OF inv] keys by (intro durable_invI) (auto simp: db')
qed

lemma signal_event_inv:
  assumes inv: "durable_inv db" and ok: "insert_event now svc i None ''job.signaled'' body db = Inr db'"
  shows "durable_inv db'"
proof -
  from ok have db': "jobs db' = jobs db" "tasks db' = tasks db"
      "\<And>k. history db' k = history db k @ (if (svc, i) = k then [''job.signaled''] else [])"
      "event_key ` set (events db') = insert (svc, i) (event_key ` set (events db))"
      and fk: "(svc, i) \<in> job_key ` set (jobs db)"
    by (auto simp: insert_event_def history_def event_key_def split: if_splits)
  have "log_ok db' j \<longleftrightarrow> log_ok db j" for j
    by (simp add: log_ok_def db'(3) replay_step_def)
  then show ?thesis
    using durable_invD [OF inv] fk by (intro durable_invI) (simp_all add: db')
qed

lemma signal_job_inv:
  assumes "durable_inv db" "signal_job now svc i name key payload db = Inr db'" shows "durable_inv db'"
proof -
  have [simp]: "durable_inv (db\<lparr>signals := s\<rparr>) \<longleftrightarrow> durable_inv db" for s
    by (simp add: durable_inv_def log_ok_def history_def)
  from assms show ?thesis
    by (auto simp: signal_job_def Let_def split: if_splits elim!: signal_event_inv [rotated])
qed

section \<open>All reachable databases\<close>

lemma exec_op_inv:
  assumes "durable_inv db" "op_declares_attempts op" "exec_op env now op db = Inr db'"
  shows "durable_inv db'"
proof -
  have same: "durable_inv db'" if "jobs db' = jobs db" "events db' = events db" "tasks db' = tasks db"
    using assms(1) that by (simp add: durable_inv_def log_ok_def history_def)
  show ?thesis
  proof (cases op)
    case (OpStart svc q)
    with assms show ?thesis by (cases "start_job env now svc q db") (auto elim: start_job_inv)
  next
    case (OpLease locked svc worker lease task token)
    with assms show ?thesis
      by (cases "lease_ready_job_with_token env locked now svc worker lease task token db") (auto elim: lease_inv)
  next
    case (OpSaveStep svc i key st codec res err)
    with assms(3) show ?thesis by (intro same) (auto simp: save_step_def Let_def split: if_splits)
  next
    case (OpUpsertSchedule svc i task every input)
    with assms(3) show ?thesis by (intro same) (auto simp: upsert_schedule_def Let_def split: if_splits)
  next
    case (OpAdvanceSchedule svc c)
    with assms(3) show ?thesis by (intro same) (auto simp: advance_schedule_def)
  next
    case (OpCreateToken h svc i name secret scopes expires)
    with assms(3) show ?thesis
      by (intro same) (auto simp: create_worker_token_def Let_def split: if_splits option.splits)
  next
    case (OpAuthenticate h svc secret)
    with assms(3) show ?thesis
      by (intro same) (auto simp: authenticate_worker_token_def Let_def split: if_splits option.splits)
  qed (use assms in \<open>auto simp: op_declares_attempts_def elim: cancel_job_inv retry_job_inv
        complete_leased_job_inv fail_leased_job_inv heartbeat_job_inv reconcile_tasks_inv signal_job_inv
        intro: purge_expired_jobs_inv\<close>)
qed

interpretation durable: step_system "durable_step env" op_declares_attempts durable_inv for env
proof
  fix op db db'
  assume "durable_step env op db db'" "op_declares_attempts op" "durable_inv db"
  then show "durable_inv db'" by (cases rule: durable_step.cases) (auto intro: exec_op_inv)
qed

end
