(* ===== verification/DurableSafety.thy ===== *)
theory DurableSafety
  imports DurableJobs
begin

text \<open>
  The guarantees of the durable store over its histories: the event log determines every job, leases
  fence out workers that lost them, deduplication, the choice of the
  next job and the reconciliation of task revisions.
\<close>

section \<open>Empty database and reachable databases\<close>

definition empty_db :: durable_db where
  "empty_db = \<lparr>tasks = [], jobs = [], events = [], next_seq = 0, steps = [], signals = [], schedules = [],
     tokens = [], outbox = []\<rparr>"

lemma empty_db_inv: "durable_inv empty_db"
  by (simp add: durable_inv_def empty_db_def unique_dedupe_def)

lemma reachable_inv:
  "trace (durable_step env) empty_db ops db \<Longrightarrow> list_all op_declares_attempts ops \<Longrightarrow> durable_inv db"
  using durable.trace_invariant empty_db_inv by blast

text \<open>
  C3. The event log is a complete account of a job. After any history of operations, replaying the
  events of a job gives its current state, and the number of \<open>job.leased\<close> events is its attempt.
\<close>

theorem durable_log_determines_job:
  assumes "trace (durable_step env) empty_db ops db" "list_all op_declares_attempts ops"
    and "j \<in> set (jobs db)"
  shows "replay (map e_type (filter (\<lambda>e. event_key e = job_key j) (events db))) = Some (j_state j)
    \<and> int (count_list (map e_type (filter (\<lambda>e. event_key e = job_key j) (events db))) ''job.leased'')
        = j_attempt j"
  using durable_invD(3) [OF reachable_inv [OF assms(1,2)] assms(3)]
  by (simp add: log_ok_def history_def)

text \<open>
  C28. After any history a job holds a lease exactly while it runs, has a completion time exactly when
  it has ended, and never runs an attempt beyond its maximum: a queued job has an attempt left.
\<close>

theorem durable_job_lifecycle:
  assumes "trace (durable_step env) empty_db ops db" "list_all op_declares_attempts ops"
    and "j \<in> set (jobs db)"
  shows "(j_lease_owner j \<noteq> None \<longleftrightarrow> j_state j = Running) \<and> (j_lease_id j \<noteq> None \<longleftrightarrow> j_state j = Running)
    \<and> (j_lease_until j \<noteq> None \<longleftrightarrow> j_state j = Running)
    \<and> (j_completed_at j \<noteq> None \<longleftrightarrow> j_state j \<in> {Succeeded, Failed, Canceled})
    \<and> 0 \<le> j_attempt j
    \<and> (j_state j = Queued \<longrightarrow> j_attempt j < j_max_attempts j)
    \<and> (j_state j = Running \<longrightarrow> j_attempt j \<le> j_max_attempts j)"
  using durable_invD(3) [OF reachable_inv [OF assms(1,2)] assms(3)]
  by (cases "j_state j") (auto simp: job_ok_def)

section \<open>Fencing\<close>

definition leases :: "durable_db \<Rightarrow> ((string \<times> string) \<times> string \<times> string) set" where
  "leases db = {(job_key j, w, l) | j w l.
     j \<in> set (jobs db) \<and> j_state j = Running \<and> j_lease_owner j = Some w \<and> j_lease_id j = Some l}"

text \<open>A step that leases the job \<open>i\<close> of a service to the worker \<open>w\<close> under the lease \<open>l\<close>.\<close>

definition lease_granted ::
  "pg_env \<Rightarrow> string \<Rightarrow> string \<Rightarrow> string \<Rightarrow> string \<Rightarrow> durable_op \<Rightarrow> durable_db \<Rightarrow> durable_db \<Rightarrow> bool" where
  "lease_granted env svc i w l op db db' \<longleftrightarrow>
     (\<exists>now locked worker lease task token r.
        op = OpLease locked svc worker lease task token
      \<and> lease_ready_job_with_token env locked now svc worker lease task token db = Inr (Leased r, db')
      \<and> l_id r = i \<and> trim_space worker = w \<and> trim_space lease = l)"

fun is_lease :: "durable_op \<Rightarrow> bool" where
  "is_lease (OpLease locked svc worker lease task token) = True"
| "is_lease _ = False"

text \<open>
  An operation that takes no lease drops some rows of the jobs, rewrites the others with a quiet
  function, one that starts no run and changes no lease, and appends jobs that do not run.
\<close>

definition quiet :: "(job_row \<Rightarrow> job_row) \<Rightarrow> bool" where
  "quiet g \<longleftrightarrow>
     (\<forall>j. job_key (g j) = job_key j \<and> j_service (g j) = j_service j \<and> j_task (g j) = j_task j
        \<and> j_concurrency_key (g j) = j_concurrency_key j
        \<and> (j_state (g j) = Running \<longrightarrow>
             j_state j = Running \<and> j_lease_owner (g j) = j_lease_owner j \<and> j_lease_id (g j) = j_lease_id j))"

definition quiet_jobs :: "job_row list \<Rightarrow> job_row list \<Rightarrow> bool" where
  "quiet_jobs rows rows' \<longleftrightarrow>
     (\<exists>g keep new. rows' = map g (filter keep rows) @ new \<and> quiet g \<and> (\<forall>j \<in> set new. j_state j \<noteq> Running))"

lemma quiet_jobs_refl [simp]: "quiet_jobs rows rows"
  unfolding quiet_jobs_def
  by (rule exI [of _ id], rule exI [of _ "\<lambda>_. True"], rule exI [of _ "[]"]) (simp add: quiet_def)

lemma quiet_jobs_update:
  assumes "quiet f" shows "quiet_jobs rows (sql_update P f rows)"
  unfolding quiet_jobs_def sql_update_def
  by (rule exI [of _ "\<lambda>r. if P r then f r else r"], rule exI [of _ "\<lambda>_. True"], rule exI [of _ "[]"])
    (use assms in \<open>simp add: quiet_def\<close>)

lemma quiet_jobs_filter: "quiet_jobs rows (filter keep rows)"
  unfolding quiet_jobs_def
  by (rule exI [of _ id], rule exI [of _ keep], rule exI [of _ "[]"]) (simp add: quiet_def)

lemma quiet_jobs_append:
  assumes "quiet_jobs rows rows'" "j_state j \<noteq> Running" shows "quiet_jobs rows (rows' @ [j])"
proof -
  from assms(1) obtain g keep new where "rows' = map g (filter keep rows) @ new" "quiet g"
    "\<forall>j \<in> set new. j_state j \<noteq> Running" unfolding quiet_jobs_def by blast
  with assms(2) have "rows' @ [j] = map g (filter keep rows) @ (new @ [j])" "quiet g"
    "\<forall>j \<in> set (new @ [j]). j_state j \<noteq> Running" by auto
  then show ?thesis unfolding quiet_jobs_def by blast
qed

lemma quiet_rows [simp]:
  "quiet (cancel_row now)" "quiet (retry_row now)" "quiet (finish_row now Succeeded codec res err)"
  "quiet (requeue_failed now err delay)" "quiet (mark_failed now err)" "quiet (recover_row now)"
  by (simp_all add: quiet_def cancel_row_def retry_row_def finish_row_def requeue_failed_def mark_failed_def
      recover_row_def clear_lease_def job_key_def)

lemma transition_jobs:
  assumes "transition_tx err P f now svc i a typ note db = Inr db'" "\<And>db. jobs (note db) = jobs db"
  shows "jobs db' = sql_update P f (jobs db)" "sql_count P (jobs db) = 1"
  using assms
  by (auto simp: transition_tx_def update_one_def insert_event_def split: if_splits)

lemma notify_jobs [simp]: "jobs (notify_tx svc kind task job db) = jobs db"
  by (simp add: notify_tx_def)

lemma transition_quiet:
  assumes "transition_tx err P f now svc i a typ (notify_tx svc kind task job) db = Inr db'" "quiet f"
  shows "quiet_jobs (jobs db) (jobs db')"
  using transition_jobs(1) [OF assms(1)] quiet_jobs_update [OF assms(2)] by simp

lemma insert_event_jobs: "insert_event now svc i a typ payload db = Inr db' \<Longrightarrow> jobs db' = jobs db"
  by (auto simp: insert_event_def split: if_splits)

lemma start_job_quiet:
  assumes "start_job env now svc q db = Inr (v, db')"
  shows "quiet_jobs (jobs db) (jobs db')"
proof -
  have exp: "quiet_jobs (jobs db) (jobs (expire_dedupe now svc task key db))" for task key
    unfolding expire_dedupe_def by (simp add: quiet_jobs_update quiet_def job_key_def)
  have ins: "\<exists>j. j_state j \<noteq> Running \<and> jobs db' = jobs db1 @ [j]"
    if "insert_started env now svc q' db1 = Inr (v, db')" for q' db1
    using that
    by (auto simp: insert_started_def insert_job_def new_job_def dest!: insert_event_jobs
        split: option.splits if_splits)
  show ?thesis
    using assms exp ins
    by (auto simp: start_job_def Let_def split: if_splits option.splits intro!: quiet_jobs_append)
      (metis exp quiet_jobs_append quiet_jobs_refl)+
qed

lemma exec_op_quiet:
  assumes ok: "exec_op env now op db = Inr db'" and nolease: "\<not> is_lease op"
  shows "quiet_jobs (jobs db) (jobs db')"
proof (cases op)
  case (OpStart svc q)
  with ok show ?thesis by (cases "start_job env now svc q db") (auto dest: start_job_quiet)
next
  case (OpCancel svc i)
  with ok show ?thesis
    by (auto simp: cancel_job_def Let_def split: if_splits option.splits elim: transition_quiet)
next
  case (OpRetry svc i)
  with ok show ?thesis
    by (auto simp: retry_job_def Let_def split: if_splits option.splits elim: transition_quiet)
next
  case (OpPurge svc)
  with ok show ?thesis by (auto simp: purge_expired_jobs_def Let_def intro: quiet_jobs_filter)
next
  case (OpLease locked svc worker lease task token)
  with nolease show ?thesis by simp
next
  case (OpComplete svc i worker lease result)
  with ok show ?thesis
    by (auto simp: complete_leased_job_def finish_job_def Let_def split: if_splits option.splits
        elim: transition_quiet)
next
  case (OpFail svc i worker lease err)
  with ok show ?thesis
    by (auto simp: fail_leased_job_def fail_or_retry_job_def Let_def split: if_splits option.splits
        elim: transition_quiet)
next
  case (OpHeartbeat svc i worker lease)
  with ok show ?thesis
    by (auto simp: heartbeat_job_def update_one_def Let_def quiet_def job_key_def split: if_splits
        intro!: quiet_jobs_update)
next
  case (OpSignal svc i name key payload)
  with ok show ?thesis by (auto simp: signal_job_def Let_def dest!: insert_event_jobs split: if_splits)
qed (use ok in \<open>auto simp: reconcile_tasks_def save_step_def upsert_schedule_def advance_schedule_def
      create_worker_token_def authenticate_worker_token_def Let_def split: if_splits option.splits\<close>)

lemma recover_jobs:
  assumes "recover_expired_jobs now svc task db = Inr db'"
  shows "jobs db' = sql_update (expired now svc task) (recover_row now) (jobs db)" "tasks db' = tasks db"
  using append_recovered_effect [OF assms [unfolded recover_expired_jobs_def]] by simp_all

text \<open>A lease recovers the expired jobs first and then takes at most one ready job.\<close>

lemma lease_effect:
  assumes "lease_ready_job_with_token env locked now svc worker lease task token db = Inr (r, db')"
  obtains db1 where "recover_expired_jobs now svc (trim_space task) db = Inr db1"
      "select_ready env locked now svc (trim_space task) db1 = None"
      "r = Idle (next_task_wake_delay now svc (trim_space task) db1)" "db' = db1"
  | db1 j t l where "recover_expired_jobs now svc (trim_space task) db = Inr db1"
      "select_ready env locked now svc (trim_space task) db1 = Some (j, t)"
      "jobs db' = sql_update (\<lambda>k. job_key k = (svc, j_id j) \<and> j_state k = Queued)
         (mark_running now (trim_space worker) (trim_space lease) token j t) (jobs db1)"
      "sql_count (\<lambda>k. job_key k = (svc, j_id j) \<and> j_state k = Queued) (jobs db1) = 1"
      "r = Leased l" "l_id l = j_id j" "tasks db' = tasks db1"
proof -
  from assms obtain db1 where db1: "recover_expired_jobs now svc (trim_space task) db = Inr db1"
    and rest: "(case select_ready env locked now svc (trim_space task) db1 of
        None \<Rightarrow> Inr (Idle (next_task_wake_delay now svc (trim_space task) db1), db1)
      | Some (j, t) \<Rightarrow> take_lease now svc (trim_space worker) (trim_space lease) token j t db1) = Inr (r, db')"
    by (auto simp: lease_ready_job_with_token_def Let_def split: if_splits)
  show ?thesis
  proof (cases "select_ready env locked now svc (trim_space task) db1")
    case None
    with rest have "r = Idle (next_task_wake_delay now svc (trim_space task) db1)" "db' = db1" by auto
    from that(1) [OF db1 None this] show ?thesis .
  next
    case (Some jt)
    obtain j t where jt: "jt = (j, t)" by fastforce
    with rest Some obtain l where l: "r = Leased l" "l_id l = j_id j"
      and tx: "transition_tx (RowsAffected (j_id j)) (\<lambda>k. job_key k = (svc, j_id j) \<and> j_state k = Queued)
        (mark_running now (trim_space worker) (trim_space lease) token j t) now svc (j_id j) (j_attempt j + 1)
        ''job.leased'' id db1 = Inr db'"
      by (auto simp: take_lease_def)
    have "tasks db' = tasks db1"
      using tx by (auto simp: transition_tx_def update_one_def insert_event_def split: if_splits)
    with that(2) [OF db1 Some [unfolded jt] transition_jobs [OF tx] l] show ?thesis by simp
  qed
qed

lemma leases_quiet:
  assumes "quiet_jobs (jobs db) (jobs db')" shows "leases db' \<subseteq> leases db"
proof
  fix x assume "x \<in> leases db'"
  then obtain r w l where x: "x = (job_key r, w, l)" "r \<in> set (jobs db')" "j_state r = Running"
      "j_lease_owner r = Some w" "j_lease_id r = Some l" by (auto simp: leases_def)
  from assms obtain g keep new where g: "jobs db' = map g (filter keep (jobs db)) @ new" "quiet g"
    "\<forall>j \<in> set new. j_state j \<noteq> Running" unfolding quiet_jobs_def by blast
  with x(2,3) obtain j where j: "j \<in> set (jobs db)" "r = g j" by auto
  with g(2) x(3-5) have "job_key r = job_key j" "j_state j = Running" "j_lease_owner j = Some w" "j_lease_id j = Some l"
    by (auto simp: quiet_def)
  with j(1) x(1) show "x \<in> leases db" by (auto simp: leases_def)
qed

lemma leases_taken:
  assumes "jobs db' = sql_update (\<lambda>k. job_key k = key \<and> j_state k = Queued) (mark_running now w l token j t) (jobs db)"
  shows "leases db' \<subseteq> leases db \<union> {(key, w, l)}"
  using assms by (auto simp: leases_def sql_update_def mark_running_def job_key_def split: if_splits)

lemma step_leases:
  assumes "durable_step env op db db'" "((svc, i), w, l) \<in> leases db'"
  shows "((svc, i), w, l) \<in> leases db \<or> lease_granted env svc i w l op db db'"
  using assms(1)
proof (cases rule: durable_step.cases)
  case (committed now)
  show ?thesis
  proof (cases "is_lease op")
    case False
    then have "quiet_jobs (jobs db) (jobs db')" using exec_op_quiet [OF committed] by blast
    then show ?thesis using leases_quiet assms(2) by blast
  next
    case True
    then obtain locked svc' worker lease task token where op: "op = OpLease locked svc' worker lease task token"
      by (cases op) auto
    from committed op obtain r
      where lease: "lease_ready_job_with_token env locked now svc' worker lease task token db = Inr (r, db')"
      by (cases "lease_ready_job_with_token env locked now svc' worker lease task token db") auto
    then show ?thesis
    proof (cases rule: lease_effect)
      case (1 db1)
      then have "leases db' \<subseteq> leases db"
        using recover_jobs(1) [OF 1(1)] by (intro leases_quiet) (simp add: quiet_jobs_update)
      with assms(2) show ?thesis by blast
    next
      case (2 db1 j t r')
      have "leases db1 \<subseteq> leases db"
        using recover_jobs(1) [OF 2(1)] by (intro leases_quiet) (simp add: quiet_jobs_update)
      with leases_taken [OF 2(3)] assms(2) have "((svc, i), w, l) \<in> leases db
          \<or> svc = svc' \<and> i = j_id j \<and> w = trim_space worker \<and> l = trim_space lease" by auto
      with 2(5,6) lease op show ?thesis unfolding lease_granted_def by blast
    qed
  qed
qed (use assms(2) in simp)

lemma trace_leases:
  assumes "trace (\<lambda>op d d'. durable_step env op d d' \<and> \<not> lease_granted env svc i w l op d d') db ops db'"
    and "((svc, i), w, l) \<notin> leases db"
  shows "((svc, i), w, l) \<notin> leases db'"
  using assms by (induction rule: trace.induct) (auto dest: step_leases)

lemma find_of_filter: "filter P xs = x # ys \<Longrightarrow> find P xs = Some x"
  by (induction xs) (auto split: if_splits)

lemma held_lease:
  assumes "find (running_held svc i w l) (jobs db) = Some j" "w \<noteq> []"
  shows "((svc, i), w, l) \<in> leases db"
  using assms by (auto simp: find_Some_iff running_held_def holds_lease_def leases_def) (metis nth_mem)

text \<open>
  C1. A worker with a non-empty name that does not hold the lease of a job, because the lease expired and was
  recovered, the job was canceled or another worker has it, cannot complete, fail or extend the job,
  whatever happens in between, as long as no call leases this job to this worker under this lease.
\<close>

theorem stale_lease_is_fenced:
  assumes "trace (\<lambda>op d d'. durable_step env op d d'
        \<and> \<not> lease_granted env svc (trim_space i) (trim_space w) (trim_space l) op d d') db ops db'"
    and "((svc, trim_space i), trim_space w, trim_space l) \<notin> leases db" and "trim_space w \<noteq> []"
  shows "(\<exists>e. complete_leased_job now svc i w l result db' = Inl e)
    \<and> (\<exists>e. fail_leased_job now svc i w l err db' = Inl e)
    \<and> (\<exists>e. heartbeat_job now svc i w l db' = Inl e)"
proof -
  let ?i = "trim_space i" and ?w = "trim_space w" and ?l = "trim_space l"
  have no: "((svc, ?i), ?w, ?l) \<notin> leases db'" using trace_leases [OF assms(1,2)] .
  then have none: "find (running_held svc ?i ?w ?l) (jobs db') = None"
    using held_lease [OF _ assms(3)] by (metis option.exhaust)
  let ?P = "\<lambda>j. job_key j = (svc, ?i) \<and> j_state j = Running \<and> j_lease_owner j = Some ?w \<and> j_lease_id j = Some ?l"
  have "filter ?P (jobs db') = []"
    using no by (auto simp: filter_empty_conv leases_def)
  then have "sql_count ?P (jobs db') \<noteq> 1" by (simp add: sql_count_def)
  then have "\<exists>e. heartbeat_job now svc i w l db' = Inl e"
    by (auto simp: heartbeat_job_def update_one_def Let_def)
  with none show ?thesis
    by (auto simp: complete_leased_job_def finish_job_def fail_leased_job_def fail_or_retry_job_def Let_def)
qed

text \<open>
  C38. The check rests on the worker: with an empty worker name, which the HTTP handlers of \<open>complete\<close>
  pass on unchecked, any running job is completed, whoever holds its lease.
\<close>

theorem empty_worker_bypasses_lease:
  assumes "durable_inv db" "j \<in> set (jobs db)" "j_state j = Running" "job_key j = (svc, i)"
    "trim_space i = i" "i \<noteq> []"
  shows "\<exists>db' j'. complete_leased_job now svc i [] l result db = Inr db'
    \<and> j' \<in> set (jobs db') \<and> job_key j' = (svc, i) \<and> j_state j' = Succeeded \<and> j_result_blob j' = result"
proof -
  have t: "trim_space [] = []" by code_simp
  let ?P = "running_held svc i [] (trim_space l)"
  have P: "?P j" using assms(3,4) by (simp add: running_held_def holds_lease_def)
  have "filter ?P (jobs db) = filter ?P (filter (\<lambda>k. job_key k = job_key j) (jobs db))"
    using assms(4) by (auto simp: running_held_def intro!: filter_cong)
  also have "\<dots> = [j]"
    using filter_key_unique [OF durable_invD(1) [OF assms(1)] assms(2)] P by simp
  finally have f: "filter ?P (jobs db) = [j]" .
  then have one: "sql_count ?P (jobs db) = 1" by (simp add: sql_count_def)
  from f have find: "find ?P (jobs db) = Some j" by (rule find_of_filter)
  let ?f = "finish_row now Succeeded ''json'' result None"
  let ?jobs = "sql_update ?P ?f (jobs db)"
  have "?f j \<in> set ?jobs" using assms(2) P by (auto simp: sql_update_def)
  moreover have fj: "job_key (?f j) = (svc, i) \<and> j_state (?f j) = Succeeded \<and> j_result_blob (?f j) = result"
    using assms(4) by (simp add: finish_row_def clear_lease_def job_key_def)
  moreover have "(svc, i) \<in> job_key ` set ?jobs" using calculation by (metis imageI)
  ultimately show ?thesis
    using assms(5,6) t find one
    by (auto simp: complete_leased_job_def finish_job_def Let_def transition_tx_def update_one_def
        insert_event_def notify_tx_def)
qed

section \<open>The concurrency limit\<close>

definition group_running :: "durable_db \<Rightarrow> string \<Rightarrow> string \<Rightarrow> string \<Rightarrow> nat" where
  "group_running db svc name key =
     sql_count (\<lambda>r. j_service r = svc \<and> j_task r = name \<and> opt_or (j_concurrency_key r) [] = key
        \<and> j_state r = Running) (jobs db)"

definition within_limits :: "durable_db \<Rightarrow> bool" where
  "within_limits db \<longleftrightarrow>
     (\<forall>t \<in> set (tasks db). 0 < t_max_concurrency t \<longrightarrow>
        (\<forall>key. int (group_running db (t_service t) (t_name t) key) \<le> t_max_concurrency t))"

definition keeps_tasks :: "durable_op \<Rightarrow> bool" where
  "keeps_tasks op = (case op of OpReconcile svc ds \<Rightarrow> False | _ \<Rightarrow> True)"

lemma sql_count_mono: "(\<And>r. P r \<Longrightarrow> Q r) \<Longrightarrow> sql_count P rows \<le> sql_count Q rows"
  unfolding sql_count_def by (induction rows) auto

lemma sql_count_filter_le: "sql_count P (filter Q rows) \<le> sql_count P rows"
  unfolding sql_count_def by (induction rows) auto

lemma sql_count_update:
  "sql_count Q (sql_update P f rows) \<le> sql_count Q rows + sql_count (\<lambda>r. P r \<and> Q (f r)) rows"
  unfolding sql_count_def sql_update_def by (induction rows) auto

lemma sql_count_quiet:
  assumes "quiet_jobs rows rows'"
  shows "sql_count (\<lambda>r. R (j_service r) (j_task r) (j_concurrency_key r) (job_key r) \<and> j_state r = Running) rows'
    \<le> sql_count (\<lambda>r. R (j_service r) (j_task r) (j_concurrency_key r) (job_key r) \<and> j_state r = Running) rows"
    (is "sql_count ?Q rows' \<le> sql_count ?Q rows")
proof -
  from assms obtain g keep new where g: "rows' = map g (filter keep rows) @ new" "quiet g"
    "\<forall>j \<in> set new. j_state j \<noteq> Running" unfolding quiet_jobs_def by blast
  have "sql_count ?Q new = 0" using g(3) by (auto simp: sql_count_def filter_empty_conv)
  then have "sql_count ?Q rows' = sql_count (\<lambda>r. ?Q (g r)) (filter keep rows)"
    by (simp add: g(1) sql_count_def filter_map comp_def)
  also have "\<dots> \<le> sql_count ?Q (filter keep rows)"
    using g(2) by (intro sql_count_mono) (auto simp: quiet_def)
  also have "\<dots> \<le> sql_count ?Q rows" by (rule sql_count_filter_le)
  finally show ?thesis .
qed

lemma group_running_quiet:
  "quiet_jobs (jobs db) (jobs db') \<Longrightarrow> group_running db' svc name key \<le> group_running db svc name key"
  unfolding group_running_def
  using sql_count_quiet [of "jobs db" "jobs db'" "\<lambda>s n c k. s = svc \<and> n = name \<and> opt_or c [] = key"]
  by (simp add: conj_assoc)

lemma within_limits_mono:
  assumes "within_limits db" "tasks db' = tasks db"
    and "\<And>s n k. group_running db' s n k \<le> group_running db s n k"
  shows "within_limits db'"
  unfolding within_limits_def assms(2)
proof (intro ballI impI allI)
  fix t key assume "t \<in> set (tasks db)" "0 < t_max_concurrency t"
  with assms(1) have "int (group_running db (t_service t) (t_name t) key) \<le> t_max_concurrency t"
    by (simp add: within_limits_def)
  moreover have "group_running db' (t_service t) (t_name t) key \<le> group_running db (t_service t) (t_name t) key"
    by (rule assms(3))
  ultimately show "int (group_running db' (t_service t) (t_name t) key) \<le> t_max_concurrency t" by simp
qed

lemma exec_op_tasks:
  assumes "exec_op env now op db = Inr db'" "keeps_tasks op" shows "tasks db' = tasks db"
proof (cases op)
  case (OpStart svc q)
  then obtain v where "start_job env now svc q db = Inr (v, db')"
    using assms(1) by (cases "start_job env now svc q db") auto
  then show ?thesis
    by (auto simp: start_job_def insert_started_def insert_job_def insert_event_def notify_tx_def
        expire_dedupe_def Let_def split: if_splits option.splits)
next
  case (OpLease locked svc worker lease task token)
  then obtain r where "lease_ready_job_with_token env locked now svc worker lease task token db = Inr (r, db')"
    using assms(1) by (cases "lease_ready_job_with_token env locked now svc worker lease task token db") auto
  then show ?thesis by (cases rule: lease_effect) (auto dest: recover_jobs(2))
qed (use assms in \<open>auto simp: keeps_tasks_def cancel_job_def retry_job_def purge_expired_jobs_def
      complete_leased_job_def finish_job_def fail_leased_job_def fail_or_retry_job_def heartbeat_job_def
      transition_tx_def update_one_def insert_event_def notify_tx_def save_step_def signal_job_def
      upsert_schedule_def advance_schedule_def create_worker_token_def authenticate_worker_token_def Let_def
      split: if_splits option.splits\<close>)

section \<open>Deduplication\<close>

text \<open>
  Starting a job with the deduplication key of a job whose key has not expired starts nothing: it
  returns that job, in whatever state it is, and leaves the database as it is.
\<close>

theorem start_returns_existing_job:
  assumes "durable_inv db" "j \<in> set (jobs db)"
    and "j_service j = svc" "j_task j = trim_space (q_task q)" "j_dedupe_key j = Some (trim_space (q_dedupe_key q))"
    and "j_dedupe_expires_at j = Some expires" "now < expires"
    and "trim_space (q_id q) \<noteq> []" "trim_space (q_task q) \<noteq> []" "q_input_blob q \<noteq> []"
      "trim_space (q_dedupe_key q) \<noteq> []"
  shows "start_job env now svc q db =
    Inr (\<lparr>v_id = j_id j, v_task = j_task j, v_state = j_state j, v_dedupe_key = trim_space (q_dedupe_key q)\<rparr>, db)"
proof -
  let ?key = "trim_space (q_dedupe_key q)" and ?task = "trim_space (q_task q)"
  have only: "r = j" if "r \<in> set (jobs db)" "j_service r = svc" "j_task r = ?task" "j_dedupe_key r = Some ?key" for r
  proof -
    have "job_key r = job_key j"
      using durable_invD(5) [OF assms(1)] that assms(2-5) unfolding unique_dedupe_def by (metis option.distinct(1))
    with assms(1) that(1) assms(2) show ?thesis by (rule durable_inv_key)
  qed
  have "sql_update (\<lambda>r. j_service r = svc \<and> j_task r = ?task \<and> j_dedupe_key r = Some ?key
      \<and> (case j_dedupe_expires_at r of None \<Rightarrow> False | Some t \<Rightarrow> t \<le> now)) f (jobs db) = jobs db" for f
    unfolding sql_update_def using only assms(6,7) by (intro map_idI) auto
  then have exp: "expire_dedupe now svc ?task ?key db = db" by (simp add: expire_dedupe_def)
  have "find (\<lambda>r. j_service r = svc \<and> j_task r = ?task \<and> j_dedupe_key r = Some ?key) (jobs db) = Some j"
  proof (cases "find (\<lambda>r. j_service r = svc \<and> j_task r = ?task \<and> j_dedupe_key r = Some ?key) (jobs db)")
    case None
    with assms(2-5) show ?thesis by (auto simp: find_None_iff)
  next
    case (Some r)
    then have "r \<in> set (jobs db)" "j_service r = svc" "j_task r = ?task" "j_dedupe_key r = Some ?key"
      by (auto simp: find_Some_iff)
    with only Some show ?thesis by simp
  qed
  then have "job_by_dedupe_key svc ?task ?key db =
      Some \<lparr>v_id = j_id j, v_task = j_task j, v_state = j_state j, v_dedupe_key = ?key\<rparr>"
    using assms(5) by (simp add: job_by_dedupe_key_def opt_or_def)
  with assms(8-11) exp show ?thesis
    by (simp add: start_job_def normalize_start_def existing_job_def Let_def)
qed

section \<open>The choice of the next job\<close>

lemma pick_first_least:
  assumes "\<And>a b. before a b \<or> before b a" "\<And>a b c. before a b \<Longrightarrow> before b c \<Longrightarrow> before a c"
    and "pick_first before xs = Some x"
  shows "\<forall>y \<in> set xs. before x y"
  using assms(3)
proof (induction xs arbitrary: x)
  case (Cons z zs)
  have refl: "before a a" for a using assms(1) [of a a] by simp
  show ?case
  proof (cases "pick_first before zs")
    case None
    with Cons.prems refl show ?thesis by simp
  next
    case (Some y)
    with Cons.IH have y: "\<forall>v \<in> set zs. before y v" by simp
    show ?thesis
    proof (cases "before z y")
      case True
      with Cons.prems Some y refl assms(2) [OF True] show ?thesis by auto
    next
      case False
      then have "before y z" using assms(1) by blast
      with False Cons.prems Some y show ?thesis by auto
    qed
  qed
qed simp

lemma lease_before_order:
  assumes "\<And>a b. collate_le env a b \<or> collate_le env b a"
    and "\<And>a b c. collate_le env a b \<Longrightarrow> collate_le env b c \<Longrightarrow> collate_le env a c"
  shows "lease_before env j k \<or> lease_before env k j"
    and "lease_before env j k \<Longrightarrow> lease_before env k l \<Longrightarrow> lease_before env j l"
  using assms(1) [of "j_id j" "j_id k"] assms(2) [of "j_id j" "j_id k" "j_id l"]
  by (auto simp: lease_before_def)

text \<open>
  What a worker may be given: a queued job of the task that is due, with an enabled task of its
  revision, and fewer jobs of its concurrency key running than a positive limit of the task.
\<close>

definition due_for_lease :: "timestamp \<Rightarrow> string \<Rightarrow> string \<Rightarrow> durable_db \<Rightarrow> job_row \<Rightarrow> task_row \<Rightarrow> bool" where
  "due_for_lease now svc task db j t \<longleftrightarrow>
     j \<in> set (jobs db) \<and> t \<in> set (tasks db) \<and> (j_service j, j_task j) = (svc, task) \<and> task_key t = (svc, task)
     \<and> t_enabled t \<and> t_version t = j_version j \<and> j_state j = Queued \<and> \<not> now < j_run_after j
     \<and> (0 < t_max_concurrency t \<longrightarrow>
          int (group_running db svc task (opt_or (j_concurrency_key j) [])) < t_max_concurrency t)"

lemma ready_due:
  "j \<in> set (jobs db) \<Longrightarrow> t \<in> set (tasks db) \<Longrightarrow> ready now svc task db j t \<longleftrightarrow> due_for_lease now svc task db j t"
  by (auto simp: ready_def due_for_lease_def task_key_def running_in_group_def group_running_def same_group_def
      conj_assoc not_less)

text \<open>
  C29. A lease goes to the first job that is due: after the expired jobs of the task are recovered, the
  leased job is due for a lease and locked by nobody, and every other such job has a lower
  priority, or the same priority and a later creation, or the same both and an identifier that
  does not come before. The text collation is assumed to be a total preorder.
\<close>

theorem lease_takes_first_ready:
  assumes "\<And>a b. collate_le env a b \<or> collate_le env b a"
    and "\<And>a b c. collate_le env a b \<Longrightarrow> collate_le env b c \<Longrightarrow> collate_le env a c"
    and "lease_ready_job_with_token env locked now svc worker lease task token db = Inr (Leased l, db')"
  shows "\<exists>db1 j t. recover_expired_jobs now svc (trim_space task) db = Inr db1
    \<and> due_for_lease now svc (trim_space task) db1 j t \<and> \<not> locked j t \<and> l_id l = j_id j
    \<and> (\<forall>j' t'. due_for_lease now svc (trim_space task) db1 j' t' \<longrightarrow> \<not> locked j' t' \<longrightarrow>
         j_priority j' < j_priority j
         \<or> j_priority j' = j_priority j \<and> j_created_at j < j_created_at j'
         \<or> j_priority j' = j_priority j \<and> j_created_at j = j_created_at j' \<and> collate_le env (j_id j) (j_id j'))"
  using assms(3)
proof (cases rule: lease_effect)
  case (2 db1 j t l')
  note j = select_ready_Some [OF 2(2)]
  have least: "\<forall>x \<in> set (filter (\<lambda>(j, t). ready now svc (trim_space task) db1 j t \<and> \<not> locked j t)
      (List.product (jobs db1) (tasks db1))). lease_before env j (fst x)"
    using pick_first_least [OF _ _ 2(2) [unfolded select_ready_def]]
      lease_before_order [OF assms(1,2)] by fastforce
  have before: "lease_before env j j'"
    if "due_for_lease now svc (trim_space task) db1 j' t'" "\<not> locked j' t'" for j' t'
  proof -
    from that(1) have m: "j' \<in> set (jobs db1)" "t' \<in> set (tasks db1)" by (simp_all add: due_for_lease_def)
    with that have "ready now svc (trim_space task) db1 j' t'" by (simp add: ready_due)
    with m that(2) bspec [OF least, of "(j', t')"] show ?thesis by simp
  qed
  have "due_for_lease now svc (trim_space task) db1 j t" using j by (simp add: ready_due)
  moreover have "\<forall>j' t'. due_for_lease now svc (trim_space task) db1 j' t' \<longrightarrow> \<not> locked j' t' \<longrightarrow>
      j_priority j' < j_priority j
      \<or> j_priority j' = j_priority j \<and> j_created_at j < j_created_at j'
      \<or> j_priority j' = j_priority j \<and> j_created_at j = j_created_at j' \<and> collate_le env (j_id j) (j_id j')"
    by (intro allI impI, drule (1) before) (auto simp: lease_before_def)
  ultimately show ?thesis using 2(1,5,6) j(4) by blast
qed simp

text \<open>
  C30. A lease call that returns no job left nothing undone: no running job of the task is past its
  lease or timeout, every ready job is locked by another transaction, and the caller is told to come
  back after at least ten milliseconds and at most ten seconds.
\<close>

theorem lease_idle_means_no_work:
  assumes "lease_ready_job_with_token env locked now svc worker lease task token db = Inr (Idle delay, db')"
  shows "(\<forall>j \<in> set (jobs db'). \<not> expired now svc (trim_space task) j)
    \<and> (\<forall>j \<in> set (jobs db'). \<forall>t \<in> set (tasks db'). ready now svc (trim_space task) db' j t \<longrightarrow> locked j t)
    \<and> 10000000 \<le> delay \<and> delay \<le> 10000000000"
  using assms
proof (cases rule: lease_effect)
  case (1 db1)
  have "\<not> expired now svc (trim_space task) j" if "j \<in> set (jobs db')" for j
    using that recover_jobs(1) [OF 1(1)] 1(4)
    by (auto simp: sql_update_def expired_def recover_row_def split: if_splits)
  moreover have "\<forall>j \<in> set (jobs db'). \<forall>t \<in> set (tasks db'). ready now svc (trim_space task) db' j t \<longrightarrow> locked j t"
    using 1(2,4) by (auto simp: select_ready_def filter_empty_conv)
  moreover have "10000000 \<le> task_wake_delay s \<and> task_wake_delay s \<le> 10000000000" for s
    unfolding task_wake_delay_def by (simp add: le_floor_iff floor_le_iff min_def max_def)
  then have "10000000 \<le> delay \<and> delay \<le> 10000000000" using 1(3) by (simp add: next_task_wake_delay_def Let_def)
  ultimately show ?thesis by blast
qed simp

text \<open>
  C40. The delay before a retry is positive and never above the configured maximum, a minute where none
  is configured. From one attempt to a later one it does not shrink, except with a backoff factor
  between zero and one, which the contract accepts: then it does not grow.
\<close>

theorem retry_delay_bounds:
  "0 < retry_delay_seconds attempt initial max_ms backoff
   \<and> retry_delay_seconds attempt initial max_ms backoff \<le> (if max_ms \<le> 0 then 60 else of_int max_ms / 1000)
   \<and> (attempt \<le> attempt' \<longrightarrow>
        (if 0 < backoff \<and> backoff < 1
         then retry_delay_seconds attempt' initial max_ms backoff \<le> retry_delay_seconds attempt initial max_ms backoff
         else retry_delay_seconds attempt initial max_ms backoff \<le> retry_delay_seconds attempt' initial max_ms backoff))"
proof -
  define factor where "factor = (if backoff \<le> 0 then 2 else backoff)"
  define first :: rat where "first = of_int (if initial \<le> 0 then 1000 else initial)"
  define limit :: rat where "limit = of_int (if max_ms \<le> 0 then 60000 else max_ms)"
  have f: "0 < factor" "0 < first" "0 < limit" by (auto simp: factor_def first_def limit_def)
  have eq: "retry_delay_seconds a initial max_ms backoff = min limit (first * factor ^ nat (max 0 (a - 1))) / 1000" for a
    unfolding retry_delay_seconds_def factor_def [symmetric] first_def [symmetric] limit_def [symmetric]
      Let_def min_def by auto
  have "0 < first * factor ^ nat (max 0 (attempt - 1))" using f by simp
  moreover have "(if max_ms \<le> 0 then 60 else of_int max_ms / 1000) = limit / 1000" by (simp add: limit_def)
  moreover have "first * factor ^ nat (max 0 (attempt' - 1)) \<le> first * factor ^ nat (max 0 (attempt - 1))"
    if "attempt \<le> attempt'" "0 < backoff" "backoff < 1"
    using that f by (simp add: factor_def power_decreasing)
  moreover have "first * factor ^ nat (max 0 (attempt - 1)) \<le> first * factor ^ nat (max 0 (attempt' - 1))"
    if "attempt \<le> attempt'" "\<not> (0 < backoff \<and> backoff < 1)"
    using that f by (auto simp: factor_def intro!: power_increasing)
  ultimately show ?thesis using f(3) unfolding eq by (auto simp: divide_right_mono min_def)
qed

section \<open>Reconciliation of tasks\<close>

lemma declare_tasks_Cons:
  assumes "declare_tasks (d # ds) acc = Inr declared"
  shows "declare_tasks ds ((d_name (normalize_task d), d_version (normalize_task d)) # acc) = Inr declared"
    and "map_of acc (d_name (normalize_task d)) = Some v \<Longrightarrow> v = d_version (normalize_task d)"
  using assms by (auto simp: Let_def split: if_splits option.splits)

lemma declare_tasks_keeps:
  "declare_tasks ds acc = Inr declared \<Longrightarrow> map_of acc x = Some v \<Longrightarrow> map_of declared x = Some v"
proof (induction ds arbitrary: acc)
  case (Cons d ds)
  have "map_of ((d_name (normalize_task d), d_version (normalize_task d)) # acc) x = Some v"
    using Cons.prems(2) declare_tasks_Cons(2) [OF Cons.prems(1), of v] by auto
  with Cons.IH [OF declare_tasks_Cons(1) [OF Cons.prems(1)]] show ?case by blast
qed simp

lemma declare_tasks_version:
  "declare_tasks ds acc = Inr declared \<Longrightarrow> d \<in> set ds \<Longrightarrow>
     map_of declared (d_name (normalize_task d)) = Some (d_version (normalize_task d))"
proof (induction ds arbitrary: acc)
  case (Cons e ds)
  note rest = declare_tasks_Cons(1) [OF Cons.prems(1)]
  show ?case
  proof (cases "d \<in> set ds")
    case True
    with Cons.IH [OF rest] show ?thesis .
  next
    case False
    with Cons.prems(2) have "d = e" by simp
    with declare_tasks_keeps [OF rest] show ?thesis by simp
  qed
qed simp

lemma declare_tasks_only:
  "declare_tasks ds acc = Inr declared \<Longrightarrow> map_of declared x = Some v \<Longrightarrow>
     map_of acc x = Some v \<or> (\<exists>d \<in> set ds. d_name (normalize_task d) = x)"
proof (induction ds arbitrary: acc)
  case (Cons d ds)
  from Cons.IH [OF declare_tasks_Cons(1) [OF Cons.prems(1)] Cons.prems(2)] show ?case
    by (auto split: if_splits)
qed simp

definition provides :: "task_row list \<Rightarrow> string \<Rightarrow> string \<Rightarrow> int \<Rightarrow> bool" where
  "provides ts svc name ver \<longleftrightarrow> (\<exists>t \<in> set ts. task_key t = (svc, name) \<and> t_enabled t \<and> t_version t = ver)"

lemma upsert_task_provides:
  "provides (upsert_task now svc d reqs ts) svc (d_name d) (d_version d)"
proof (cases "(svc, d_name d) \<in> task_key ` set ts")
  case True
  then obtain t where "t \<in> set ts" "task_key t = (svc, d_name d)" by auto
  then have "task_of_declaration now svc d reqs (t_created_at t) \<in> set (upsert_task now svc d reqs ts)"
    using True by (force simp: upsert_task_def sql_update_def)
  then show ?thesis unfolding provides_def
    by (rule bexI [rotated]) (simp add: task_of_declaration_def task_key_def)
next
  case False
  then show ?thesis by (simp add: provides_def upsert_task_def task_of_declaration_def task_key_def)
qed

lemma upsert_task_keeps:
  "name \<noteq> d_name d \<Longrightarrow> provides ts svc name ver \<Longrightarrow> provides (upsert_task now svc d reqs ts) svc name ver"
  by (force simp: provides_def upsert_task_def sql_update_def)

lemma upsert_tasks_provides:
  assumes "upsert_tasks env now svc ds ts = Inr ts'"
    and "\<forall>d \<in> set ds. d_name (normalize_task d) = name \<longrightarrow> d_version (normalize_task d) = ver"
    and "provides ts svc name ver \<or> (\<exists>d \<in> set ds. d_name (normalize_task d) = name)"
  shows "provides ts' svc name ver"
  using assms
proof (induction ds arbitrary: ts)
  case (Cons d ds)
  let ?n = "normalize_task d"
  from Cons.prems(1) obtain reqs where rest: "upsert_tasks env now svc ds (upsert_task now svc ?n reqs ts) = Inr ts'"
    by (auto simp: Let_def split: if_splits option.splits)
  have "provides (upsert_task now svc ?n reqs ts) svc name ver \<or> (\<exists>d \<in> set ds. d_name (normalize_task d) = name)"
  proof (cases "d_name ?n = name")
    case True
    with Cons.prems(2) upsert_task_provides [of now svc ?n reqs ts] show ?thesis by auto
  next
    case False
    with Cons.prems(3) upsert_task_keeps [of name ?n ts svc ver now reqs] show ?thesis by auto
  qed
  with Cons.IH [OF rest] Cons.prems(2) show ?case by simp
qed simp

lemma check_revisions_iff:
  "check_revisions declared rs = Inr () \<longleftrightarrow> (\<forall>(name, ver, count) \<in> set rs. map_of declared name = Some ver)"
  by (induction declared rs rule: check_revisions.induct) (auto split: option.splits)

text \<open>
  C31. When a service reconciles its tasks, the declaration is accepted only if it provides the revision
  of every queued or running job of the service: afterwards each of these jobs has an enabled task of
  its own revision, so it can still be leased, and the jobs themselves are unchanged.
\<close>

theorem reconcile_keeps_active_jobs_runnable:
  assumes "reconcile_tasks env now svc ds db = Inr db'"
  shows "jobs db' = jobs db
    \<and> (\<forall>j \<in> set (jobs db'). j_service j = svc \<longrightarrow> j_state j \<in> {Queued, Running} \<longrightarrow>
         (\<exists>t \<in> set (tasks db'). t_service t = svc \<and> t_name t = j_task j \<and> t_version t = j_version j \<and> t_enabled t))"
proof -
  from assms obtain declared ts where decl: "declare_tasks ds [] = Inr declared"
    and rev: "check_revisions declared (active_revisions svc db) = Inr ()" and db': "db' = db\<lparr>tasks := ts\<rparr>"
    and ts: "upsert_tasks env now svc ds (sql_update (\<lambda>t. t_service t = svc)
       (\<lambda>t. t\<lparr>t_enabled := False, t_updated_at := now\<rparr>) (tasks db)) = Inr ts"
    by (auto simp: reconcile_tasks_def)
  have "provides ts svc (j_task j) (j_version j)"
    if "j \<in> set (jobs db)" "j_service j = svc" "j_state j \<in> {Queued, Running}" for j
  proof -
    have "(j_task j, j_version j) \<in> set (map (\<lambda>j. (j_task j, j_version j)) (active_jobs svc db))"
      using that by (auto simp: active_jobs_def)
    then have "\<exists>c. (j_task j, j_version j, c) \<in> set (active_revisions svc db)"
      by (force simp: active_revisions_def Let_def)
    with rev have v: "map_of declared (j_task j) = Some (j_version j)" by (auto simp: check_revisions_iff)
    show ?thesis
    proof (rule upsert_tasks_provides [OF ts])
      show "\<forall>d \<in> set ds. d_name (normalize_task d) = j_task j \<longrightarrow> d_version (normalize_task d) = j_version j"
        using declare_tasks_version [OF decl] v by fastforce
      show "provides (sql_update (\<lambda>t. t_service t = svc) (\<lambda>t. t\<lparr>t_enabled := False, t_updated_at := now\<rparr>) (tasks db))
          svc (j_task j) (j_version j) \<or> (\<exists>d \<in> set ds. d_name (normalize_task d) = j_task j)"
        using declare_tasks_only [OF decl v] by simp
    qed
  qed
  then show ?thesis by (auto simp: db' provides_def task_key_def)
qed

end
