(* ===== verification/DurableLocks.thy ===== *)
theory DurableLocks
  imports DurableSafety
begin

text \<open>
  Lease transactions of the durable store, statement by statement, and the concurrency limit of a task.

  A lease recovers the expired jobs of its task and then selects a job with \<open>FOR UPDATE OF t, j SKIP
  LOCKED\<close>; it keeps the rows it selected and the rows it recovered locked until it commits. In between
  other transactions select, commit, roll back and change rows that are not locked. At the level
  \<open>READ COMMITTED\<close> a statement reads a snapshot of the tables taken when it starts, which may be older than
  the tables whose rows it locks: the snapshot is an argument of the selection and part of the
  events of a history. The limit holds in the histories in which every selection reads the tables it
  locks (\<open>snapshot_current\<close>); without this the code itself can exceed it.
\<close>

section \<open>The selection\<close>







section \<open>Transactions\<close>










section \<open>The invariant\<close>





lemma recover_row_keeps [simp]:
  "job_key (recover_row now r) = job_key r" "j_service (recover_row now r) = j_service r"
  "j_task (recover_row now r) = j_task r" "j_concurrency_key (recover_row now r) = j_concurrency_key r"
  "j_state (recover_row now r) \<noteq> Running"
  by (simp_all add: recover_row_def clear_lease_def job_key_def)

lemma mark_running_keeps [simp]:
  "job_key (mark_running now w l tok j t r) = job_key r" "j_service (mark_running now w l tok j t r) = j_service r"
  "j_task (mark_running now w l tok j t r) = j_task r"
  "j_concurrency_key (mark_running now w l tok j t r) = j_concurrency_key r"
  "j_state (mark_running now w l tok j t r) = Running"
  by (simp_all add: mark_running_def job_key_def)








section \<open>A commit\<close>











section \<open>The limit\<close>









section \<open>A stale snapshot\<close>









end
