(* ===== verification/DurableExamples.thy ===== *)
theory DurableExamples
  imports DurableLocks
begin

text \<open>
  A concrete history of the durable store, and the guarantees of \<open>DurableSafety\<close> and \<open>DurableLocks\<close> applied to it: a service
  declares a task that runs one job per concurrency key, starts two jobs and leases the first of them.
\<close>

definition example_env :: pg_env where
  "example_env = \<lparr>jsonb = Some, collate_le = (\<le>), ts_text = (\<lambda>_. ''now'')\<rparr>"

definition mail_task :: task_declaration where
  "mail_task =
     \<lparr>d_name = ''mail'', d_version = 0, d_handler_ref = ''send'', d_input_codec = [], d_result_codec = [],
      d_timeout_ms = 0, d_lease_ms = 0, d_max_attempts = 3, d_retry_initial_ms = 0, d_retry_max_ms = 0,
      d_retry_backoff = 0, d_retry_jitter = 0, d_success_retention_ms = 0, d_failure_retention_ms = 0,
      d_max_concurrency = 1, d_dedup_retention_ms = 0, d_dedup_conflict = [], d_requirements = []\<rparr>"

definition mail_request :: "string \<Rightarrow> string \<Rightarrow> start_request" where
  "mail_request i key =
     \<lparr>q_id = i, q_task = ''mail'', q_version = 0, q_dedupe_key = key, q_concurrency_key = [], q_priority = 0,
      q_input_codec = [], q_input_blob = ''{}'', q_requirements = [], q_labels = [], q_memo = [],
      q_created_by = ''test''\<rparr>"

definition declare_ops :: "durable_op list" where
  "declare_ops = [OpReconcile ''app'' [mail_task]]"

definition work_ops :: "durable_op list" where
  "work_ops =
     [OpStart ''app'' (mail_request ''j1'' ''daily''), OpStart ''app'' (mail_request ''j2'' []),
      OpLease (\<lambda>_ _. False) ''app'' ''w1'' ''l1'' ''mail'' []]"

fun run_ops :: "durable_op list \<Rightarrow> durable_db \<Rightarrow> durable_db" where
  "run_ops [] db = db"
| "run_ops (op # ops) db =
     run_ops ops (case exec_op example_env 0 op db of Inl e \<Rightarrow> db | Inr db' \<Rightarrow> db')"

lemma run_ops_trace: "trace (durable_step example_env) db ops (run_ops ops db)"
proof (induction ops arbitrary: db)
  case Nil
  then show ?case by (simp add: trace_Nil)
next
  case (Cons op ops)
  let ?db = "case exec_op example_env 0 op db of Inl e \<Rightarrow> db | Inr db' \<Rightarrow> db'"
  have "durable_step example_env op db ?db"
    by (cases "exec_op example_env 0 op db") (auto intro: durable_step.intros)
  then have "trace (durable_step example_env) db [op] ?db"
    using trace_snoc [OF trace_Nil] by fastforce
  from trace_append [OF Cons.IH this] show ?case by simp
qed

definition declared_db :: durable_db where
  "declared_db = run_ops declare_ops empty_db"

definition working_db :: durable_db where
  "working_db = run_ops work_ops declared_db"

lemma working_jobs:
  "map (\<lambda>j. (job_key j, j_state j, j_attempt j, j_lease_owner j)) (jobs working_db) =
     [((''app'', ''j1''), Running, 1, Some ''w1''), ((''app'', ''j2''), Queued, 0, None)]"
  by code_simp

lemma working_trace:
  "trace (durable_step example_env) empty_db (declare_ops @ work_ops) working_db"
  "trace (durable_step example_env) declared_db work_ops working_db"
  "list_all op_declares_attempts (declare_ops @ work_ops)"
proof -
  show "trace (durable_step example_env) declared_db work_ops working_db"
    unfolding working_db_def by (rule run_ops_trace)
  moreover have "trace (durable_step example_env) empty_db declare_ops declared_db"
    unfolding declared_db_def by (rule run_ops_trace)
  ultimately show "trace (durable_step example_env) empty_db (declare_ops @ work_ops) working_db"
    by (rule trace_append)
  show "list_all op_declares_attempts (declare_ops @ work_ops)"
    by (simp add: declare_ops_def work_ops_def op_declares_attempts_def mail_task_def)
qed

lemma working_inv: "durable_inv working_db"
  using working_trace(1,3) by (rule reachable_inv)

lemma working_leased:
  obtains j where "j \<in> set (jobs working_db)" "job_key j = (''app'', ''j1'')" "j_state j = Running"
    "j_attempt j = 1" "j_lease_owner j = Some ''w1''"
proof -
  from working_jobs obtain j js where "jobs working_db = j # js" "job_key j = (''app'', ''j1'')"
    "j_state j = Running" "j_attempt j = 1" "j_lease_owner j = Some ''w1''" by auto
  with that [of j] show ?thesis by simp
qed

theorem durable_log_determines_job_witness:
  "\<exists>j \<in> set (jobs working_db).
     replay (map e_type (filter (\<lambda>e. event_key e = job_key j) (events working_db))) = Some Running
   \<and> count_list (map e_type (filter (\<lambda>e. event_key e = job_key j) (events working_db))) ''job.leased'' = 1"
proof -
  obtain j where j: "j \<in> set (jobs working_db)" "j_state j = Running" "j_attempt j = 1"
    by (rule working_leased)
  from durable_log_determines_job [OF working_trace(1,3) j(1)] j show ?thesis by auto
qed

theorem durable_job_lifecycle_witness:
  "\<exists>j \<in> set (jobs working_db). j_state j = Running \<and> j_lease_until j \<noteq> None \<and> j_attempt j \<le> j_max_attempts j"
proof -
  obtain j where j: "j \<in> set (jobs working_db)" "j_state j = Running" by (rule working_leased)
  from durable_job_lifecycle [OF working_trace(1,3) j(1)] j show ?thesis by auto
qed

lemma trace_imp:
  "trace step s ls s' \<Longrightarrow> (\<And>l d d'. l \<in> set ls \<Longrightarrow> step l d d' \<Longrightarrow> step' l d d') \<Longrightarrow> trace step' s ls s'"
proof (induction rule: trace.induct)
  case (trace_snoc s ls s' l s'')
  then have "trace step' s ls s'" "step' l s' s''" by simp_all
  then show ?case by (rule trace.trace_snoc)
qed (rule trace.trace_Nil)

theorem stale_lease_is_fenced_witness:
  "(\<exists>e. complete_leased_job 5 ''app'' ''j1'' ''w0'' ''l0'' None working_db = Inl e)
   \<and> (\<exists>e. heartbeat_job 5 ''app'' ''j1'' ''w0'' ''l0'' working_db = Inl e)"
proof -
  have "leases declared_db = {}"
  proof -
    have "jobs declared_db = []" by code_simp
    then show ?thesis by (simp add: leases_def)
  qed
  moreover have "\<not> lease_granted example_env ''app'' ''j1'' ''w0'' ''l0'' op d d'" if "op \<in> set work_ops" for op d d'
    using that by (auto simp: work_ops_def lease_granted_def graphic_def)
  then have "trace (\<lambda>op d d'. durable_step example_env op d d'
      \<and> \<not> lease_granted example_env ''app'' ''j1'' ''w0'' ''l0'' op d d') declared_db work_ops working_db"
    by (intro trace_imp [OF working_trace(2)]) simp
  ultimately show ?thesis
    using stale_lease_is_fenced [of example_env "''app''" "''j1''" "''w0''" "''l0''" declared_db work_ops working_db 5 None None]
    by (simp add: graphic_def)
qed

theorem empty_worker_bypasses_lease_witness:
  "\<exists>db' j'. complete_leased_job 5 ''app'' ''j1'' [] [] (Some ''forged'') working_db = Inr db'
     \<and> j' \<in> set (jobs db') \<and> job_key j' = (''app'', ''j1'') \<and> j_state j' = Succeeded
     \<and> j_result_blob j' = Some ''forged''"
proof -
  obtain j where j: "j \<in> set (jobs working_db)" "job_key j = (''app'', ''j1'')" "j_state j = Running"
    by (rule working_leased)
  from empty_worker_bypasses_lease [OF working_inv j(1,3,2), of 5 "[]" "Some ''forged''"] show ?thesis
    by (simp add: graphic_def)
qed








theorem start_returns_existing_job_witness:
  "\<exists>v. start_job example_env 7 ''app'' (mail_request ''j9'' ''daily'') working_db = Inr (v, working_db)
     \<and> v_id v = ''j1'' \<and> v_state v = Running"
proof -
  have "map (\<lambda>j. (j_service j, j_id j, j_task j, j_state j, j_dedupe_key j, j_dedupe_expires_at j))
      (take 1 (jobs working_db)) =
      [(''app'', ''j1'', ''mail'', Running, Some ''daily'', Some 604800000000)]" by code_simp
  then obtain j js where "jobs working_db = j # js" "j_service j = ''app''" "j_id j = ''j1''" "j_task j = ''mail''"
    "j_state j = Running" "j_dedupe_key j = Some ''daily''" "j_dedupe_expires_at j = Some 604800000000"
    by (cases "jobs working_db") auto
  with start_returns_existing_job [OF working_inv, of j "''app''" "mail_request ''j9'' ''daily''" 604800000000 7 example_env]
  show ?thesis by (simp add: mail_request_def graphic_def)
qed

theorem lease_takes_first_ready_witness:
  "\<exists>l db' db1 j. lease_ready_job_with_token example_env (\<lambda>_ _. False) 0 ''app'' ''w1'' ''l1'' ''mail'' []
       (run_ops (take 2 work_ops) declared_db) = Inr (Leased l, db')
     \<and> recover_expired_jobs 0 ''app'' ''mail'' (run_ops (take 2 work_ops) declared_db) = Inr db1
     \<and> j \<in> set (jobs db1) \<and> l_id l = j_id j \<and> j_state j = Queued"
proof -
  have "case lease_ready_job_with_token example_env (\<lambda>_ _. False) 0 ''app'' ''w1'' ''l1'' ''mail'' []
      (run_ops (take 2 work_ops) declared_db) of Inr (Leased l, db') \<Rightarrow> True | _ \<Rightarrow> False" by code_simp
  then obtain l db' where lease: "lease_ready_job_with_token example_env (\<lambda>_ _. False) 0 ''app'' ''w1'' ''l1'' ''mail'' []
      (run_ops (take 2 work_ops) declared_db) = Inr (Leased l, db')"
    by (auto split: sum.splits prod.splits lease_result.splits)
  have "collate_le example_env a b \<or> collate_le example_env b a" for a b by (auto simp: example_env_def)
  moreover have "collate_le example_env a b \<Longrightarrow> collate_le example_env b c \<Longrightarrow> collate_le example_env a c" for a b c
    by (simp add: example_env_def)
  ultimately show ?thesis using lease_takes_first_ready [OF _ _ lease] lease
    by (fastforce simp: due_for_lease_def graphic_def)
qed

theorem lease_idle_means_no_work_witness:
  "\<exists>delay db'. lease_ready_job_with_token example_env (\<lambda>_ _. False) 0 ''app'' ''w2'' ''l2'' ''mail'' [] working_db
       = Inr (Idle delay, db')
     \<and> (\<forall>j \<in> set (jobs db'). \<not> expired 0 ''app'' ''mail'' j) \<and> 10000000 \<le> delay"
proof -
  have "case lease_ready_job_with_token example_env (\<lambda>_ _. False) 0 ''app'' ''w2'' ''l2'' ''mail'' [] working_db of
      Inr (Idle delay, db') \<Rightarrow> True | _ \<Rightarrow> False" by code_simp
  then obtain delay db' where lease: "lease_ready_job_with_token example_env (\<lambda>_ _. False) 0 ''app'' ''w2'' ''l2'' ''mail'' []
      working_db = Inr (Idle delay, db')"
    by (auto split: sum.splits prod.splits lease_result.splits)
  from lease_idle_means_no_work [OF lease] lease show ?thesis by (auto simp: graphic_def)
qed

theorem retry_delay_bounds_witness:
  "retry_delay_seconds 1 1000 60000 2 \<le> retry_delay_seconds 9 1000 60000 2
   \<and> retry_delay_seconds 9 1000 60000 (1 / 2) \<le> retry_delay_seconds 1 1000 60000 (1 / 2)"
  using retry_delay_bounds [of 1 1000 60000 2 9] retry_delay_bounds [of 1 1000 60000 "1 / 2" 9] by simp

theorem reconcile_keeps_active_jobs_runnable_witness:
  "\<exists>db'. reconcile_tasks example_env 3 ''app'' [mail_task] working_db = Inr db' \<and> jobs db' = jobs working_db
     \<and> (\<exists>t \<in> set (tasks db'). t_name t = ''mail'' \<and> t_enabled t)"
proof -
  have "case reconcile_tasks example_env 3 ''app'' [mail_task] working_db of
      Inr db' \<Rightarrow> True | Inl e \<Rightarrow> False" by code_simp
  then obtain db' where ok: "reconcile_tasks example_env 3 ''app'' [mail_task] working_db = Inr db'"
    by (auto split: sum.splits)
  have "map (\<lambda>j. (j_service j, j_task j, j_state j)) (take 1 (jobs working_db)) = [(''app'', ''mail'', Running)]"
    by code_simp
  then obtain j js where "jobs working_db = j # js" "j_service j = ''app''" "j_task j = ''mail''" "j_state j = Running"
    by (cases "jobs working_db") auto
  with reconcile_keeps_active_jobs_runnable [OF ok] ok show ?thesis by force
qed

end
