(* ===== verification/DecimalText.thy ===== *)
theory DecimalText
  imports Prelude
begin

text \<open>
  Decimal numerals as Go prints and reads them: \<open>strconv\<close> and \<open>math/big\<close> in base ten, \<open>%0wd\<close> of
  \<open>fmt\<close>, and the removal of zeros at either end (\<open>strings.TrimLeft\<close>, \<open>strings.TrimRight\<close> with the
  cutset \<open>"0"\<close>). The canonical numerals, those without a leading zero, are in one-to-one
  correspondence with the numbers.
\<close>

definition is_digit :: "char \<Rightarrow> bool" where
  "is_digit c \<longleftrightarrow> c \<in> set ''0123456789''"

definition digit_value :: "char \<Rightarrow> nat" where
  "digit_value c = of_char c - 48"

definition digit_char :: "nat \<Rightarrow> char" where
  "digit_char d = ''0123456789'' ! d"

fun digits :: "nat \<Rightarrow> string" where
  "digits n = (if n < 10 then [digit_char n] else digits (n div 10) @ [digit_char (n mod 10)])"

declare digits.simps [simp del]

definition number_of :: "string \<Rightarrow> nat" where
  "number_of s = foldl (\<lambda>n c. 10 * n + digit_value c) 0 s"

definition pad_digits :: "nat \<Rightarrow> nat \<Rightarrow> string" where
  "pad_digits w n = replicate (w - length (digits n)) CHR ''0'' @ digits n"

definition trim_zeros :: "string \<Rightarrow> string" where
  "trim_zeros s = dropWhile (\<lambda>c. c = CHR ''0'') s"

definition trim_zeros_right :: "string \<Rightarrow> string" where
  "trim_zeros_right s = rev (trim_zeros (rev s))"

text \<open>\<open>big.Int.String\<close> and \<open>big.Int.SetString(s, 10)\<close>, which takes an optional sign.\<close>

definition int_text :: "int \<Rightarrow> string" where
  "int_text i = (if i < 0 then CHR ''-'' # digits (nat (- i)) else digits (nat i))"

definition all_digits :: "string \<Rightarrow> bool" where
  "all_digits s \<longleftrightarrow> s \<noteq> [] \<and> list_all is_digit s"

definition read_int :: "string \<Rightarrow> int option" where
  "read_int s =
     (let sign = (s \<noteq> [] \<and> (hd s = CHR ''-'' \<or> hd s = CHR ''+'')); body = (if sign then tl s else s) in
      if \<not> all_digits body then None
      else Some (if sign \<and> hd s = CHR ''-'' then - int (number_of body) else int (number_of body)))"

section \<open>Digits\<close>

lemma less_10_cases: "d < 10 \<longleftrightarrow> d \<in> {0, 1, 2, 3, 4, 5, 6, 7, 8, 9::nat}"
  by auto

lemma digit_char [simp]: "d < 10 \<Longrightarrow> is_digit (digit_char d)" "d < 10 \<Longrightarrow> digit_value (digit_char d) = d"
  unfolding less_10_cases by (auto simp: is_digit_def digit_char_def digit_value_def)

lemma digit_value [simp]: "is_digit c \<Longrightarrow> digit_value c < 10" "is_digit c \<Longrightarrow> digit_char (digit_value c) = c"
  unfolding is_digit_def by (auto simp: digit_char_def digit_value_def)

lemma digit_value_0 [simp]: "digit_value CHR ''0'' = 0" "digit_char 0 = CHR ''0''" "is_digit CHR ''0''"
  by (simp_all add: digit_value_def digit_char_def is_digit_def)

lemma digit_char_0_iff: "d < 10 \<Longrightarrow> digit_char d = CHR ''0'' \<longleftrightarrow> d = 0"
  by (metis digit_char(2) digit_value_0(1,2))

lemma not_digit [simp]:
  "\<not> is_digit CHR ''-''" "\<not> is_digit CHR ''+''" "\<not> is_digit CHR ''.''" "\<not> is_digit CHR ''e''" "\<not> is_digit CHR ''E''"
  by (simp_all add: is_digit_def)

section \<open>Numerals\<close>

lemma number_of_Nil [simp]: "number_of [] = 0"
  by (simp add: number_of_def)

lemma number_of_snoc [simp]: "number_of (s @ [c]) = 10 * number_of s + digit_value c"
  by (simp add: number_of_def)

lemma number_of_append: "number_of (s @ t) = number_of s * 10 ^ length t + number_of t"
proof (induction t rule: rev_induct)
  case (snoc c t)
  have "number_of (s @ t @ [c]) = number_of ((s @ t) @ [c])" by simp
  also have "\<dots> = 10 * number_of (s @ t) + digit_value c" by (rule number_of_snoc)
  finally show ?case using snoc by (simp add: algebra_simps)
qed simp

lemma number_of_Cons: "number_of (c # s) = digit_value c * 10 ^ length s + number_of s"
  using number_of_append [of "[c]" s] by (simp add: number_of_def)

lemma number_of_zeros [simp]: "number_of (replicate k CHR ''0'') = 0" "number_of (replicate k CHR ''0'' @ s) = number_of s"
  by (induction k) (simp_all add: number_of_Cons number_of_append)

lemma number_of_bound: "list_all is_digit s \<Longrightarrow> number_of s < 10 ^ length s"
proof (induction s rule: rev_induct)
  case (snoc c s)
  then have "number_of s + 1 \<le> 10 ^ length s" "digit_value c < 10" by auto
  then show ?case by simp
qed simp

lemma number_of_digits [simp]: "number_of (digits n) = n"
proof (induction n rule: digits.induct)
  case (1 n)
  show ?case
  proof (cases "n < 10")
    case False
    then show ?thesis using 1 by (simp add: digits.simps [of n])
  qed (simp add: digits.simps [of n] number_of_def)
qed

lemma digits_digits [simp]: "list_all is_digit (digits n)"
  by (induction n rule: digits.induct) (simp add: digits.simps)

lemma digits_not_Nil [simp]: "digits n \<noteq> []"
  by (simp add: digits.simps [of n])

lemma all_digits_digits [simp]: "all_digits (digits n)"
  by (simp add: all_digits_def)

lemma digits_0 [simp]: "digits 0 = ''0''"
  by (simp add: digits.simps [of 0])

lemma digits_eq_iff [simp]: "digits m = digits n \<longleftrightarrow> m = n"
  by (metis number_of_digits)

text \<open>Canonical numerals.\<close>

lemma hd_digits: "0 < n \<Longrightarrow> hd (digits n) \<noteq> CHR ''0''"
proof (induction n rule: digits.induct)
  case (1 n)
  show ?case
  proof (cases "n < 10")
    case True
    then show ?thesis using 1 by (simp add: digits.simps [of n] digit_char_0_iff)
  next
    case False
    then show ?thesis using 1 by (simp add: digits.simps [of n] hd_append)
  qed
qed

lemma digits_number_of:
  assumes "all_digits s" "hd s \<noteq> CHR ''0'' \<or> length s = 1"
  shows "digits (number_of s) = s"
  using assms
proof (induction s rule: rev_induct)
  case (snoc c s)
  show ?case
  proof (cases "s = []")
    case True
    then show ?thesis using snoc.prems by (simp add: all_digits_def number_of_def digits.simps)
  next
    case False
    then have s: "all_digits s" "hd s \<noteq> CHR ''0''" "is_digit c"
      using snoc.prems by (auto simp: all_digits_def)
    then have IH: "digits (number_of s) = s" using snoc.IH by simp
    have "number_of s \<noteq> 0"
    proof
      assume "number_of s = 0"
      then show False using IH s(2) by (metis digits_0 list.sel(1))
    qed
    moreover have "(10 * number_of s + digit_value c) div 10 = number_of s"
      "(10 * number_of s + digit_value c) mod 10 = digit_value c"
      using s(3) by simp_all
    ultimately show ?thesis
      using IH s(3) by (simp add: digits.simps [of "10 * number_of s + digit_value c"])
  qed
qed (simp add: all_digits_def)

lemma digits_leading_zero: "hd (digits n) = CHR ''0'' \<longleftrightarrow> n = 0"
  using hd_digits [of n] by (cases "n = 0") auto

lemma hd_digits_digit [simp]: "is_digit (hd (digits n))"
  using digits_digits [of n] digits_not_Nil [of n] by (metis list_all_iff list.set_sel(1))

lemma last_digits_digit [simp]: "is_digit (last (digits n))"
  using digits_digits [of n] digits_not_Nil [of n] by (metis list_all_iff last_in_set)

lemma hd_digits_neq [simp]: "hd (digits n) \<noteq> CHR ''-''" "hd (digits n) \<noteq> CHR ''+''"
  using hd_digits_digit [of n] by (metis not_digit(1), metis not_digit(2))

lemma digits_length_le: "n < 10 ^ k \<Longrightarrow> 0 < k \<Longrightarrow> length (digits n) \<le> k"
proof (induction k arbitrary: n)
  case (Suc k)
  show ?case
  proof (cases "n < 10")
    case False
    then have "n div 10 < 10 ^ k" "0 < k" using Suc.prems by (auto intro!: Nat.gr0I)
    then show ?thesis using Suc.IH [of "n div 10"] False by (simp add: digits.simps [of n])
  qed (simp add: digits.simps [of n])
qed simp

lemma number_of_pad [simp]: "number_of (pad_digits w n) = n"
  by (simp add: pad_digits_def)

lemma pad_digits_inj: "pad_digits w m = pad_digits w n \<longleftrightarrow> m = n"
  using number_of_pad by metis

section \<open>Zeros at the ends\<close>

lemma trim_zeros_number [simp]: "number_of (trim_zeros s) = number_of s"
  unfolding trim_zeros_def by (induction s) (simp_all add: number_of_Cons)

lemma trim_zeros_hd: "trim_zeros s \<noteq> [] \<Longrightarrow> hd (trim_zeros s) \<noteq> CHR ''0''"
  unfolding trim_zeros_def by (rule hd_dropWhile)

lemma trim_zeros_digits: "list_all is_digit s \<Longrightarrow> list_all is_digit (trim_zeros s)"
  unfolding trim_zeros_def list_all_iff by (meson set_dropWhileD)

lemma trim_zeros_replicate [simp]: "trim_zeros (replicate k CHR ''0'' @ s) = trim_zeros s"
  unfolding trim_zeros_def by (induction k) simp_all

lemma trim_zeros_Nil: "trim_zeros s = [] \<longleftrightarrow> s = replicate (length s) CHR ''0''"
proof
  assume "trim_zeros s = []"
  then have "\<forall>c\<in>set s. c = CHR ''0''" by (simp add: trim_zeros_def dropWhile_eq_Nil_conv)
  then show "s = replicate (length s) CHR ''0''" by (simp add: replicate_length_same)
next
  assume "s = replicate (length s) CHR ''0''"
  then show "trim_zeros s = []" by (metis append.right_neutral dropWhile.simps(1) trim_zeros_def trim_zeros_replicate)
qed

lemma trim_zeros_digits_id: "0 < n \<Longrightarrow> trim_zeros (digits n) = digits n"
  unfolding trim_zeros_def using hd_digits [of n] digits_not_Nil [of n] by (cases "digits n") auto

section \<open>Signed numerals\<close>

lemma read_int_text [simp]: "read_int (int_text i) = Some i"
  by (simp add: read_int_def int_text_def Let_def)

lemma int_text_inj [simp]: "int_text i = int_text k \<longleftrightarrow> i = k"
  by (metis read_int_text option.inject)

end
