(* ===== verification/WorkspaceTx.thy ===== *)
theory WorkspaceTx
  imports DecimalText
begin

text \<open>
  Workspace transactions (\<open>src/internal/workspacetx\<close>): the publication of a set of generated files
  under a lock and a journal (\<open>publish.go\<close>), the recovery of an interrupted publication
  (\<open>recover.go\<close>) and the decision whether the owner of a transaction is still alive
  (\<open>ownership.go\<close>).

  A file system maps the component lists of absolute cleaned paths to nodes. The lock and the
  journal are files at fixed places with a JSON text; they are kept apart, as the value they decode
  to or the reason why they do not. \<open>dig\<close> is the digest function of the program, SHA-256 in
  hexadecimal. The owner record leaves out the agent pid and the time of recording, which no decision
  reads. An operation runs as a sequence of atomic changes of the workspace: it yields the
  list of the workspaces after each of them, so that a crash leaves the workspace in the first state or
  in one of that list, and the error or the final workspace. The temporary file of an atomic
  write and the names of newly created directories are not distinguished from the write itself;
  waiting for locks is not modelled.
\<close>

section \<open>File system\<close>

type_synonym fpath = "string list"

datatype fnode = File string | Directory | Symlink | Special

type_synonym fs = "fpath \<Rightarrow> fnode option"

datatype tx_error =
    DuplicateOutput string
  | PathEscapes string
  | ContainsSymlink
  | NotRegularFile string
  | ChangedAfterVerification string
  | ChangedDuringPublication string
  | AppearedDuringPublication string
  | InvalidTransactionRoot
  | InvalidLock
  | InvalidJournal
  | LegacyState
  | ActiveOwner int
  | InvalidDirectory
  | DirectoryIsSymlink
  | LockJournalDisagree
  | ReceiptEscapes
  | InvalidReceipt
  | InvalidArtifactPath
  | InvalidArtifact
  | InvalidTarget
  | BackupChanged string
  | TargetDisappeared string
  | TargetCreated string
  | TargetChanged string
  | LostBoth string
  | NoSuchFile
  | NotADirectory
  | IsADirectory
  | PrepareFailed string
  | Cancelled
  | TimedOut

text \<open>
  \<open>os.Lstat\<close>: a path whose proper prefix is a file that is not a directory fails with an error other
  than not-exist.
\<close>

definition blocks :: "fnode option \<Rightarrow> bool" where
  "blocks n = (case n of Some (File _) \<Rightarrow> True | Some Special \<Rightarrow> True | _ \<Rightarrow> False)"

definition lstat :: "fs \<Rightarrow> fpath \<Rightarrow> tx_error + fnode option" where
  "lstat fs p = (if list_ex (\<lambda>n. blocks (fs (take n p))) [0..<length p] then Inl NotADirectory else Inr (fs p))"

text \<open>
  \<open>scn.RejectPathSymlinks\<close>: the components of the path below the root are looked up in turn; the
  first that is missing, below a file or a symlink ends the walk.
\<close>

datatype symlink_check = Clean | Missing | Linked | Blocked

fun walk_symlinks :: "fs \<Rightarrow> fpath \<Rightarrow> string list \<Rightarrow> symlink_check" where
  "walk_symlinks fs current [] = Clean"
| "walk_symlinks fs current (part # parts) =
     (case fs (current @ [part]) of
        None \<Rightarrow> Missing
      | Some Symlink \<Rightarrow> Linked
      | Some Directory \<Rightarrow> walk_symlinks fs (current @ [part]) parts
      | Some _ \<Rightarrow> if parts = [] then Clean else Blocked)"

text \<open>
  \<open>os.MkdirAll\<close>, \<open>os.Rename\<close>, \<open>os.Remove\<close> and \<open>os.RemoveAll\<close>, as far as the transactions use them. \<open>os.MkdirAll\<close>
  follows a symbolic link to a directory and \<open>mkdirs\<close> fails on it: the parents of a target have been checked
  for links before, and the directories of a transaction are the program's own. \<open>os.Remove\<close> also
  removes an empty directory and \<open>remove_file\<close> refuses it: the code removes a target only after
  reading it as a regular file or where a file is expected. \<open>remove_all\<close> is one change where
  \<open>os.RemoveAll\<close> deletes entry by entry: it is applied to the directory of a transaction that has no journal, or none any more.
\<close>

fun mkdirs :: "fs \<Rightarrow> fpath \<Rightarrow> string list \<Rightarrow> tx_error + fs" where
  "mkdirs fs current [] = Inr fs"
| "mkdirs fs current (part # parts) =
     (case fs (current @ [part]) of
        None \<Rightarrow> mkdirs (fs(current @ [part] \<mapsto> Directory)) (current @ [part]) parts
      | Some Directory \<Rightarrow> mkdirs fs (current @ [part]) parts
      | Some _ \<Rightarrow> Inl NotADirectory)"

definition mkdir_all :: "fpath \<Rightarrow> fs \<Rightarrow> tx_error + fs" where
  "mkdir_all p fs = mkdirs fs [] p"

definition rename_file :: "fpath \<Rightarrow> fpath \<Rightarrow> fs \<Rightarrow> tx_error + fs" where
  "rename_file p q fs =
     (case fs p of
        None \<Rightarrow> Inl NoSuchFile
      | Some node \<Rightarrow>
          if fs (butlast q) \<noteq> Some Directory then Inl NoSuchFile
          else if fs q = Some Directory \<or> node = Directory then Inl IsADirectory
          else Inr ((fs(p := None))(q \<mapsto> node)))"

definition remove_file :: "fpath \<Rightarrow> fs \<Rightarrow> tx_error + fs" where
  "remove_file p fs =
     (case fs p of
        None \<Rightarrow> Inl NoSuchFile
      | Some Directory \<Rightarrow> Inl IsADirectory
      | Some _ \<Rightarrow> Inr (fs(p := None)))"

definition below :: "fpath \<Rightarrow> fpath \<Rightarrow> bool" where
  "below dir p \<longleftrightarrow> take (length dir) p = dir"

definition remove_all :: "fpath \<Rightarrow> fs \<Rightarrow> fs" where
  "remove_all dir fs = (\<lambda>p. if below dir p then None else fs p)"

definition atomic_write :: "fpath \<Rightarrow> string \<Rightarrow> fs \<Rightarrow> tx_error + fs" where
  "atomic_write p content fs =
     res_bind (mkdir_all (butlast p) fs) (\<lambda>fs1.
       if fs1 p = Some Directory then Inl IsADirectory else Inr (fs1(p \<mapsto> File content)))"

section \<open>Lock, journal and owner\<close>

record owner =
  o_pid :: int
  o_started_at :: string
  o_exe :: string
  o_cmdline_hash :: string
  o_created_by :: string

record entry =
  en_path :: string
  en_stage :: fpath
  en_backup :: fpath
  en_before_digest :: string
  en_after_digest :: string
  en_before_exists :: bool
  en_after_exists :: bool

record tx_lock =
  lk_owner :: owner
  lk_dir :: fpath

record journal =
  jr_owner :: owner
  jr_receipt :: "fpath option"
  jr_dir :: fpath
  jr_entries :: "entry list"

datatype 'a meta = Valid 'a | Legacy | Malformed | Irregular

record workspace =
  w_fs :: fs
  w_lock :: "tx_lock meta option"
  w_journal :: "journal meta option"

datatype owner_state = OwnerUnknown | OwnerCurrent | OwnerLive | OwnerRecoverable
datatype liveness = ProcessUnknown | ProcessLive | ProcessDead
datatype fingerprint = Partial | CompleteMatch | Mismatch

definition has_owner_fingerprint :: "owner \<Rightarrow> bool" where
  "has_owner_fingerprint w \<longleftrightarrow> o_started_at w \<noteq> [] \<or> o_cmdline_hash w \<noteq> [] \<or> o_exe w \<noteq> []"

text \<open>\<open>filepath.Base\<close> on the result of \<open>filepath.Clean\<close>.\<close>

definition path_base :: "string \<Rightarrow> string" where
  "path_base p = (if p = ''/'' then ''/'' else last (split_on CHR ''/'' p))"

definition same_exe :: "string \<Rightarrow> string \<Rightarrow> bool" where
  "same_exe left right =
     (let l = path_clean (trim_space left); r = path_clean (trim_space right)
      in l = r \<or> path_base l = path_base r)"

definition compare_owner_fingerprint :: "owner \<Rightarrow> owner \<Rightarrow> fingerprint" where
  "compare_owner_fingerprint w live =
     (if o_started_at w \<noteq> [] \<and> o_started_at live \<noteq> [] \<and> o_started_at w \<noteq> o_started_at live then Mismatch
      else if o_cmdline_hash w \<noteq> [] \<and> o_cmdline_hash live \<noteq> [] \<and> o_cmdline_hash w \<noteq> o_cmdline_hash live
      then Mismatch
      else if o_exe w \<noteq> [] \<and> o_exe live \<noteq> [] \<and> \<not> same_exe (o_exe w) (o_exe live) then Mismatch
      else if o_started_at w = [] \<or> o_started_at live = [] \<or> o_cmdline_hash w = [] \<or> o_cmdline_hash live = []
        \<or> o_exe w = [] \<or> o_exe live = []
      then Partial
      else CompleteMatch)"

definition owner_state_with_live ::
  "string \<Rightarrow> owner \<Rightarrow> owner \<Rightarrow> liveness \<Rightarrow> int \<Rightarrow> owner_state" where
  "owner_state_with_live token w live alive current_pid =
     (if o_pid w \<le> 0 \<or> \<not> has_owner_fingerprint w then OwnerUnknown
      else if o_pid w = current_pid \<and> o_created_by w = token then
        (if \<not> has_owner_fingerprint live then OwnerCurrent
         else if compare_owner_fingerprint w live = CompleteMatch then OwnerCurrent
         else OwnerUnknown)
      else if alive = ProcessDead then OwnerRecoverable
      else case compare_owner_fingerprint w live of
             Mismatch \<Rightarrow> OwnerRecoverable
           | CompleteMatch \<Rightarrow> if alive = ProcessLive then OwnerLive else OwnerUnknown
           | Partial \<Rightarrow> OwnerUnknown)"

text \<open>What the operating system reports of a process; \<open>hashCmdline\<close> digests the arguments joined by NUL.\<close>

record process_info =
  pi_started_at :: string
  pi_exe :: string
  pi_cmdline :: "string list"
  pi_liveness :: liveness

definition hash_cmdline :: "(string \<Rightarrow> string) \<Rightarrow> string list \<Rightarrow> string" where
  "hash_cmdline dig args = dig (join_with [CHR 0x00] args)"

definition capture_owner ::
  "(string \<Rightarrow> string) \<Rightarrow> (int \<Rightarrow> process_info) \<Rightarrow> int \<Rightarrow> owner \<times> liveness" where
  "capture_owner dig info pid =
     (\<lparr>o_pid = pid, o_started_at = trim_space (pi_started_at (info pid)), o_exe = trim_space (pi_exe (info pid)),
       o_cmdline_hash = (if pi_cmdline (info pid) = [] then [] else hash_cmdline dig (pi_cmdline (info pid))),
       o_created_by = []\<rparr>, pi_liveness (info pid))"

text \<open>\<open>exe\<close> and \<open>args\<close> are what \<open>os.Executable\<close> and \<open>os.Args\<close> give.\<close>

definition current_owner ::
  "(string \<Rightarrow> string) \<Rightarrow> (int \<Rightarrow> process_info) \<Rightarrow> string \<Rightarrow> string list \<Rightarrow> string \<Rightarrow> int \<Rightarrow> owner" where
  "current_owner dig info exe args token pid =
     (let w = fst (capture_owner dig info pid);
          w = w\<lparr>o_created_by := token\<rparr>;
          w = (if o_exe w = [] then w\<lparr>o_exe := exe\<rparr> else w)
      in if o_cmdline_hash w = [] then w\<lparr>o_cmdline_hash := hash_cmdline dig args\<rparr> else w)"

definition inspect_owner_state ::
  "(string \<Rightarrow> string) \<Rightarrow> string \<Rightarrow> int \<Rightarrow> (int \<Rightarrow> process_info) \<Rightarrow> owner \<Rightarrow> owner_state" where
  "inspect_owner_state dig token current_pid info w =
     (if o_pid w \<le> 0 then OwnerUnknown
      else case capture_owner dig info (o_pid w) of
        (live, alive) \<Rightarrow> owner_state_with_live token w live alive current_pid)"

section \<open>Sequences of atomic changes\<close>

type_synonym tx = "workspace \<Rightarrow> workspace list \<times> (tx_error + workspace)"

definition tx_return :: tx where
  "tx_return w = ([], Inr w)"

definition tx_fail :: "tx_error \<Rightarrow> tx" where
  "tx_fail e w = ([], Inl e)"

definition tx_check :: "(workspace \<Rightarrow> tx_error option) \<Rightarrow> tx" where
  "tx_check c w = (case c w of None \<Rightarrow> ([], Inr w) | Some e \<Rightarrow> ([], Inl e))"

definition tx_fs :: "(fs \<Rightarrow> tx_error + fs) \<Rightarrow> tx" where
  "tx_fs f w =
     (case f (w_fs w) of
        Inl e \<Rightarrow> ([], Inl e)
      | Inr fs' \<Rightarrow> ([w\<lparr>w_fs := fs'\<rparr>], Inr (w\<lparr>w_fs := fs'\<rparr>)))"

definition tx_set :: "(workspace \<Rightarrow> workspace) \<Rightarrow> tx" where
  "tx_set f w = ([f w], Inr (f w))"

definition tx_seq :: "tx \<Rightarrow> tx \<Rightarrow> tx" where
  "tx_seq a b w =
     (case a w of
        (ws, Inl e) \<Rightarrow> (ws, Inl e)
      | (ws, Inr w') \<Rightarrow> (case b w' of (ws', r) \<Rightarrow> (ws @ ws', r)))"

fun tx_all :: "tx list \<Rightarrow> tx" where
  "tx_all [] = tx_return"
| "tx_all (t # ts) = tx_seq t (tx_all ts)"

text \<open>The workspace after a failed step of \<open>a\<close> is the last of its states.\<close>

definition tx_on_error :: "tx \<Rightarrow> (tx_error \<Rightarrow> tx) \<Rightarrow> tx" where
  "tx_on_error a h w =
     (case a w of
        (ws, Inr w') \<Rightarrow> (ws, Inr w')
      | (ws, Inl e) \<Rightarrow> (case h e (last (w # ws)) of (ws', r) \<Rightarrow> (ws @ ws', r)))"

definition crash_states :: "tx \<Rightarrow> workspace \<Rightarrow> workspace set" where
  "crash_states t w = insert w (set (fst (t w)))"

section \<open>Recovery\<close>

definition tx_root :: "fpath \<Rightarrow> fpath" where
  "tx_root root = root @ [''.scenery'', ''transactions'']"

text \<open>\<open>fmt.Sprintf("%06d", i)\<close>.\<close>

definition pad6 :: "nat \<Rightarrow> string" where
  "pad6 n = pad_digits 6 n"

definition stage_path :: "fpath \<Rightarrow> nat \<Rightarrow> fpath" where
  "stage_path dir i = dir @ [''staged'', pad6 i]"

definition backup_path :: "fpath \<Rightarrow> nat \<Rightarrow> fpath" where
  "backup_path dir i = dir @ [''backups'', pad6 i]"

text \<open>
  \<open>confinedPath\<close>. For a relative path that passes these tests the joined path lies within the root, so
  the second test of the code never fails.
\<close>

definition target_path :: "fpath \<Rightarrow> string \<Rightarrow> fpath" where
  "target_path root rel = (if rel = ''.'' then root else root @ split_on CHR ''/'' rel)"

definition confined_path :: "fpath \<Rightarrow> string \<Rightarrow> tx_error + fpath" where
  "confined_path root rel =
     (if rel = [] \<or> path_is_abs rel \<or> path_clean rel \<noteq> rel \<or> rel = ''..'' \<or> has_prefix rel ''../''
      then Inl (PathEscapes rel) else Inr (target_path root rel))"

definition regular_file_bytes :: "fpath \<Rightarrow> string \<Rightarrow> fs \<Rightarrow> tx_error + string" where
  "regular_file_bytes p rel fs = (case fs p of Some (File b) \<Rightarrow> Inr b | _ \<Rightarrow> Inl (NotRegularFile rel))"

definition validate_directory :: "fpath \<Rightarrow> fpath \<Rightarrow> fs \<Rightarrow> tx_error option" where
  "validate_directory troot dir fs =
     (if dir = [] \<or> butlast dir \<noteq> troot \<or> \<not> has_prefix (last dir) ''change-'' then Some InvalidDirectory
      else if fs dir = Some Symlink then Some DirectoryIsSymlink else None)"

definition validate_artifact :: "fpath \<Rightarrow> fs \<Rightarrow> fpath \<Rightarrow> tx_error option" where
  "validate_artifact troot fs p =
     (if walk_symlinks fs troot (drop (length troot) (butlast p)) \<noteq> Clean then Some InvalidArtifactPath
      else case lstat fs p of
        Inl e \<Rightarrow> Some e
      | Inr None \<Rightarrow> None
      | Inr (Some (File _)) \<Rightarrow> None
      | Inr (Some _) \<Rightarrow> Some InvalidArtifact)"

definition opt_seq :: "tx_error option \<Rightarrow> tx_error option \<Rightarrow> tx_error option" where
  "opt_seq a b = (case a of None \<Rightarrow> b | Some e \<Rightarrow> Some e)"

fun validate_entries :: "fpath \<Rightarrow> fpath \<Rightarrow> fpath \<Rightarrow> fs \<Rightarrow> nat \<Rightarrow> entry list \<Rightarrow> tx_error option" where
  "validate_entries root troot dir fs i [] = None"
| "validate_entries root troot dir fs i (en # ens) =
     (if en_stage en \<noteq> stage_path dir i \<or> en_backup en \<noteq> backup_path dir i then Some InvalidArtifactPath
      else
        opt_seq (validate_artifact troot fs (en_stage en))
        (opt_seq (validate_artifact troot fs (en_backup en))
        (case confined_path root (en_path en) of
           Inl _ \<Rightarrow> Some InvalidTarget
         | Inr _ \<Rightarrow> validate_entries root troot dir fs (Suc i) ens)))"

definition validate_receipt :: "fpath \<Rightarrow> fpath option \<Rightarrow> fs \<Rightarrow> tx_error option" where
  "validate_receipt root receipt fs =
     (case receipt of
        None \<Rightarrow> None
      | Some p \<Rightarrow>
          if \<not> below root p then Some ReceiptEscapes
          else if fs p \<noteq> None \<and> walk_symlinks fs root (drop (length root) p) \<noteq> Clean then Some InvalidReceipt
          else None)"

definition validate_metadata :: "fpath \<Rightarrow> tx_lock option \<Rightarrow> journal \<Rightarrow> fs \<Rightarrow> tx_error option" where
  "validate_metadata root lock j fs =
     opt_seq (validate_directory (tx_root root) (jr_dir j) fs)
     (opt_seq (case lock of
          None \<Rightarrow> None
        | Some l \<Rightarrow> opt_seq (validate_directory (tx_root root) (lk_dir l) fs)
            (if lk_dir l \<noteq> jr_dir j then Some LockJournalDisagree else None))
     (opt_seq (validate_receipt root (jr_receipt j) fs)
     (validate_entries root (tx_root root) (jr_dir j) fs 0 (jr_entries j))))"

definition verify_target :: "(string \<Rightarrow> string) \<Rightarrow> fpath \<Rightarrow> entry \<Rightarrow> fs \<Rightarrow> tx_error option" where
  "verify_target dig target en fs =
     (if fs target = None
      then (if en_after_exists en \<and> fs (en_stage en) = None then Some (TargetDisappeared (en_path en)) else None)
      else case regular_file_bytes target (en_path en) fs of
        Inl e \<Rightarrow> Some e
      | Inr current \<Rightarrow>
          if \<not> en_after_exists en then Some (TargetCreated (en_path en))
          else if dig current \<noteq> en_after_digest en then Some (TargetChanged (en_path en))
          else None)"

definition has_digest :: "(string \<Rightarrow> string) \<Rightarrow> fpath \<Rightarrow> string \<Rightarrow> fs \<Rightarrow> bool" where
  "has_digest dig p d fs = (case fs p of Some (File b) \<Rightarrow> dig b = d | _ \<Rightarrow> False)"

definition remove_if_exists :: "fpath \<Rightarrow> tx" where
  "remove_if_exists p w =
     (case lstat (w_fs w) p of
        Inl e \<Rightarrow> tx_fail e w
      | Inr None \<Rightarrow> tx_return w
      | Inr _ \<Rightarrow> tx_fs (remove_file p) w)"

definition restore_backup :: "(string \<Rightarrow> string) \<Rightarrow> fpath \<Rightarrow> entry \<Rightarrow> tx" where
  "restore_backup dig target en =
     tx_all
      [tx_check (\<lambda>w. if has_digest dig (en_backup en) (en_before_digest en) (w_fs w) then None
         else Some (BackupChanged (en_path en))),
       tx_check (\<lambda>w. verify_target dig target en (w_fs w)),
       remove_if_exists target,
       tx_fs (mkdir_all (butlast target)),
       tx_fs (rename_file (en_backup en) target)]"

definition restore_entry :: "(string \<Rightarrow> string) \<Rightarrow> fpath \<Rightarrow> entry \<Rightarrow> tx" where
  "restore_entry dig root en w =
     (case confined_path root (en_path en) of
        Inl e \<Rightarrow> tx_fail e w
      | Inr target \<Rightarrow>
          if w_fs w (en_backup en) \<noteq> None then restore_backup dig target en w
          else if en_before_exists en then
            (if w_fs w target = None then tx_fail (LostBoth (en_path en)) w
             else if has_digest dig target (en_before_digest en) (w_fs w) then tx_return w
             else tx_fail (TargetChanged (en_path en)) w)
          else if w_fs w target \<noteq> None then
            (case regular_file_bytes target (en_path en) (w_fs w) of
               Inl e \<Rightarrow> tx_fail e w
             | Inr current \<Rightarrow>
                 if dig current \<noteq> en_after_digest en then tx_fail (TargetChanged (en_path en)) w
                 else tx_fs (remove_file target) w)
          else tx_return w)"

definition remove_dir :: "fpath \<Rightarrow> tx" where
  "remove_dir dir = tx_set (\<lambda>w. w\<lparr>w_fs := remove_all dir (w_fs w)\<rparr>)"

definition remove_lock :: tx where
  "remove_lock = tx_set (\<lambda>w. w\<lparr>w_lock := None\<rparr>)"

definition remove_journal :: tx where
  "remove_journal = tx_set (\<lambda>w. w\<lparr>w_journal := None\<rparr>)"

definition committed :: "journal \<Rightarrow> fs \<Rightarrow> bool" where
  "committed j fs = (case jr_receipt j of None \<Rightarrow> False | Some p \<Rightarrow> fs p \<noteq> None)"

definition finish_recovery :: "(string \<Rightarrow> string) \<Rightarrow> fpath \<Rightarrow> journal \<Rightarrow> tx" where
  "finish_recovery dig root j w =
     tx_seq (if committed j (w_fs w) then tx_return else tx_all (map (restore_entry dig root) (rev (jr_entries j))))
       (tx_all [remove_journal, remove_dir (jr_dir j), remove_lock]) w"

definition owner_blocks :: "bool \<Rightarrow> owner_state \<Rightarrow> bool" where
  "owner_blocks allow_current st \<longleftrightarrow> st = OwnerLive \<or> st = OwnerUnknown \<or> (st = OwnerCurrent \<and> \<not> allow_current)"

definition recover_journal ::
  "(string \<Rightarrow> string) \<Rightarrow> (owner \<Rightarrow> owner_state) \<Rightarrow> fpath \<Rightarrow> bool \<Rightarrow> bool \<Rightarrow> tx_lock option \<Rightarrow> journal \<Rightarrow> tx" where
  "recover_journal dig inspect root force allow_current lock j w =
     (case validate_metadata root lock j (w_fs w) of
        Some e \<Rightarrow> tx_fail e w
      | None \<Rightarrow>
          if \<not> force \<and> owner_blocks allow_current (inspect (jr_owner j))
          then tx_fail (ActiveOwner (o_pid (jr_owner j))) w
          else if \<not> force \<and> inspect (jr_owner j) = OwnerCurrent then tx_return w
          else finish_recovery dig root j w)"

definition recover_lock_only ::
  "(owner \<Rightarrow> owner_state) \<Rightarrow> fpath \<Rightarrow> bool \<Rightarrow> bool \<Rightarrow> tx_lock option \<Rightarrow> tx" where
  "recover_lock_only inspect root force allow_current lock w =
     (case lock of
        None \<Rightarrow> tx_return w
      | Some l \<Rightarrow>
          if \<not> force \<and> inspect (lk_owner l) = OwnerCurrent \<and> allow_current then tx_return w
          else case validate_directory (tx_root root) (lk_dir l) (w_fs w) of
            Some e \<Rightarrow> tx_fail e w
          | None \<Rightarrow> tx_seq (remove_dir (lk_dir l)) remove_lock w)"

definition read_lock :: "workspace \<Rightarrow> tx_error + tx_lock option" where
  "read_lock w =
     (case w_lock w of
        None \<Rightarrow> Inr None
      | Some (Valid l) \<Rightarrow> Inr (Some l)
      | Some Legacy \<Rightarrow> Inl LegacyState
      | Some _ \<Rightarrow> Inl InvalidLock)"

definition recover_with_owner_inspector ::
  "(string \<Rightarrow> string) \<Rightarrow> (owner \<Rightarrow> owner_state) \<Rightarrow> fpath \<Rightarrow> bool \<Rightarrow> bool \<Rightarrow> tx" where
  "recover_with_owner_inspector dig inspect root force allow_current w =
     (case lstat (w_fs w) (tx_root root) of
        Inl e \<Rightarrow> tx_fail e w
      | Inr None \<Rightarrow> tx_return w
      | Inr (Some Directory) \<Rightarrow>
          if walk_symlinks (w_fs w) root [''.scenery'', ''transactions''] \<noteq> Clean then tx_fail ContainsSymlink w
          else case read_lock w of
            Inl e \<Rightarrow> tx_fail e w
          | Inr lock \<Rightarrow>
              (case lock of
                 Some l \<Rightarrow>
                   if \<not> force \<and> owner_blocks allow_current (inspect (lk_owner l))
                   then tx_fail (ActiveOwner (o_pid (lk_owner l))) w
                   else (case w_journal w of
                           None \<Rightarrow> recover_lock_only inspect root force allow_current lock w
                         | Some (Valid j) \<Rightarrow> recover_journal dig inspect root force allow_current lock j w
                         | Some Legacy \<Rightarrow> tx_fail LegacyState w
                         | Some _ \<Rightarrow> tx_fail InvalidJournal w)
               | None \<Rightarrow>
                   (case w_journal w of
                      None \<Rightarrow> tx_return w
                    | Some (Valid j) \<Rightarrow> recover_journal dig inspect root force allow_current None j w
                    | Some Legacy \<Rightarrow> tx_fail LegacyState w
                    | Some _ \<Rightarrow> tx_fail InvalidJournal w))
      | Inr (Some _) \<Rightarrow> tx_fail InvalidTransactionRoot w)"

definition recover_or_reject ::
  "(string \<Rightarrow> string) \<Rightarrow> (owner \<Rightarrow> owner_state) \<Rightarrow> fpath \<Rightarrow> bool \<Rightarrow> tx" where
  "recover_or_reject dig inspect root current_owner_read =
     recover_with_owner_inspector dig inspect root False current_owner_read"

definition force_recover :: "(string \<Rightarrow> string) \<Rightarrow> (owner \<Rightarrow> owner_state) \<Rightarrow> fpath \<Rightarrow> tx" where
  "force_recover dig inspect root = recover_with_owner_inspector dig inspect root True False"

section \<open>Publication\<close>

record out_file =
  of_path :: string
  of_bytes :: string
  of_remove :: bool
  of_expected :: string

definition absent_digest :: string where
  "absent_digest = ''absent''"

definition verify_expected_before :: "(string \<Rightarrow> string) \<Rightarrow> out_file \<Rightarrow> string option \<Rightarrow> tx_error option" where
  "verify_expected_before dig f before =
     (if of_expected f = [] then None
      else if (case before of None \<Rightarrow> absent_digest | Some b \<Rightarrow> dig b) \<noteq> of_expected f
      then Some (ChangedAfterVerification (of_path f)) else None)"

definition read_before :: "fpath \<Rightarrow> fpath \<Rightarrow> out_file \<Rightarrow> fs \<Rightarrow> tx_error + string option" where
  "read_before root target f fs =
     (if walk_symlinks fs root (drop (length root) target) = Linked then Inl ContainsSymlink
      else if walk_symlinks fs root (drop (length root) target) = Blocked then Inl NotADirectory
      else case fs target of
        None \<Rightarrow> Inr None
      | Some (File b) \<Rightarrow> Inr (Some b)
      | Some _ \<Rightarrow> Inl (NotRegularFile (of_path f)))"

definition new_entry ::
  "(string \<Rightarrow> string) \<Rightarrow> fpath \<Rightarrow> nat \<Rightarrow> out_file \<Rightarrow> string option \<Rightarrow> entry" where
  "new_entry dig dir i f before =
     \<lparr>en_path = of_path f, en_stage = stage_path dir i, en_backup = backup_path dir i,
      en_before_digest = dig (case before of None \<Rightarrow> [] | Some b \<Rightarrow> b), en_after_digest = dig (of_bytes f),
      en_before_exists = (before \<noteq> None), en_after_exists = (\<not> of_remove f)\<rparr>"

definition stage_entry :: "entry \<Rightarrow> string \<Rightarrow> tx" where
  "stage_entry en content =
     tx_seq (tx_fs (mkdir_all (butlast (en_backup en))))
       (if en_after_exists en
        then tx_seq (tx_fs (mkdir_all (butlast (en_stage en)))) (tx_fs (atomic_write (en_stage en) content))
        else tx_return)"

text \<open>The loop over the sorted outputs: the states passed through and the entries, or the error.\<close>

fun stage_files ::
  "(string \<Rightarrow> string) \<Rightarrow> fpath \<Rightarrow> fpath \<Rightarrow> string option \<Rightarrow> out_file list \<Rightarrow> entry list \<Rightarrow> workspace
     \<Rightarrow> workspace list \<times> (tx_error + entry list \<times> workspace)" where
  "stage_files dig root dir prev [] ens w = ([], Inr (ens, w))"
| "stage_files dig root dir prev (f # files) ens w =
     (if prev = Some (of_path f) then ([], Inl (DuplicateOutput (of_path f)))
      else case confined_path root (of_path f) of
        Inl e \<Rightarrow> ([], Inl e)
      | Inr target \<Rightarrow>
          case read_before root target f (w_fs w) of
            Inl e \<Rightarrow> ([], Inl e)
          | Inr before \<Rightarrow>
              case verify_expected_before dig f before of
                Some e \<Rightarrow> ([], Inl e)
              | None \<Rightarrow>
                  if (if of_remove f then before = None else before = Some (of_bytes f))
                  then stage_files dig root dir (Some (of_path f)) files ens w
                  else
                    let en = new_entry dig dir (length ens) f before in
                    case stage_entry en (of_bytes f) w of
                      (ws, Inl e) \<Rightarrow> (ws, Inl e)
                    | (ws, Inr w') \<Rightarrow>
                        (case stage_files dig root dir (Some (of_path f)) files (ens @ [en]) w' of
                           (ws', r) \<Rightarrow> (ws @ ws', r)))"

definition publish_entry :: "(string \<Rightarrow> string) \<Rightarrow> fpath \<Rightarrow> entry \<Rightarrow> tx" where
  "publish_entry dig root en =
     (let target = target_path root (en_path en) in
      tx_all
       [tx_check (\<lambda>w. case walk_symlinks (w_fs w) root (drop (length root) target) of
            Linked \<Rightarrow> Some ContainsSymlink | Blocked \<Rightarrow> Some NotADirectory | _ \<Rightarrow> None),
        (if en_before_exists en
         then tx_seq (tx_check (\<lambda>w. if has_digest dig target (en_before_digest en) (w_fs w) then None
                else Some (ChangedDuringPublication (en_path en))))
              (tx_fs (rename_file target (en_backup en)))
         else tx_check (\<lambda>w. if w_fs w target = None then None
                else Some (AppearedDuringPublication (en_path en)))),
        (if en_after_exists en
         then tx_seq (tx_fs (mkdir_all (butlast target))) (tx_fs (rename_file (en_stage en) target))
         else tx_return)])"

definition receipt_path :: "fpath \<Rightarrow> fpath" where
  "receipt_path dir = dir @ [''committed'']"

definition install :: "(string \<Rightarrow> string) \<Rightarrow> (owner \<Rightarrow> owner_state) \<Rightarrow> fpath \<Rightarrow> journal \<Rightarrow> tx" where
  "install dig inspect root j =
     tx_on_error
       (tx_seq (tx_all (map (publish_entry dig root) (jr_entries j)))
         (tx_fs (atomic_write (receipt_path (jr_dir j)) ''committed\<newline>'')))
       (\<lambda>e. tx_on_error (tx_seq (force_recover dig inspect root) (tx_fail e)) (\<lambda>_. tx_fail e))"

definition cleanup :: "fpath \<Rightarrow> tx" where
  "cleanup dir = tx_seq (remove_dir dir) remove_lock"

definition commit_journal :: "(string \<Rightarrow> string) \<Rightarrow> (owner \<Rightarrow> owner_state) \<Rightarrow> fpath \<Rightarrow> journal \<Rightarrow> tx" where
  "commit_journal dig inspect root j =
     tx_all [tx_set (\<lambda>w. w\<lparr>w_journal := Some (Valid j)\<rparr>), install dig inspect root j, remove_journal,
       cleanup (jr_dir j)]"

definition path_le :: "out_file \<Rightarrow> out_file \<Rightarrow> bool" where
  "path_le a b \<longleftrightarrow> of_path a \<le> of_path b"

text \<open>
  The part of \<open>PublishContext\<close> after the lock is taken; \<open>prepare\<close> is the callback. A failure before
  the journal is written removes the transaction directory and the lock.
\<close>

definition publish_locked ::
  "(string \<Rightarrow> string) \<Rightarrow> (owner \<Rightarrow> owner_state) \<Rightarrow> fpath \<Rightarrow> fpath \<Rightarrow> owner
     \<Rightarrow> (workspace \<Rightarrow> tx_error + out_file list) \<Rightarrow> tx" where
  "publish_locked dig inspect root dir me prepare w =
     (case prepare w of
        Inl e \<Rightarrow> tx_seq (cleanup dir) (tx_fail e) w
      | Inr files \<Rightarrow>
          case stage_files dig root dir None (sort_by path_le files) [] w of
            (ws, Inl e) \<Rightarrow> (case tx_seq (cleanup dir) (tx_fail e) (last (w # ws)) of (ws', r) \<Rightarrow> (ws @ ws', r))
          | (ws, Inr (ens, w1)) \<Rightarrow>
              (case (if ens = [] then cleanup dir
                     else commit_journal dig inspect root
                       \<lparr>jr_owner = me, jr_receipt = Some (receipt_path dir), jr_dir = dir, jr_entries = ens\<rparr>) w1
               of (ws', r) \<Rightarrow> (ws @ ws', r)))"

text \<open>
  \<open>PublishContext\<close> before that: the transaction directory with the prepared lock record, then
  attempts to take the lock until the deadline. Each attempt first recovers or rejects what it finds
  and then links the lock, which fails if one exists; what other processes do before the recovery
  and between the recovery and the link, and whether the context is cancelled, is given per
  attempt. \<open>name\<close> is the fresh name that \<open>os.MkdirTemp\<close> picks, \<open>lock_bytes\<close> the JSON text of the lock.
\<close>

record attempt =
  at_cancelled :: bool
  at_before :: "workspace \<Rightarrow> workspace"
  at_between :: "workspace \<Rightarrow> workspace"

fun acquire_lock ::
  "(string \<Rightarrow> string) \<Rightarrow> (owner \<Rightarrow> owner_state) \<Rightarrow> fpath \<Rightarrow> tx_lock \<Rightarrow> attempt list \<Rightarrow> tx" where
  "acquire_lock dig inspect root lock [] = tx_seq (remove_dir (lk_dir lock)) (tx_fail TimedOut)"
| "acquire_lock dig inspect root lock (a # as) =
     (if at_cancelled a then tx_seq (remove_dir (lk_dir lock)) (tx_fail Cancelled)
      else
        tx_seq (tx_set (at_before a))
          (\<lambda>w. case recover_or_reject dig inspect root False w of
             (ws, Inl e) \<Rightarrow>
               (case (case e of ActiveOwner _ \<Rightarrow> acquire_lock dig inspect root lock as
                      | _ \<Rightarrow> tx_seq (remove_dir (lk_dir lock)) (tx_fail e)) (last (w # ws))
                of (ws', r) \<Rightarrow> (ws @ ws', r))
           | (ws, Inr w') \<Rightarrow>
               (case tx_seq (tx_set (at_between a))
                       (\<lambda>v. if w_lock v = None then tx_set (\<lambda>v. v\<lparr>w_lock := Some (Valid lock)\<rparr>) v
                            else acquire_lock dig inspect root lock as v) w'
                of (ws', r) \<Rightarrow> (ws @ ws', r))))"

definition publish_context ::
  "(string \<Rightarrow> string) \<Rightarrow> (owner \<Rightarrow> owner_state) \<Rightarrow> fpath \<Rightarrow> string \<Rightarrow> owner \<Rightarrow> string \<Rightarrow> bool
     \<Rightarrow> attempt list \<Rightarrow> (workspace \<Rightarrow> tx_error + out_file list) \<Rightarrow> tx" where
  "publish_context dig inspect root name me lock_bytes cancelled as prepare =
     (let dir = tx_root root @ [name] in
      if cancelled then tx_fail Cancelled
      else tx_all
       [tx_check (\<lambda>w. case walk_symlinks (w_fs w) root [''.scenery'', ''transactions''] of
            Linked \<Rightarrow> Some ContainsSymlink | Blocked \<Rightarrow> Some NotADirectory | _ \<Rightarrow> None),
        tx_fs (mkdir_all (tx_root root)),
        tx_fs (\<lambda>fs. Inr (fs(dir \<mapsto> Directory))),
        tx_fs (\<lambda>fs. Inr (fs(dir @ [''lock''] \<mapsto> File lock_bytes))),
        acquire_lock dig inspect root \<lparr>lk_owner = me, lk_dir = dir\<rparr> as,
        publish_locked dig inspect root dir me prepare])"

end
