(* ===== verification/WorkspaceRecovery.thy ===== *)
theory WorkspaceRecovery
  imports WorkspaceTx "HOL-Library.Sublist"
begin

text \<open>
  Atomicity of workspace publications. A publication that was staged passes, entry by entry, through
  the states \<open>Fresh\<close>, \<open>Moved\<close> (the old file is in the backup) and \<open>Done\<close> (the new file is in
  place); whatever state a crash leaves, an uninterrupted recovery brings all targets back, or keeps
  all of them once the receipt is written. The rules \<open>runs_\<close> compose the atomic changes of the
  operations in the style of a Hoare logic.
\<close>

section \<open>Paths\<close>

lemma pad6_inj: "pad6 i = pad6 k \<longleftrightarrow> i = k"
  by (simp add: pad6_def pad_digits_inj)

lemma below_prefix: "below dir p \<longleftrightarrow> prefix dir p"
proof
  assume "below dir p"
  then have "p = dir @ drop (length dir) p"
    using append_take_drop_id [of "length dir" p] by (simp add: below_def)
  then show "prefix dir p" by (metis prefixI)
qed (auto simp: below_def prefix_def)

definition open_dirs :: "fs \<Rightarrow> fpath \<Rightarrow> bool" where
  "open_dirs fs p \<longleftrightarrow> (\<forall>q. prefix q p \<longrightarrow> fs q = None \<or> fs q = Some Directory)"

definition with_dirs :: "fpath \<Rightarrow> fs \<Rightarrow> fs" where
  "with_dirs p fs = (\<lambda>q. if fs q = None \<and> prefix q p \<and> q \<noteq> [] then Some Directory else fs q)"

lemma mkdirs_eq:
  assumes "\<And>q. prefix q (current @ parts) \<Longrightarrow> strict_prefix current q \<Longrightarrow> fs q = None \<or> fs q = Some Directory"
  shows "mkdirs fs current parts =
    Inr (\<lambda>q. if fs q = None \<and> prefix q (current @ parts) \<and> strict_prefix current q then Some Directory else fs q)"
  using assms
proof (induction parts arbitrary: fs current)
  case Nil
  have no: "\<not> (prefix q current \<and> strict_prefix current q)" for q
    by (meson prefix_order.leD)
  show ?case using no by (auto simp: fun_eq_iff)
next
  case (Cons part parts)
  let ?next = "current @ [part]"
  have split: "prefix q (current @ part # parts) \<and> strict_prefix current q
      \<longleftrightarrow> prefix q (?next @ parts) \<and> (q = ?next \<or> strict_prefix ?next q)" for q
  proof -
    have "strict_prefix current q \<longleftrightarrow> prefix ?next q" if "prefix q (?next @ parts)"
    proof
      assume "strict_prefix current q"
      then obtain r rs where "q = current @ r # rs" by (auto elim: strict_prefixE')
      with that show "prefix ?next q" by simp
    qed (auto simp: strict_prefix_def prefix_def)
    then show ?thesis by (auto simp: strict_prefix_def)
  qed
  have node: "fs ?next = None \<or> fs ?next = Some Directory"
    by (rule Cons.prems) (auto simp: strict_prefix_def)
  have later: "fs q = None \<or> fs q = Some Directory" if "prefix q (?next @ parts)" "strict_prefix ?next q" for q
    using that Cons.prems split by auto
  show ?case
  proof (cases "fs ?next")
    case None
    have "mkdirs (fs(?next \<mapsto> Directory)) ?next parts =
      Inr (\<lambda>q. if (fs(?next \<mapsto> Directory)) q = None \<and> prefix q (?next @ parts) \<and> strict_prefix ?next q
        then Some Directory else (fs(?next \<mapsto> Directory)) q)"
      by (rule Cons.IH) (use later in auto)
    then show ?thesis
      using None split by (auto simp: fun_eq_iff)
  next
    case (Some n)
    with node have dir: "fs ?next = Some Directory" by simp
    have "mkdirs fs ?next parts =
      Inr (\<lambda>q. if fs q = None \<and> prefix q (?next @ parts) \<and> strict_prefix ?next q then Some Directory else fs q)"
      by (rule Cons.IH) (use later in auto)
    then show ?thesis
      using dir split by (auto simp: fun_eq_iff)
  qed
qed

lemma mkdir_all_eq: "open_dirs fs p \<Longrightarrow> mkdir_all p fs = Inr (with_dirs p fs)"
proof -
  assume "open_dirs fs p"
  then have "mkdirs fs [] p =
    Inr (\<lambda>q. if fs q = None \<and> prefix q ([] @ p) \<and> strict_prefix [] q then Some Directory else fs q)"
    by (intro mkdirs_eq) (simp add: open_dirs_def)
  then show ?thesis by (simp add: mkdir_all_def with_dirs_def strict_prefix_def eq_commute [of "[]"])
qed

lemma lstat_open: "open_dirs fs (butlast p) \<Longrightarrow> lstat fs p = Inr (fs p)"
proof -
  assume o: "open_dirs fs (butlast p)"
  have "\<not> blocks (fs (take n p))" if "n < length p" for n
  proof -
    have "take n p = take n (butlast p)"
      using that by (simp add: butlast_conv_take)
    then have "prefix (take n p) (butlast p)" by (simp add: take_is_prefix)
    then show ?thesis using o by (auto simp: open_dirs_def blocks_def)
  qed
  then show ?thesis by (auto simp: lstat_def list_ex_iff)
qed

lemma walk_open:
  assumes "\<And>q. prefix q (butlast (current @ parts)) \<Longrightarrow> strict_prefix current q \<Longrightarrow> fs q = None \<or> fs q = Some Directory"
    and "parts \<noteq> [] \<Longrightarrow> fs (current @ parts) \<noteq> Some Symlink"
  shows "walk_symlinks fs current parts = Clean \<or> walk_symlinks fs current parts = Missing"
  using assms
proof (induction parts arbitrary: current)
  case (Cons part parts)
  show ?case
  proof (cases "parts = []")
    case True
    then show ?thesis using Cons.prems(2) by (auto split: option.splits fnode.splits)
  next
    case False
    have step: "strict_prefix current q" if "strict_prefix (current @ [part]) q" for q
      using that by (auto simp: strict_prefix_def prefix_def)
    have "fs (current @ [part]) = None \<or> fs (current @ [part]) = Some Directory"
    proof (rule Cons.prems(1))
      show "prefix (current @ [part]) (butlast (current @ part # parts))"
        using False by (simp add: butlast_append)
    qed (simp add: strict_prefix_def)
    moreover have "walk_symlinks fs (current @ [part]) parts = Clean \<or>
        walk_symlinks fs (current @ [part]) parts = Missing"
      by (rule Cons.IH) (use Cons.prems step in auto)
    ultimately show ?thesis by auto
  qed
qed simp

lemma walk_clean:
  assumes "\<And>q. prefix q (butlast (current @ parts)) \<Longrightarrow> strict_prefix current q \<Longrightarrow> fs q = Some Directory"
    and "parts \<noteq> [] \<Longrightarrow> fs (current @ parts) \<noteq> None \<and> fs (current @ parts) \<noteq> Some Symlink"
  shows "walk_symlinks fs current parts = Clean"
  using assms
proof (induction parts arbitrary: current)
  case (Cons part parts)
  show ?case
  proof (cases "parts = []")
    case True
    then show ?thesis using Cons.prems(2) by (auto split: option.splits fnode.splits)
  next
    case False
    have step: "strict_prefix current q" if "strict_prefix (current @ [part]) q" for q
      using that by (auto simp: strict_prefix_def prefix_def)
    have "fs (current @ [part]) = Some Directory"
      by (rule Cons.prems(1)) (use False in \<open>auto simp: butlast_append strict_prefix_def\<close>)
    moreover have "walk_symlinks fs (current @ [part]) parts = Clean"
      by (rule Cons.IH) (use Cons.prems step in auto)
    ultimately show ?thesis by simp
  qed
qed simp

section \<open>Rules for sequences of atomic changes\<close>

text \<open>The operation succeeds, every state it passes satisfies \<open>I\<close> and the final one \<open>Q\<close>.\<close>

definition runs :: "tx \<Rightarrow> workspace \<Rightarrow> (workspace \<Rightarrow> bool) \<Rightarrow> (workspace \<Rightarrow> bool) \<Rightarrow> bool" where
  "runs t w I Q \<longleftrightarrow> (\<exists>ws w'. t w = (ws, Inr w') \<and> (\<forall>v\<in>set ws. I v) \<and> Q w')"

lemma runs_return: "Q w \<Longrightarrow> runs tx_return w I Q"
  by (simp add: runs_def tx_return_def)

lemma runs_check: "c w = None \<Longrightarrow> Q w \<Longrightarrow> runs (tx_check c) w I Q"
  by (simp add: runs_def tx_check_def)

lemma runs_fs:
  "f (w_fs w) = Inr fs' \<Longrightarrow> I (w\<lparr>w_fs := fs'\<rparr>) \<Longrightarrow> Q (w\<lparr>w_fs := fs'\<rparr>) \<Longrightarrow> runs (tx_fs f) w I Q"
  by (simp add: runs_def tx_fs_def)

lemma runs_set: "I (f w) \<Longrightarrow> Q (f w) \<Longrightarrow> runs (tx_set f) w I Q"
  by (simp add: runs_def tx_set_def)

lemma runs_seq: "runs a w I (\<lambda>v. runs b v I Q) \<Longrightarrow> runs (tx_seq a b) w I Q"
  by (fastforce simp: runs_def tx_seq_def)

lemma runs_weaken: "runs t w I Q \<Longrightarrow> (\<And>v. I v \<Longrightarrow> J v) \<Longrightarrow> (\<And>v. Q v \<Longrightarrow> R v) \<Longrightarrow> runs t w J R"
  by (auto simp: runs_def)

lemma runs_Nil: "Q w \<Longrightarrow> runs (tx_all []) w I Q"
  by (simp add: runs_return)

lemma runs_Cons: "runs t w I (\<lambda>v. runs (tx_all ts) v I Q) \<Longrightarrow> runs (tx_all (t # ts)) w I Q"
  by (simp add: runs_seq)

lemma runs_on_error: "runs t w I Q \<Longrightarrow> runs (tx_on_error t h) w I Q"
  by (auto simp: runs_def tx_on_error_def)

lemma runs_crash: "runs t w I Q \<Longrightarrow> I w \<Longrightarrow> v \<in> crash_states t w \<Longrightarrow> I v"
  by (auto simp: runs_def crash_states_def)

lemma runs_result: "runs t w I Q \<Longrightarrow> \<exists>ws w'. t w = (ws, Inr w') \<and> Q w'"
  by (auto simp: runs_def)

lemmas runs_rules = runs_return runs_check runs_fs runs_set runs_seq runs_Nil runs_Cons

section \<open>The states of a publication\<close>

datatype status = Fresh | Moved | Done | Restored | Lost

type_synonym contents = "nat \<Rightarrow> string option"

definition as_node :: "string option \<Rightarrow> fnode option" where
  "as_node c = map_option File c"

lemma as_node_simps [simp]:
  "as_node None = None" "as_node (Some b) = Some (File b)" "as_node c = None \<longleftrightarrow> c = None"
  "as_node c = Some Directory \<longleftrightarrow> False" "as_node c = Some Symlink \<longleftrightarrow> False"
  by (simp_all add: as_node_def)

fun entry_at :: "fs \<Rightarrow> fpath \<Rightarrow> entry \<Rightarrow> string option \<Rightarrow> string option \<Rightarrow> status \<Rightarrow> bool" where
  "entry_at fs target en b a Fresh \<longleftrightarrow>
     fs target = as_node b \<and> fs (en_stage en) = as_node a \<and> fs (en_backup en) = None"
| "entry_at fs target en b a Moved \<longleftrightarrow>
     b \<noteq> None \<and> fs target = None \<and> fs (en_stage en) = as_node a \<and> fs (en_backup en) = as_node b"
| "entry_at fs target en b a Done \<longleftrightarrow>
     fs target = as_node a \<and> fs (en_stage en) = None \<and> fs (en_backup en) = as_node b"
| "entry_at fs target en b a Restored \<longleftrightarrow> fs target = as_node b \<and> fs (en_backup en) = None"
| "entry_at fs target en b a Lost \<longleftrightarrow>
     b \<noteq> None \<and> a \<noteq> None \<and> fs target = None \<and> fs (en_stage en) = None \<and> fs (en_backup en) = as_node b"

text \<open>The states of an entry that the publication itself passes through.\<close>

definition forward :: "status \<Rightarrow> bool" where
  "forward s \<longleftrightarrow> s \<noteq> Restored \<and> s \<noteq> Lost"

lemma forward_simps [simp]: "forward Fresh" "forward Moved" "forward Done" "\<not> forward Restored" "\<not> forward Lost"
  by (simp_all add: forward_def)

definition target_at :: "fpath \<Rightarrow> journal \<Rightarrow> nat \<Rightarrow> fpath" where
  "target_at root j i = target_path root (en_path (jr_entries j ! i))"

text \<open>An entry records the contents before and after, by digest, and one of them exists.\<close>

definition entry_records ::
  "(string \<Rightarrow> string) \<Rightarrow> fpath \<Rightarrow> fpath \<Rightarrow> nat \<Rightarrow> entry \<Rightarrow> string option \<Rightarrow> string option \<Rightarrow> bool" where
  "entry_records dig root dir i en b a \<longleftrightarrow>
     en_stage en = stage_path dir i \<and> en_backup en = backup_path dir i
     \<and> confined_path root (en_path en) = Inr (target_path root (en_path en))
     \<and> en_before_exists en = (b \<noteq> None) \<and> en_after_exists en = (a \<noteq> None)
     \<and> (\<forall>x. b = Some x \<longrightarrow> en_before_digest en = dig x) \<and> (\<forall>x. a = Some x \<longrightarrow> en_after_digest en = dig x)
     \<and> (b \<noteq> None \<or> a \<noteq> None)"

text \<open>The journal of a publication, with targets apart from each other and from the transactions.\<close>

definition tx_layout :: "(string \<Rightarrow> string) \<Rightarrow> fpath \<Rightarrow> journal \<Rightarrow> contents \<Rightarrow> contents \<Rightarrow> bool" where
  "tx_layout dig root j b a \<longleftrightarrow>
     butlast (jr_dir j) = tx_root root \<and> jr_dir j \<noteq> [] \<and> has_prefix (last (jr_dir j)) ''change-''
     \<and> jr_receipt j = Some (receipt_path (jr_dir j))
     \<and> (\<forall>i<length (jr_entries j). entry_records dig root (jr_dir j) i (jr_entries j ! i) (b i) (a i))
     \<and> (\<forall>i<length (jr_entries j). \<not> prefix (tx_root root) (target_at root j i)
          \<and> \<not> prefix (target_at root j i) (tx_root root))
     \<and> (\<forall>i<length (jr_entries j). \<forall>k<length (jr_entries j). i \<noteq> k \<longrightarrow>
          \<not> prefix (target_at root j i) (target_at root j k))"

definition tx_state ::
  "fpath \<Rightarrow> journal \<Rightarrow> contents \<Rightarrow> contents \<Rightarrow> fs \<Rightarrow> fnode option \<Rightarrow> (nat \<Rightarrow> status) \<Rightarrow> fs \<Rightarrow> bool" where
  "tx_state root j b a fs0 rc st fs \<longleftrightarrow>
     (\<forall>i<length (jr_entries j). entry_at fs (target_at root j i) (jr_entries j ! i) (b i) (a i) (st i))
     \<and> (\<forall>i<length (jr_entries j). open_dirs fs (butlast (target_at root j i)))
     \<and> (\<forall>q. prefix q (jr_dir j) \<longrightarrow> fs q = Some Directory)
     \<and> fs (jr_dir j @ [''staged'']) = Some Directory \<and> fs (jr_dir j @ [''backups'']) = Some Directory
     \<and> fs (receipt_path (jr_dir j)) = rc
     \<and> (\<forall>p. p \<notin> target_at root j ` {..<length (jr_entries j)} \<and> \<not> below (jr_dir j) p \<longrightarrow>
          fs p = fs0 p \<or> fs0 p = None \<and> fs p = Some Directory)"

lemma tx_layoutD:
  assumes "tx_layout dig root j b a" "i < length (jr_entries j)"
  shows "en_stage (jr_entries j ! i) = stage_path (jr_dir j) i"
    and "en_backup (jr_entries j ! i) = backup_path (jr_dir j) i"
    and "confined_path root (en_path (jr_entries j ! i)) = Inr (target_at root j i)"
    and "entry_records dig root (jr_dir j) i (jr_entries j ! i) (b i) (a i)"
    and "prefix (tx_root root) p \<Longrightarrow> \<not> prefix p (target_at root j i)"
    and "k < length (jr_entries j) \<Longrightarrow> prefix (target_at root j i) (target_at root j k) \<longleftrightarrow> i = k"
    and "\<not> prefix (target_at root j i) (tx_root root)"
proof -
  show r: "entry_records dig root (jr_dir j) i (jr_entries j ! i) (b i) (a i)"
    using assms by (simp add: tx_layout_def)
  show "en_stage (jr_entries j ! i) = stage_path (jr_dir j) i"
    and "en_backup (jr_entries j ! i) = backup_path (jr_dir j) i"
    and "confined_path root (en_path (jr_entries j ! i)) = Inr (target_at root j i)"
    using r by (simp_all add: entry_records_def target_at_def)
  have "\<not> prefix (tx_root root) (target_at root j i)"
    using assms by (simp add: tx_layout_def)
  then show "prefix (tx_root root) p \<Longrightarrow> \<not> prefix p (target_at root j i)"
    using prefix_order.trans by blast
  show "prefix (target_at root j i) (target_at root j k) \<longleftrightarrow> i = k" if "k < length (jr_entries j)"
    using assms that by (auto simp: tx_layout_def)
  show "\<not> prefix (target_at root j i) (tx_root root)"
    using assms by (simp add: tx_layout_def)
qed

lemma tx_layout_dir:
  assumes "tx_layout dig root j b a"
  shows "prefix (tx_root root) (jr_dir j)" "prefix (tx_root root) (stage_path (jr_dir j) i)"
    "prefix (tx_root root) (backup_path (jr_dir j) i)" "jr_dir j = tx_root root @ [last (jr_dir j)]"
proof -
  have "butlast (jr_dir j) = tx_root root" "jr_dir j \<noteq> []"
    using assms by (simp_all add: tx_layout_def)
  then show d: "jr_dir j = tx_root root @ [last (jr_dir j)]"
    by (metis append_butlast_last_id)
  then show "prefix (tx_root root) (jr_dir j)" by (metis prefixI)
  then show "prefix (tx_root root) (stage_path (jr_dir j) i)" "prefix (tx_root root) (backup_path (jr_dir j) i)"
    by (auto simp: stage_path_def backup_path_def)
qed

lemma artifact_distinct [simp]:
  "stage_path dir i = stage_path dir k \<longleftrightarrow> i = k" "backup_path dir i = backup_path dir k \<longleftrightarrow> i = k"
  "stage_path dir i \<noteq> backup_path dir k" "backup_path dir i \<noteq> stage_path dir k"
  by (simp_all add: stage_path_def backup_path_def pad6_inj)

lemma artifact_not_dir:
  "prefix q dir \<Longrightarrow> q \<noteq> stage_path dir i" "prefix q dir \<Longrightarrow> q \<noteq> backup_path dir i"
  "dir @ [x] \<noteq> stage_path dir i" "dir @ [x] \<noteq> backup_path dir i"
  "stage_path dir i \<noteq> receipt_path dir" "backup_path dir i \<noteq> receipt_path dir"
  by (auto simp: stage_path_def backup_path_def receipt_path_def dest: prefix_length_le)

lemma below_artifact [simp]:
  "below dir (stage_path dir i)" "below dir (backup_path dir i)" "below dir (receipt_path dir)" "below dir (dir @ x)"
  by (simp_all add: below_prefix stage_path_def backup_path_def receipt_path_def)

text \<open>
  A change of the file system at the target, the stage and the backup of one entry, possibly with new
  directories above its target, leaves the other entries as they were.
\<close>

lemma tx_state_update:
  assumes lay: "tx_layout dig root j b a" and st: "tx_state root j b a fs0 rc st fs" and i: "i < length (jr_entries j)"
    and frame: "\<And>p. p \<notin> {target_at root j i, stage_path (jr_dir j) i, backup_path (jr_dir j) i} \<Longrightarrow>
      fs' p = fs p \<or> fs' p = with_dirs (butlast (target_at root j i)) fs p"
    and here: "entry_at fs' (target_at root j i) (jr_entries j ! i) (b i) (a i) s"
  shows "tx_state root j b a fs0 rc (st(i := s)) fs'"
proof -
  let ?T = "target_at root j" and ?S = "stage_path (jr_dir j)" and ?B = "backup_path (jr_dir j)"
    and ?n = "length (jr_entries j)"
  have trans: "prefix q (butlast p) \<Longrightarrow> prefix q p" for q p :: fpath
    by (metis prefix_order.trans prefixeq_butlast)
  have proper: "p \<noteq> [] \<Longrightarrow> \<not> prefix p (butlast p)" for p :: fpath
    using prefix_length_le [of p "butlast p"] by (cases p) auto
  have Tne: "?T k \<noteq> []" if "k < ?n" for k
    using tx_layoutD(7) [OF lay that] by auto
  have under: "fs' p = fs p" if "prefix (tx_root root) p" "p \<noteq> ?S i" "p \<noteq> ?B i" for p
  proof -
    have "\<not> prefix p (?T i)" by (rule tx_layoutD(5) [OF lay i that(1)])
    moreover from this have "\<not> prefix p (butlast (?T i))" "p \<noteq> ?T i" using trans by auto
    ultimately show ?thesis using frame [of p] that by (auto simp: with_dirs_def)
  qed
  have tgt: "fs' (?T k) = fs (?T k)" if "k < ?n" "k \<noteq> i" for k
  proof -
    have "\<not> prefix (?T k) (butlast (?T i))" "?T k \<noteq> ?T i"
      using tx_layoutD(6) [OF lay that(1) i] that trans by auto
    moreover have "?T k \<noteq> ?S i" "?T k \<noteq> ?B i"
      using tx_layoutD(5) [OF lay that(1)] tx_layout_dir(2,3) [OF lay] by (metis prefix_order.refl)+
    ultimately show ?thesis using frame [of "?T k"] by (auto simp: with_dirs_def)
  qed
  have dirs: "fs' q = fs q \<or> fs q = None \<and> fs' q = Some Directory" if "k < ?n" "prefix q (butlast (?T k))" for k q
  proof -
    have "q \<noteq> ?T i"
      using tx_layoutD(6) [OF lay i that(1)] trans that proper [OF Tne [OF i]] by auto
    moreover have "q \<noteq> ?S i" "q \<noteq> ?B i"
      using tx_layoutD(5) [OF lay that(1)] tx_layout_dir(2,3) [OF lay] trans that by metis+
    ultimately show ?thesis using frame [of q] by (auto simp: with_dirs_def split: if_splits)
  qed
  have "entry_at fs' (?T k) (jr_entries j ! k) (b k) (a k) ((st(i := s)) k)" if k: "k < ?n" for k
  proof (cases "k = i")
    case False
    have "entry_at fs (?T k) (jr_entries j ! k) (b k) (a k) (st k)"
      using st k by (simp add: tx_state_def)
    moreover have "fs' (?S k) = fs (?S k)" "fs' (?B k) = fs (?B k)"
      using under tx_layout_dir(2,3) [OF lay] False by simp_all
    ultimately show ?thesis
      using False tgt [OF k False] tx_layoutD(1,2) [OF lay k] by (cases "st k") simp_all
  qed (use here in simp)
  moreover have "open_dirs fs' (butlast (?T k))" if "k < ?n" for k
    using st dirs [OF that] that by (fastforce simp: tx_state_def open_dirs_def)
  moreover have "fs' q = Some Directory" if "prefix q (jr_dir j)" for q
  proof -
    have *: "fs q = Some Directory" "q \<noteq> ?S i" "q \<noteq> ?B i"
      using st that artifact_not_dir by (auto simp: tx_state_def)
    have "q \<noteq> ?T i"
      using tx_layoutD(5,7) [OF lay i] that tx_layout_dir(4) [OF lay]
      by (metis prefix_order.refl prefix_snoc tx_layout_dir(1) [OF lay])
    then show ?thesis using * frame [of q] by (auto simp: with_dirs_def split: if_splits)
  qed
  moreover have "fs' (jr_dir j @ [x]) = fs (jr_dir j @ [x])" for x
    using under [of "jr_dir j @ [x]"] tx_layout_dir(1) [OF lay] artifact_not_dir by auto
  moreover have "fs' p = fs p \<or> fs p = None \<and> fs' p = Some Directory"
    if "p \<notin> ?T ` {..<?n}" "\<not> below (jr_dir j) p" for p
  proof -
    have "p \<notin> {?T i, ?S i, ?B i}" using that i by auto
    then show ?thesis using frame [of p] by (auto simp: with_dirs_def split: if_splits)
  qed
  ultimately show ?thesis
    using st unfolding tx_state_def receipt_path_def by simp metis
qed

definition in_tx ::
  "fpath \<Rightarrow> journal \<Rightarrow> contents \<Rightarrow> contents \<Rightarrow> fs \<Rightarrow> fnode option \<Rightarrow> workspace \<Rightarrow> workspace \<Rightarrow> bool" where
  "in_tx root j b a fs0 rc w v \<longleftrightarrow> (\<exists>st fs. v = w\<lparr>w_fs := fs\<rparr> \<and> (\<forall>i. forward (st i)) \<and> tx_state root j b a fs0 rc st fs)"

lemma in_txI: "tx_state root j b a fs0 rc st fs \<Longrightarrow> (\<And>i. forward (st i)) \<Longrightarrow> in_tx root j b a fs0 rc w (w\<lparr>w_fs := fs\<rparr>)"
  by (auto simp: in_tx_def)

lemma rename_file_ok:
  "fs p = Some (File c) \<Longrightarrow> fs (butlast q) = Some Directory \<Longrightarrow> fs q \<noteq> Some Directory \<Longrightarrow>
   rename_file p q fs = Inr ((fs(p := None))(q \<mapsto> File c))"
  by (simp add: rename_file_def)

lemma tx_state_entry:
  assumes "tx_layout dig root j b a" "tx_state root j b a fs0 rc st fs" "i < length (jr_entries j)"
  shows "entry_at fs (target_at root j i) (jr_entries j ! i) (b i) (a i) (st i)"
    and "open_dirs fs (butlast (target_at root j i))"
    and "fs (butlast (stage_path (jr_dir j) i)) = Some Directory"
    and "fs (butlast (backup_path (jr_dir j) i)) = Some Directory"
    and "with_dirs (butlast (target_at root j i)) fs (butlast (target_at root j i)) = Some Directory"
proof -
  show "entry_at fs (target_at root j i) (jr_entries j ! i) (b i) (a i) (st i)"
    and o: "open_dirs fs (butlast (target_at root j i))"
    and "fs (butlast (stage_path (jr_dir j) i)) = Some Directory"
    and "fs (butlast (backup_path (jr_dir j) i)) = Some Directory"
    using assms by (simp_all add: tx_state_def stage_path_def backup_path_def butlast_append)
  have "fs [] = Some Directory" using assms by (simp add: tx_state_def)
  then show "with_dirs (butlast (target_at root j i)) fs (butlast (target_at root j i)) = Some Directory"
    using o by (auto simp: with_dirs_def open_dirs_def)
qed

text \<open>The paths of one entry are pairwise different and not above its target.\<close>

lemma entry_paths:
  assumes "tx_layout dig root j b a" "i < length (jr_entries j)"
  shows "target_at root j i \<noteq> stage_path (jr_dir j) i" "target_at root j i \<noteq> backup_path (jr_dir j) i"
    "with_dirs (butlast (target_at root j i)) fs (target_at root j i) = fs (target_at root j i)"
    "with_dirs (butlast (target_at root j i)) fs (stage_path (jr_dir j) i) = fs (stage_path (jr_dir j) i)"
    "with_dirs (butlast (target_at root j i)) fs (backup_path (jr_dir j) i) = fs (backup_path (jr_dir j) i)"
proof -
  let ?T = "target_at root j i" and ?S = "stage_path (jr_dir j) i" and ?B = "backup_path (jr_dir j) i"
  have np: "\<not> prefix ?S ?T" "\<not> prefix ?B ?T"
    using tx_layoutD(5) [OF assms] tx_layout_dir(2,3) [OF assms(1)] by blast+
  then show "?T \<noteq> ?S" "?T \<noteq> ?B" by auto
  have "\<not> prefix p (butlast ?T)" if "\<not> prefix p ?T" for p
    using that by (metis prefix_order.trans prefixeq_butlast)
  then show "with_dirs (butlast ?T) fs ?S = fs ?S" "with_dirs (butlast ?T) fs ?B = fs ?B"
    using np by (simp_all add: with_dirs_def)
  have "?T \<noteq> []" using tx_layoutD(7) [OF assms] by auto
  then have "\<not> prefix ?T (butlast ?T)"
    using prefix_length_le [of ?T "butlast ?T"] by (cases ?T) auto
  then show "with_dirs (butlast ?T) fs ?T = fs ?T" by (simp add: with_dirs_def)
qed

lemma target_walk:
  assumes lay: "tx_layout dig root j b a" and st: "tx_state root j b a fs0 rc st fs" and i: "i < length (jr_entries j)"
  shows "walk_symlinks fs root (drop (length root) (target_at root j i)) \<in> {Clean, Missing}"
proof -
  let ?T = "target_at root j i"
  obtain parts where T: "?T = root @ parts"
    unfolding target_at_def target_path_def by (metis append.right_neutral)
  have "fs ?T = as_node (b i) \<or> fs ?T = as_node (a i) \<or> fs ?T = None"
    using tx_state_entry(1) [OF lay st i] by (cases "st i") auto
  then have "fs ?T \<noteq> Some Symlink" by auto
  moreover have "open_dirs fs (butlast ?T)" by (rule tx_state_entry(2) [OF lay st i])
  ultimately have "walk_symlinks fs root parts = Clean \<or> walk_symlinks fs root parts = Missing"
    by (intro walk_open) (auto simp: T open_dirs_def)
  then show ?thesis by (simp add: T)
qed

lemma move_away:
  assumes lay: "tx_layout dig root j b a" and st: "tx_state root j b a fs0 rc st (w_fs w)"
    and i: "i < length (jr_entries j)" and nr: "\<And>k. forward (st k)" and s: "st i = Fresh" and old: "b i = Some old"
  shows "runs (tx_fs (rename_file (target_at root j i) (backup_path (jr_dir j) i))) w (in_tx root j b a fs0 rc w)
    (\<lambda>v. \<exists>fs. v = w\<lparr>w_fs := fs\<rparr> \<and> tx_state root j b a fs0 rc (st(i := Moved)) fs)"
proof -
  let ?T = "target_at root j i" and ?B = "backup_path (jr_dir j) i"
  let ?fs = "((w_fs w)(?T := None))(?B \<mapsto> File old)"
  note here = tx_state_entry [OF lay st i] and paths = entry_paths [OF lay i] and art = tx_layoutD(1,2) [OF lay i]
  have at: "w_fs w ?T = Some (File old)" "w_fs w ?B = None" "w_fs w (stage_path (jr_dir j) i) = as_node (a i)"
    using here(1) s old art by simp_all
  have fin: "tx_state root j b a fs0 rc (st(i := Moved)) ?fs"
  proof (rule tx_state_update [OF lay st i])
    show "entry_at ?fs ?T (jr_entries j ! i) (b i) (a i) Moved"
      using at paths(1,2) art old by simp
  qed auto
  have "forward ((st(i := Moved)) k)" for k using nr by simp
  moreover have "rename_file ?T ?B (w_fs w) = Inr ?fs"
    using at here(4) by (simp add: rename_file_ok)
  ultimately show ?thesis using in_txI [OF fin] fin by (auto intro!: runs_fs)
qed

lemma move_in:
  assumes lay: "tx_layout dig root j b a" and st: "tx_state root j b a fs0 rc st (w_fs w)"
    and i: "i < length (jr_entries j)" and nr: "\<And>k. forward (st k)" and s: "st i = Moved \<or> st i = Fresh \<and> b i = None" and new: "a i = Some new"
  shows "runs (tx_seq (tx_fs (mkdir_all (butlast (target_at root j i))))
      (tx_fs (rename_file (stage_path (jr_dir j) i) (target_at root j i)))) w (in_tx root j b a fs0 rc w)
    (\<lambda>v. \<exists>fs. v = w\<lparr>w_fs := fs\<rparr> \<and> tx_state root j b a fs0 rc (st(i := Done)) fs)"
proof -
  let ?T = "target_at root j i" and ?S = "stage_path (jr_dir j) i"
  let ?d = "with_dirs (butlast ?T) (w_fs w)"
  let ?fs = "(?d(?S := None))(?T \<mapsto> File new)"
  note here = tx_state_entry [OF lay st i] and paths = entry_paths [OF lay i] and art = tx_layoutD(1,2) [OF lay i]
  have at: "w_fs w ?T = None" "w_fs w ?S = Some (File new)" "w_fs w (backup_path (jr_dir j) i) = as_node (b i)"
    using here(1) s new art by auto
  have "tx_state root j b a fs0 rc (st(i := st i)) ?d"
  proof (rule tx_state_update [OF lay st i])
    show "entry_at ?d ?T (jr_entries j ! i) (b i) (a i) (st i)"
      using here(1) paths art s by auto
  qed auto
  then have mid: "tx_state root j b a fs0 rc st ?d" by simp
  have fin: "tx_state root j b a fs0 rc (st(i := Done)) ?fs"
  proof (rule tx_state_update [OF lay st i])
    show "entry_at ?fs ?T (jr_entries j ! i) (b i) (a i) Done"
      using at paths art new by simp
  qed auto
  have "rename_file ?S ?T ?d = Inr ?fs"
    using at here(5) paths by (simp add: rename_file_ok)
  moreover have "forward ((st(i := Done)) k)" for k using nr by simp
  ultimately show ?thesis
    using mkdir_all_eq [OF here(2)] in_txI [OF mid nr] in_txI [OF fin] fin by (auto intro!: runs_seq runs_fs)
qed

lemma publish_entry_runs:
  assumes lay: "tx_layout dig root j b a" and st: "tx_state root j b a fs0 rc st (w_fs w)"
    and i: "i < length (jr_entries j)" and nr: "\<And>k. forward (st k)" and s: "st i = Fresh"
  shows "runs (publish_entry dig root (jr_entries j ! i)) w (in_tx root j b a fs0 rc w)
    (\<lambda>v. \<exists>fs. v = w\<lparr>w_fs := fs\<rparr> \<and> tx_state root j b a fs0 rc (st(i := Done)) fs)"
proof -
  let ?en = "jr_entries j ! i" and ?T = "target_at root j i"
  let ?Q = "\<lambda>st v. \<exists>fs. v = w\<lparr>w_fs := fs\<rparr> \<and> tx_state root j b a fs0 rc st fs"
  note here = tx_state_entry [OF lay st i] and art = tx_layoutD [OF lay i]
  have T: "target_path root (en_path ?en) = ?T" by (simp add: target_at_def)
  have rec: "en_before_exists ?en = (b i \<noteq> None)" "en_after_exists ?en = (a i \<noteq> None)" "b i \<noteq> None \<or> a i \<noteq> None"
    and dig: "\<And>x. b i = Some x \<Longrightarrow> en_before_digest ?en = dig x"
    using art(4) by (auto simp: entry_records_def)
  define st1 where "st1 = (if b i = None then st else st(i := Moved))"
  let ?away = "if en_before_exists ?en
       then tx_seq (tx_check (\<lambda>w. if has_digest dig ?T (en_before_digest ?en) (w_fs w) then None
              else Some (ChangedDuringPublication (en_path ?en)))) (tx_fs (rename_file ?T (en_backup ?en)))
       else tx_check (\<lambda>w. if w_fs w ?T = None then None else Some (AppearedDuringPublication (en_path ?en)))"
  let ?in = "if en_after_exists ?en
       then tx_seq (tx_fs (mkdir_all (butlast ?T))) (tx_fs (rename_file (en_stage ?en) ?T)) else tx_return"
  have away: "runs ?away w (in_tx root j b a fs0 rc w) (?Q st1)"
  proof (cases "b i")
    case None
    then show ?thesis
      using rec here(1) s st by (auto simp: st1_def intro!: runs_check exI [of _ "w_fs w"])
  next
    case (Some old)
    then have "has_digest dig ?T (en_before_digest ?en) (w_fs w)"
      using here(1) s dig by (simp add: has_digest_def)
    then show ?thesis
      using move_away [OF lay st i nr s Some] rec Some art by (simp add: st1_def runs_seq runs_check)
  qed
  have in': "runs ?in v (in_tx root j b a fs0 rc w) (?Q (st(i := Done)))" if q: "?Q st1 v" for v
  proof -
    obtain fs where v: "v = w\<lparr>w_fs := fs\<rparr>" and fs: "tx_state root j b a fs0 rc st1 (w_fs v)"
      using q by auto
    have s1: "st1 i = Moved \<or> st1 i = Fresh \<and> b i = None" by (simp add: st1_def s)
    have upd: "st1(i := Done) = st(i := Done)" by (simp add: st1_def)
    have nr1: "forward (st1 k)" for k using nr by (simp add: st1_def)
    show ?thesis
    proof (cases "a i")
      case None
      then have "entry_at (w_fs v) ?T ?en (b i) (a i) Done"
        using tx_state_entry(1) [OF lay fs i] s1 rec by auto
      then have "tx_state root j b a fs0 rc (st1(i := Done)) (w_fs v)"
        by (intro tx_state_update [OF lay fs i]) auto
      then show ?thesis using None rec v upd by (auto intro!: runs_return)
    next
      case (Some new)
      have "in_tx root j b a fs0 rc v = in_tx root j b a fs0 rc w" by (auto simp: in_tx_def v fun_eq_iff)
      then show ?thesis
        using move_in [OF lay fs i nr1 s1 Some] rec Some art upd by (simp add: v)
    qed
  qed
  have walk: "(case walk_symlinks (w_fs w) root (drop (length root) ?T) of
      Linked \<Rightarrow> Some ContainsSymlink | Blocked \<Rightarrow> Some NotADirectory | _ \<Rightarrow> None) = None"
    using target_walk [OF lay st i] by auto
  have rest: "runs (tx_all [?away, ?in]) w (in_tx root j b a fs0 rc w) (?Q (st(i := Done)))"
    by (rule runs_Cons, rule runs_weaken [OF away], assumption, rule runs_Cons, rule runs_weaken [OF in'],
        assumption, assumption, rule runs_Nil)
  show ?thesis
    unfolding publish_entry_def Let_def T by (rule runs_Cons, rule runs_check, rule walk, rule rest)
qed

lemma tx_state_cong:
  "(\<And>i. i < length (jr_entries j) \<Longrightarrow> st i = st' i) \<Longrightarrow>
   tx_state root j b a fs0 rc st fs \<longleftrightarrow> tx_state root j b a fs0 rc st' fs"
  by (simp add: tx_state_def)

lemma publish_entries_runs:
  assumes "tx_layout dig root j b a" "k \<le> length (jr_entries j)"
    and "tx_state root j b a fs0 rc (\<lambda>i. if i < k then Done else Fresh) (w_fs w)"
  shows "runs (tx_all (map (publish_entry dig root) (drop k (jr_entries j)))) w (in_tx root j b a fs0 rc w)
    (\<lambda>v. \<exists>fs. v = w\<lparr>w_fs := fs\<rparr> \<and> tx_state root j b a fs0 rc (\<lambda>_. Done) fs)"
  using assms(2,3)
proof (induction "length (jr_entries j) - k" arbitrary: k w)
  case 0
  then have "tx_state root j b a fs0 rc (\<lambda>_. Done) (w_fs w)"
    using tx_state_cong [of j "\<lambda>i. if i < k then Done else Fresh" "\<lambda>_. Done"] by simp
  then show ?case using 0 by (auto intro!: runs_return exI [of _ "w_fs w"])
next
  case (Suc m)
  let ?Q = "\<lambda>w st v. \<exists>fs. v = w\<lparr>w_fs := fs\<rparr> \<and> tx_state root j b a fs0 rc st fs"
  let ?st = "\<lambda>k i. if i < k then Done else Fresh"
  have k: "k < length (jr_entries j)" using Suc.hyps by simp
  have st: "(?st k)(k := Done) = ?st (Suc k)" by (auto simp: fun_eq_iff)
  have first: "runs (publish_entry dig root (jr_entries j ! k)) w (in_tx root j b a fs0 rc w) (?Q w (?st (Suc k)))"
    using publish_entry_runs [OF assms(1) Suc.prems(2) k] unfolding st by simp
  have rest: "runs (tx_all (map (publish_entry dig root) (drop (Suc k) (jr_entries j)))) v
      (in_tx root j b a fs0 rc w) (?Q w (\<lambda>_. Done))" if q: "?Q w (?st (Suc k)) v" for v
  proof -
    have v: "v\<lparr>w_fs := fs\<rparr> = w\<lparr>w_fs := fs\<rparr>" for fs using q by auto
    have "in_tx root j b a fs0 rc v = in_tx root j b a fs0 rc w" by (auto simp: in_tx_def v fun_eq_iff)
    then show ?thesis
      using Suc.hyps(1) [of "Suc k" v] Suc.hyps(2) k q by (auto simp: v)
  qed
  show ?case
    unfolding Cons_nth_drop_Suc [OF k, symmetric] list.map
    by (rule runs_Cons, rule runs_weaken [OF first], assumption, rule rest)
qed

section \<open>Uninterrupted recovery\<close>

lemma restore_backup_runs:
  assumes lay: "tx_layout dig root j b a" and st: "tx_state root j b a fs0 rc st (w_fs w)"
    and i: "i < length (jr_entries j)" and nl: "st i \<noteq> Lost" and old: "w_fs w (backup_path (jr_dir j) i) \<noteq> None"
  shows "runs (restore_backup dig (target_at root j i) (jr_entries j ! i)) w (\<lambda>_. True)
    (\<lambda>v. \<exists>fs. v = w\<lparr>w_fs := fs\<rparr> \<and> tx_state root j b a fs0 rc (st(i := Restored)) fs)"
proof -
  let ?en = "jr_entries j ! i" and ?T = "target_at root j i" and ?B = "backup_path (jr_dir j) i"
  note here = tx_state_entry [OF lay st i] and art = tx_layoutD [OF lay i] and paths = entry_paths [OF lay i]
  obtain c where c: "b i = Some c" "w_fs w ?B = Some (File c)"
    using here(1) art old nl by (cases "st i"; cases "b i") auto
  have T: "w_fs w ?T = as_node (a i) \<and> st i = Done \<or> w_fs w ?T = None \<and> w_fs w (stage_path (jr_dir j) i) = as_node (a i)"
    using here(1) c art nl by (cases "st i") auto
  have ver: "verify_target dig ?T ?en (w_fs w) = None"
    using T art(1,4) by (auto simp: verify_target_def regular_file_bytes_def entry_records_def split: option.splits)
  have dig: "has_digest dig (en_backup ?en) (en_before_digest ?en) (w_fs w)"
    using c art(2,4) by (auto simp: has_digest_def entry_records_def)
  define gone where "gone = (w_fs w)(?T := None)"
  define fs where "fs = ((with_dirs (butlast ?T) gone)(?B := None))(?T \<mapsto> File c)"
  have removed: "runs (remove_if_exists ?T) w (\<lambda>_. True) (\<lambda>v. v = w\<lparr>w_fs := gone\<rparr>)"
    using T by (cases "a i") (auto simp: remove_if_exists_def lstat_open [OF here(2)] runs_def tx_return_def
        tx_fs_def remove_file_def fun_upd_idem gone_def)
  have short: "\<not> prefix ?T (butlast ?T)"
    using prefix_length_le [of ?T "butlast ?T"] art(7) by (cases ?T) auto
  have open_gone: "open_dirs gone (butlast ?T)"
    using here(2) by (auto simp: open_dirs_def gone_def)
  have wd: "with_dirs (butlast ?T) gone p = (if p = ?T then None else with_dirs (butlast ?T) (w_fs w) p)" for p
    using short by (simp add: with_dirs_def gone_def)
  have "tx_state root j b a fs0 rc (st(i := Restored)) fs"
    by (rule tx_state_update [OF lay st i]) (use c art paths in \<open>auto simp: wd fs_def\<close>)
  moreover have "rename_file (en_backup ?en) ?T (with_dirs (butlast ?T) gone) = Inr fs"
    unfolding fs_def art(2)
  proof (rule rename_file_ok)
    show "with_dirs (butlast ?T) gone ?B = Some (File c)"
      using c paths(2) by (simp add: paths(5) gone_def)
    have "butlast ?T \<noteq> ?T" using short by auto
    then show "with_dirs (butlast ?T) gone (butlast ?T) = Some Directory"
      using here(5) by (simp add: wd)
  qed (simp add: wd)
  ultimately show ?thesis
    using dig ver mkdir_all_eq [OF open_gone] unfolding restore_backup_def
    by (intro runs_Cons runs_check runs_weaken [OF removed] runs_fs runs_Nil) auto
qed

lemma restore_entry_runs:
  assumes lay: "tx_layout dig root j b a" and st: "tx_state root j b a fs0 rc st (w_fs w)"
    and i: "i < length (jr_entries j)" and nl: "st i \<noteq> Lost"
  shows "runs (restore_entry dig root (jr_entries j ! i)) w (\<lambda>_. True)
    (\<lambda>v. \<exists>fs. v = w\<lparr>w_fs := fs\<rparr> \<and> tx_state root j b a fs0 rc (st(i := Restored)) fs)"
proof -
  let ?en = "jr_entries j ! i" and ?T = "target_at root j i" and ?B = "backup_path (jr_dir j) i"
  let ?Q = "\<lambda>v. \<exists>fs. v = w\<lparr>w_fs := fs\<rparr> \<and> tx_state root j b a fs0 rc (st(i := Restored)) fs"
  note here = tx_state_entry [OF lay st i] and art = tx_layoutD [OF lay i] and paths = entry_paths [OF lay i]
  have rec: "en_before_exists ?en = (b i \<noteq> None)" "b i \<noteq> None \<or> a i \<noteq> None"
    and dig: "\<And>x. b i = Some x \<Longrightarrow> en_before_digest ?en = dig x" "\<And>x. a i = Some x \<Longrightarrow> en_after_digest ?en = dig x"
    using art(4) by (auto simp: entry_records_def)
  consider (backup) "w_fs w ?B \<noteq> None"
    | (new) c where "w_fs w ?B = None" "b i = None" "a i = Some c" "w_fs w ?T = Some (File c)"
    | (same) "w_fs w ?B = None" "w_fs w ?T = as_node (b i)"
    using here(1) art(1,2) rec nl by (cases "st i"; cases "a i"; cases "b i") auto
  then show ?thesis
  proof cases
    case backup
    then show ?thesis
      using restore_backup_runs [OF lay st i nl] art by (simp add: restore_entry_def runs_def)
  next
    case new
    have "tx_state root j b a fs0 rc (st(i := Restored)) ((w_fs w)(?T := None))"
      by (rule tx_state_update [OF lay st i]) (use new paths art in auto)
    then have "runs (tx_fs (remove_file ?T)) w (\<lambda>_. True) ?Q"
      using new by (auto intro!: runs_fs simp: remove_file_def)
    then show ?thesis
      using new rec dig art by (simp add: restore_entry_def regular_file_bytes_def runs_def)
  next
    case same
    have "tx_state root j b a fs0 rc (st(i := Restored)) (w_fs w)"
      by (rule tx_state_update [OF lay st i]) (use same art in auto)
    then have "runs tx_return w (\<lambda>_. True) ?Q"
      by (auto intro!: runs_return exI [of _ "w_fs w"])
    then show ?thesis
      using same rec dig art by (cases "b i") (simp_all add: restore_entry_def has_digest_def runs_def)
  qed
qed

lemma restore_entries_runs:
  assumes "tx_layout dig root j b a" "k \<le> length (jr_entries j)" "tx_state root j b a fs0 rc st (w_fs w)"
    and "\<And>i. k \<le> i \<Longrightarrow> st i = Restored" and "\<And>i. st i \<noteq> Lost"
  shows "runs (tx_all (map (restore_entry dig root) (rev (take k (jr_entries j))))) w (\<lambda>_. True)
    (\<lambda>v. \<exists>fs. v = w\<lparr>w_fs := fs\<rparr> \<and> tx_state root j b a fs0 rc (\<lambda>_. Restored) fs)"
  using assms(2-5)
proof (induction k arbitrary: w st)
  case 0
  then have "st = (\<lambda>_. Restored)" by auto
  then show ?case using 0 by (auto intro!: runs_return exI [of _ "w_fs w"])
next
  case (Suc k)
  let ?Q = "\<lambda>w st v. \<exists>fs. v = w\<lparr>w_fs := fs\<rparr> \<and> tx_state root j b a fs0 rc st fs"
  have k: "k < length (jr_entries j)" using Suc.prems by simp
  note first = restore_entry_runs [OF assms(1) Suc.prems(2) k Suc.prems(4)]
  have rest: "runs (tx_all (map (restore_entry dig root) (rev (take k (jr_entries j))))) v (\<lambda>_. True)
      (?Q w (\<lambda>_. Restored))" if q: "?Q w (st(k := Restored)) v" for v
  proof -
    have v: "v\<lparr>w_fs := fs\<rparr> = w\<lparr>w_fs := fs\<rparr>" for fs using q by auto
    define st' where "st' = st(k := Restored)"
    have "st' i = Restored" if "k \<le> i" for i
      using Suc.prems(3) [of i] that by (auto simp: st'_def)
    moreover have "st' i \<noteq> Lost" for i using Suc.prems(4) by (simp add: st'_def)
    moreover have "tx_state root j b a fs0 rc st' (w_fs v)"
      using q by (auto simp: st'_def)
    ultimately show ?thesis using Suc.IH [where w = v and st = st'] k by (simp add: v)
  qed
  have "rev (take (Suc k) (jr_entries j)) = jr_entries j ! k # rev (take k (jr_entries j))"
    using k by (simp add: take_Suc_conv_app_nth)
  then show ?case
    by (simp only: list.map) (rule runs_Cons, rule runs_weaken [OF first], assumption, rule rest)
qed

lemma validate_artifact_ok:
  assumes "prefix troot (butlast p)" "\<And>q. prefix q (butlast p) \<Longrightarrow> fs q = Some Directory" "fs p = as_node c"
  shows "validate_artifact troot fs p = None"
proof -
  obtain parts where parts: "butlast p = troot @ parts" using assms(1) by (auto simp: prefix_def)
  have "walk_symlinks fs troot parts = Clean"
    by (rule walk_clean)
      (use assms(2) parts in \<open>auto intro: prefix_order.trans [OF _ prefixeq_butlast]\<close>)
  moreover have "lstat fs p = Inr (fs p)"
    by (rule lstat_open) (use assms(2) in \<open>auto simp: open_dirs_def\<close>)
  ultimately show ?thesis
    using assms(3) parts by (cases c) (auto simp: validate_artifact_def)
qed

lemma validate_entries_ok:
  assumes "\<And>k. k < length ens \<Longrightarrow> en_stage (ens ! k) = stage_path dir (i + k)
      \<and> en_backup (ens ! k) = backup_path dir (i + k)
      \<and> validate_artifact troot fs (stage_path dir (i + k)) = None
      \<and> validate_artifact troot fs (backup_path dir (i + k)) = None
      \<and> (\<exists>p. confined_path root (en_path (ens ! k)) = Inr p)"
  shows "validate_entries root troot dir fs i ens = None"
  using assms
proof (induction ens arbitrary: i)
  case (Cons en ens)
  have "validate_entries root troot dir fs (Suc i) ens = None"
  proof (rule Cons.IH, goal_cases)
    case (1 k)
    then show ?case using Cons.prems [of "Suc k"] by simp
  qed
  then show ?case using Cons.prems [of 0] by (auto simp: opt_seq_def)
qed simp

lemma validate_metadata_ok:
  assumes lay: "tx_layout dig root j b a" and st: "tx_state root j b a fs0 rc st fs"
    and fresh: "\<And>i. st i \<noteq> Restored" and rc: "rc = None \<or> rc = Some (File c)"
    and lock: "\<And>l. lock = Some l \<Longrightarrow> lk_dir l = jr_dir j"
  shows "validate_metadata root lock j fs = None"
proof -
  let ?dir = "jr_dir j" and ?n = "length (jr_entries j)"
  note d = tx_layout_dir [OF lay]
  have dirs: "fs q = Some Directory" if "prefix q ?dir" for q
    using st that by (simp add: tx_state_def)
  have dirs2: "fs q = Some Directory" if "prefix q (?dir @ [x])" "x = ''staged'' \<or> x = ''backups''" for q x
    using st that dirs by (auto simp: tx_state_def)
  have "validate_directory (tx_root root) ?dir fs = None"
    using lay dirs [of ?dir] by (auto simp: validate_directory_def tx_layout_def)
  moreover have "validate_receipt root (jr_receipt j) fs = None"
  proof -
    obtain parts where dir: "?dir = root @ parts" using d(4) by (auto simp: tx_root_def)
    have "walk_symlinks fs root (parts @ [''committed'']) = Clean" if "fs (receipt_path ?dir) \<noteq> None"
      by (rule walk_clean)
        (use dirs st rc that in \<open>auto simp: tx_state_def receipt_path_def dir butlast_append\<close>)
    moreover have "jr_receipt j = Some (receipt_path ?dir)" using lay by (simp add: tx_layout_def)
    ultimately show ?thesis
      by (cases "fs (receipt_path ?dir)") (simp_all add: validate_receipt_def receipt_path_def dir below_prefix)
  qed
  moreover have "validate_entries root (tx_root root) ?dir fs 0 (jr_entries j) = None"
  proof (rule validate_entries_ok)
    fix i assume i: "i < ?n"
    have at: "entry_at fs (target_at root j i) (jr_entries j ! i) (b i) (a i) (st i)"
      by (rule tx_state_entry(1) [OF lay st i])
    have "\<exists>c. fs (stage_path ?dir i) = as_node c" "\<exists>c. fs (backup_path ?dir i) = as_node c"
      using at fresh [of i] tx_layoutD(1,2) [OF lay i] by (cases "st i"; auto intro: exI [of _ None])+
    then have "validate_artifact (tx_root root) fs (stage_path ?dir i) = None"
      "validate_artifact (tx_root root) fs (backup_path ?dir i) = None"
      using d(1) dirs2 by (auto intro!: validate_artifact_ok simp: stage_path_def backup_path_def butlast_append)
    then show "en_stage (jr_entries j ! i) = stage_path ?dir (0 + i)
      \<and> en_backup (jr_entries j ! i) = backup_path ?dir (0 + i)
      \<and> validate_artifact (tx_root root) fs (stage_path ?dir (0 + i)) = None
      \<and> validate_artifact (tx_root root) fs (backup_path ?dir (0 + i)) = None
      \<and> (\<exists>p. confined_path root (en_path (jr_entries j ! i)) = Inr p)"
      using tx_layoutD(1-3) [OF lay i] by auto
  qed
  ultimately show ?thesis
    using lock by (auto simp: validate_metadata_def opt_seq_def split: option.splits)
qed

text \<open>What a finished recovery leaves: no transaction, and the given contents in all targets.\<close>

definition settled :: "fpath \<Rightarrow> journal \<Rightarrow> contents \<Rightarrow> fs \<Rightarrow> workspace \<Rightarrow> bool" where
  "settled root j c fs0 w \<longleftrightarrow>
     w_lock w = None \<and> w_journal w = None \<and> (\<forall>p. below (jr_dir j) p \<longrightarrow> w_fs w p = None)
     \<and> (\<forall>i<length (jr_entries j). w_fs w (target_at root j i) = as_node (c i))
     \<and> (\<forall>p. p \<notin> target_at root j ` {..<length (jr_entries j)} \<and> \<not> below (jr_dir j) p \<longrightarrow>
          w_fs w p = fs0 p \<or> fs0 p = None \<and> w_fs w p = Some Directory)"

lemma settledI:
  assumes lay: "tx_layout dig root j b a" and st: "tx_state root j b a fs0 rc st fs"
    and c: "\<And>i. i < length (jr_entries j) \<Longrightarrow> fs (target_at root j i) = as_node (c i)"
    and w: "w_lock w = None" "w_journal w = None" "w_fs w = remove_all (jr_dir j) fs"
  shows "settled root j c fs0 w"
proof -
  have "\<not> below (jr_dir j) (target_at root j i)" if "i < length (jr_entries j)" for i
    using tx_layoutD(5) [OF lay that tx_layout_dir(1) [OF lay]] by (simp add: below_prefix)
  then show ?thesis using st c w by (auto simp: settled_def remove_all_def tx_state_def)
qed

lemma tx_root_entry:
  assumes "\<And>q. prefix q (tx_root root) \<Longrightarrow> fs q = Some Directory"
  shows "lstat fs (tx_root root) = Inr (Some Directory)" "walk_symlinks fs root [''.scenery'', ''transactions''] = Clean"
proof -
  have "open_dirs fs (butlast (tx_root root))"
    unfolding open_dirs_def using assms by (metis prefix_order.trans prefixeq_butlast)
  then show "lstat fs (tx_root root) = Inr (Some Directory)"
    by (simp add: lstat_open assms)
  show "walk_symlinks fs root [''.scenery'', ''transactions''] = Clean"
    by (rule walk_clean) (use assms prefixeq_butlast in \<open>auto simp: tx_root_def intro: prefix_order.trans\<close>)
qed

lemma recover_with_journal:
  assumes "\<And>q. prefix q (tx_root root) \<Longrightarrow> w_fs w q = Some Directory"
    and "w_lock w = Some (Valid l)" "w_journal w = Some (Valid j)"
    and "inspect (lk_owner l) = OwnerRecoverable" "inspect (jr_owner j) = OwnerRecoverable"
    and "validate_metadata root (Some l) j (w_fs w) = None"
  shows "recover_or_reject dig inspect root False w = finish_recovery dig root j w"
  using assms(2-) tx_root_entry [of root "w_fs w", OF assms(1)]
  by (simp add: recover_or_reject_def recover_with_owner_inspector_def read_lock_def owner_blocks_def
      recover_journal_def del: walk_symlinks.simps)

lemma recover_uncommitted:
  assumes lay: "tx_layout dig root j b a" and st: "tx_state root j b a fs0 None st (w_fs w)" and nr: "\<And>i. forward (st i)"
    and meta: "w_lock w = Some (Valid l)" "lk_dir l = jr_dir j" "w_journal w = Some (Valid j)"
    and dead: "inspect (lk_owner l) = OwnerRecoverable" "inspect (jr_owner j) = OwnerRecoverable"
  shows "\<exists>ws w'. recover_or_reject dig inspect root False w = (ws, Inr w') \<and> settled root j b fs0 w'"
proof -
  have dirs: "w_fs w q = Some Directory" if "prefix q (tx_root root)" for q
    using st that prefix_order.trans [OF that tx_layout_dir(1) [OF lay]] by (simp add: tx_state_def)
  have "recover_or_reject dig inspect root False w = finish_recovery dig root j w"
    by (rule recover_with_journal [OF dirs meta(1,3) dead])
      (use validate_metadata_ok [OF lay st] nr meta(2) in \<open>auto simp: forward_def\<close>)
  moreover have "\<not> committed j (w_fs w)"
    using lay st by (simp add: committed_def tx_layout_def tx_state_def)
  moreover have "runs (tx_seq (tx_all (map (restore_entry dig root) (rev (jr_entries j))))
      (tx_all [remove_journal, remove_dir (jr_dir j), remove_lock])) w (\<lambda>_. True) (settled root j b fs0)"
  proof (rule runs_seq, rule runs_weaken [where I = "\<lambda>_. True"])
    show "runs (tx_all (map (restore_entry dig root) (rev (jr_entries j)))) w (\<lambda>_. True)
      (\<lambda>v. \<exists>fs. v = w\<lparr>w_fs := fs\<rparr> \<and> tx_state root j b a fs0 None (\<lambda>_. Restored) fs)"
      using restore_entries_runs [OF lay, of "length (jr_entries j)" fs0 None
          "\<lambda>i. if i < length (jr_entries j) then st i else Restored" w] st nr
        tx_state_cong [of j st "\<lambda>i. if i < length (jr_entries j) then st i else Restored"]
      by (simp add: forward_def)
    fix v assume "\<exists>fs. v = w\<lparr>w_fs := fs\<rparr> \<and> tx_state root j b a fs0 None (\<lambda>_. Restored) fs"
    then obtain fs where v: "v = w\<lparr>w_fs := fs\<rparr>" and fs: "tx_state root j b a fs0 None (\<lambda>_. Restored) fs" by blast
    have "settled root j b fs0 (v\<lparr>w_journal := None, w_fs := remove_all (jr_dir j) fs, w_lock := None\<rparr>)"
      by (rule settledI [OF lay fs]) (use tx_state_entry(1) [OF lay fs] in auto)
    then show "runs (tx_all [remove_journal, remove_dir (jr_dir j), remove_lock]) v (\<lambda>_. True) (settled root j b fs0)"
      unfolding remove_journal_def remove_dir_def remove_lock_def
      by (intro runs_Cons runs_set runs_Nil TrueI) (simp add: v)
  qed simp
  ultimately show ?thesis by (simp add: finish_recovery_def runs_result)
qed

lemma recover_committed:
  assumes lay: "tx_layout dig root j b a" and st: "tx_state root j b a fs0 (Some (File c)) (\<lambda>_. Done) (w_fs w)"
    and meta: "w_lock w = Some (Valid l)" "lk_dir l = jr_dir j" "w_journal w = Some (Valid j)"
    and dead: "inspect (lk_owner l) = OwnerRecoverable" "inspect (jr_owner j) = OwnerRecoverable"
  shows "\<exists>ws w'. recover_or_reject dig inspect root False w = (ws, Inr w') \<and> settled root j a fs0 w'"
proof -
  have dirs: "w_fs w q = Some Directory" if "prefix q (tx_root root)" for q
    using st that prefix_order.trans [OF that tx_layout_dir(1) [OF lay]] by (simp add: tx_state_def)
  have "recover_or_reject dig inspect root False w = finish_recovery dig root j w"
    by (rule recover_with_journal [OF dirs meta(1,3) dead])
      (use validate_metadata_ok [OF lay st] meta(2) in auto)
  moreover have "committed j (w_fs w)"
    using lay st by (simp add: committed_def tx_layout_def tx_state_def)
  moreover have "settled root j a fs0 (w\<lparr>w_journal := None, w_fs := remove_all (jr_dir j) (w_fs w), w_lock := None\<rparr>)"
    by (rule settledI [OF lay st]) (use tx_state_entry(1) [OF lay st] in auto)
  then have "runs (tx_all [remove_journal, remove_dir (jr_dir j), remove_lock]) w (\<lambda>_. True) (settled root j a fs0)"
    unfolding remove_journal_def remove_dir_def remove_lock_def
    by (intro runs_Cons runs_set runs_Nil TrueI) simp
  then have "runs (tx_seq tx_return (tx_all [remove_journal, remove_dir (jr_dir j), remove_lock])) w (\<lambda>_. True)
    (settled root j a fs0)" by (intro runs_seq runs_return)
  ultimately show ?thesis by (simp add: finish_recovery_def runs_result)
qed

lemma recover_lock_left:
  assumes dirs: "\<And>q. prefix q (tx_root root) \<Longrightarrow> w_fs w q = Some Directory" and lay: "tx_layout dig root j b a"
    and "w_lock w = Some (Valid l)" "lk_dir l = jr_dir j" "w_journal w = None" "w_fs w (jr_dir j) \<noteq> Some Symlink"
    and "inspect (lk_owner l) = OwnerRecoverable"
  shows "\<exists>ws. recover_or_reject dig inspect root False w =
    (ws, Inr (w\<lparr>w_fs := remove_all (jr_dir j) (w_fs w), w_lock := None\<rparr>))"
proof -
  have "validate_directory (tx_root root) (jr_dir j) (w_fs w) = None"
    using assms by (simp add: validate_directory_def tx_layout_def)
  then show ?thesis
    using assms(3-) tx_root_entry [of root "w_fs w", OF dirs]
    by (simp add: recover_or_reject_def recover_with_owner_inspector_def read_lock_def owner_blocks_def
        recover_lock_only_def remove_dir_def remove_lock_def tx_seq_def tx_set_def del: walk_symlinks.simps)
qed

lemma recover_nothing:
  assumes dirs: "\<And>q. prefix q (tx_root root) \<Longrightarrow> w_fs w q = Some Directory" and "w_lock w = None" "w_journal w = None"
  shows "recover_or_reject dig inspect root False w = ([], Inr w)"
  using assms(2-) tx_root_entry [of root "w_fs w", OF dirs]
  by (simp add: recover_or_reject_def recover_with_owner_inspector_def read_lock_def tx_return_def
      del: walk_symlinks.simps)

lemma tx_state_receipt:
  assumes lay: "tx_layout dig root j b a" and st: "tx_state root j b a fs0 rc st fs"
  shows "tx_state root j b a fs0 (Some n) st (fs(receipt_path (jr_dir j) \<mapsto> n))"
proof -
  let ?R = "receipt_path (jr_dir j)"
  have pre: "prefix (tx_root root) ?R" using tx_layout_dir(1) [OF lay] by (auto simp: receipt_path_def)
  have T: "\<not> prefix ?R (target_at root j i)" if "i < length (jr_entries j)" for i
    by (rule tx_layoutD(5) [OF lay that pre])
  have "entry_at (fs(?R \<mapsto> n)) (target_at root j i) (jr_entries j ! i) (b i) (a i) (st i)" if "i < length (jr_entries j)" for i
    using tx_state_entry(1) [OF lay st that] T [OF that] tx_layoutD(1,2) [OF lay that] artifact_not_dir
    by (cases "st i") auto
  moreover have "open_dirs (fs(?R \<mapsto> n)) (butlast (target_at root j i))" if "i < length (jr_entries j)" for i
    using tx_state_entry(2) [OF lay st that] T [OF that] prefix_order.trans [OF _ prefixeq_butlast]
    by (fastforce simp: open_dirs_def)
  moreover have "q \<noteq> ?R" if "prefix q (jr_dir j)" for q
    using prefix_length_le [OF that] by (auto simp: receipt_path_def)
  ultimately show ?thesis
    using st by (auto simp: tx_state_def receipt_path_def)
qed

lemma atomic_write_receipt:
  assumes "tx_layout dig root j b a" "tx_state root j b a fs0 None st fs"
  shows "atomic_write (receipt_path (jr_dir j)) c fs = Inr (fs(receipt_path (jr_dir j) \<mapsto> File c))"
proof -
  have d: "fs q = Some Directory" if "prefix q (jr_dir j)" for q
    using assms(2) that by (simp add: tx_state_def)
  then have "mkdir_all (jr_dir j) fs = Inr (with_dirs (jr_dir j) fs)"
    by (intro mkdir_all_eq) (simp add: open_dirs_def)
  moreover have "with_dirs (jr_dir j) fs = fs" using d by (auto simp: with_dirs_def fun_eq_iff)
  ultimately show ?thesis
    using assms(2) by (simp add: atomic_write_def receipt_path_def tx_state_def)
qed

section \<open>Atomicity\<close>

text \<open>
  The workspace of a publication whose files are staged: every target has its old contents, every new
  content is in its stage file.
\<close>

definition staged_transaction ::
  "(string \<Rightarrow> string) \<Rightarrow> fpath \<Rightarrow> journal \<Rightarrow> contents \<Rightarrow> contents \<Rightarrow> workspace \<Rightarrow> bool" where
  "staged_transaction dig root j b a w \<longleftrightarrow>
     tx_layout dig root j b a \<and> tx_state root j b a (w_fs w) None (\<lambda>_. Fresh) (w_fs w)
     \<and> (\<exists>l. w_lock w = Some (Valid l) \<and> lk_dir l = jr_dir j \<and> lk_owner l = jr_owner j) \<and> w_journal w = None"

definition recovers_to ::
  "(string \<Rightarrow> string) \<Rightarrow> (owner \<Rightarrow> owner_state) \<Rightarrow> fpath \<Rightarrow> workspace \<Rightarrow> (workspace \<Rightarrow> bool) \<Rightarrow> bool" where
  "recovers_to dig inspect root w P \<longleftrightarrow> (\<exists>ws w'. recover_or_reject dig inspect root False w = (ws, Inr w') \<and> P w')"

lemma recovers_to_mono: "recovers_to dig inspect root w P \<Longrightarrow> (\<And>v. P v \<Longrightarrow> Q v) \<Longrightarrow> recovers_to dig inspect root w Q"
  by (auto simp: recovers_to_def)

lemma cleanup_recovers:
  assumes lay: "tx_layout dig root j b a" and st: "tx_state root j b a fs0 rc st (w_fs w)"
    and c: "\<And>i. i < length (jr_entries j) \<Longrightarrow> w_fs w (target_at root j i) = as_node (c i)"
    and meta: "w_lock w = Some (Valid l)" "lk_dir l = jr_dir j" "w_journal w = None"
    and dead: "inspect (lk_owner l) = OwnerRecoverable"
  shows "recovers_to dig inspect root w (settled root j c fs0)"
    and "runs (cleanup (jr_dir j)) w (\<lambda>v. recovers_to dig inspect root v (settled root j c fs0)) (settled root j c fs0)"
proof -
  let ?gone = "remove_all (jr_dir j) (w_fs w)"
  have dirs: "w_fs w q = Some Directory" if "prefix q (tx_root root)" for q
    using st that prefix_order.trans [OF that tx_layout_dir(1) [OF lay]] by (simp add: tx_state_def)
  have above: "\<not> below (jr_dir j) q" if "prefix q (tx_root root)" for q
    using prefix_length_le [OF that] prefix_length_le [of "jr_dir j" q] tx_layout_dir(4) [OF lay]
    by (metis below_prefix length_append_singleton not_less_eq_eq order.trans)
  have dirs': "?gone q = Some Directory" if "prefix q (tx_root root)" for q
    using dirs [OF that] above [OF that] by (simp add: remove_all_def)
  have idem: "remove_all (jr_dir j) ?gone = ?gone" by (simp add: remove_all_def fun_eq_iff)
  have settled: "settled root j c fs0 (w\<lparr>w_fs := ?gone, w_lock := None\<rparr>)"
    by (rule settledI [OF lay st c]) (use meta in auto)
  have dirj: "w_fs w (jr_dir j) \<noteq> Some Symlink" "?gone (jr_dir j) \<noteq> Some Symlink"
    using st by (simp_all add: tx_state_def remove_all_def below_def)
  show one: "recovers_to dig inspect root w (settled root j c fs0)"
    using recover_lock_left [where w = w and inspect = inspect, OF dirs lay meta dirj(1) dead] settled by (auto simp: recovers_to_def)
  have "recovers_to dig inspect root (w\<lparr>w_fs := ?gone\<rparr>) (settled root j c fs0)"
    using recover_lock_left [where w = "w\<lparr>w_fs := ?gone\<rparr>" and l = l and dig = dig and inspect = inspect, OF _ lay]
      dirs' meta dirj dead settled idem by (auto simp: recovers_to_def)
  moreover have "recovers_to dig inspect root (w\<lparr>w_fs := ?gone, w_lock := None\<rparr>) (settled root j c fs0)"
    using recover_nothing [where w = "w\<lparr>w_fs := ?gone, w_lock := None\<rparr>" and dig = dig and inspect = inspect]
      dirs' meta settled by (auto simp: recovers_to_def)
  ultimately show "runs (cleanup (jr_dir j)) w (\<lambda>v. recovers_to dig inspect root v (settled root j c fs0)) (settled root j c fs0)"
    unfolding cleanup_def remove_dir_def remove_lock_def using settled by (intro runs_seq runs_set) auto
qed

lemma publication_phases:
  assumes lay: "tx_layout dig root j b a" and st: "tx_state root j b a fs0 None (\<lambda>_. Fresh) (w_fs w)"
    and meta: "w_lock w = Some (Valid l)" "lk_dir l = jr_dir j" "w_journal w = Some (Valid j)"
    and dead: "inspect (lk_owner l) = OwnerRecoverable" "inspect (jr_owner j) = OwnerRecoverable"
  shows "runs (install dig inspect root j) w
    (\<lambda>v. recovers_to dig inspect root v (\<lambda>u. settled root j b fs0 u \<or> settled root j a fs0 u))
    (\<lambda>v. \<exists>fs c. v = w\<lparr>w_fs := fs\<rparr> \<and> tx_state root j b a fs0 (Some (File c)) (\<lambda>_. Done) fs)"
    (is "runs _ w ?I ?Q")
  unfolding install_def
proof (rule runs_on_error, rule runs_seq, rule runs_weaken)
  show "runs (tx_all (map (publish_entry dig root) (jr_entries j))) w (in_tx root j b a fs0 None w)
    (\<lambda>v. \<exists>fs. v = w\<lparr>w_fs := fs\<rparr> \<and> tx_state root j b a fs0 None (\<lambda>_. Done) fs)"
    using publish_entries_runs [OF lay, of 0 fs0 None w] st by simp
next
  fix v assume "in_tx root j b a fs0 None w v"
  then obtain st' fs' where v: "v = w\<lparr>w_fs := fs'\<rparr>" "\<And>i. forward (st' i)" "tx_state root j b a fs0 None st' (w_fs v)"
    by (auto simp: in_tx_def)
  then show "?I v"
    using recover_uncommitted [where w = v, OF lay v(3) v(2) _ meta(2) _ dead] meta by (auto simp: recovers_to_def)
next
  fix v assume "\<exists>fs. v = w\<lparr>w_fs := fs\<rparr> \<and> tx_state root j b a fs0 None (\<lambda>_. Done) fs"
  then obtain fs' where v: "v = w\<lparr>w_fs := fs'\<rparr>" and fs': "tx_state root j b a fs0 None (\<lambda>_. Done) (w_fs v)" by auto
  let ?v = "v\<lparr>w_fs := (w_fs v)(receipt_path (jr_dir j) \<mapsto> File ''committed\<newline>'')\<rparr>"
  have fin: "tx_state root j b a fs0 (Some (File ''committed\<newline>'')) (\<lambda>_. Done) (w_fs ?v)"
    using tx_state_receipt [OF lay fs'] by simp
  have "?I ?v"
    using recover_committed [where w = ?v, OF lay fin _ meta(2) _ dead] meta by (auto simp: recovers_to_def v)
  then show "runs (tx_fs (atomic_write (receipt_path (jr_dir j)) ''committed\<newline>'')) v ?I ?Q"
    using atomic_write_receipt [OF lay fs', of "''committed\<newline>''"] fin
    by (intro runs_fs) (auto simp: v)
qed

lemma commit_journal_runs:
  assumes "staged_transaction dig root j b a w" "inspect (jr_owner j) = OwnerRecoverable"
  shows "recovers_to dig inspect root w (\<lambda>u. settled root j b (w_fs w) u \<or> settled root j a (w_fs w) u)" (is ?first)
    and "runs (commit_journal dig inspect root j) w
    (\<lambda>v. recovers_to dig inspect root v (\<lambda>u. settled root j b (w_fs w) u \<or> settled root j a (w_fs w) u))
    (settled root j a (w_fs w))" (is ?runs)
proof -
  let ?I = "\<lambda>v. recovers_to dig inspect root v (\<lambda>u. settled root j b (w_fs w) u \<or> settled root j a (w_fs w) u)"
  obtain l where lay: "tx_layout dig root j b a" and st: "tx_state root j b a (w_fs w) None (\<lambda>_. Fresh) (w_fs w)"
    and meta: "w_lock w = Some (Valid l)" "lk_dir l = jr_dir j" "lk_owner l = jr_owner j" "w_journal w = None"
    using assms(1) by (auto simp: staged_transaction_def)
  note dead = assms(2) [folded meta(3)] assms(2)
  have T: "w_fs w (target_at root j i) = as_node (b i)" if "i < length (jr_entries j)" for i
    using tx_state_entry(1) [OF lay st that] by simp
  let ?w = "w\<lparr>w_journal := Some (Valid j)\<rparr>"
  have start: "?I ?w"
    using recover_uncommitted [where w = ?w and st = "\<lambda>_. Fresh", OF lay _ _ _ meta(2) _ dead] st meta
    by (fastforce simp: recovers_to_def)
  show ?runs
    unfolding commit_journal_def
  proof (rule runs_Cons, rule runs_set [where f = "\<lambda>w. w\<lparr>w_journal := Some (Valid j)\<rparr>"], rule start, rule runs_Cons,
      rule runs_weaken [OF publication_phases [OF lay _ _ meta(2) _ dead]])
    fix u assume "\<exists>fs c. u = ?w\<lparr>w_fs := fs\<rparr> \<and> tx_state root j b a (w_fs w) (Some (File c)) (\<lambda>_. Done) fs"
    then obtain fs c where u: "u = ?w\<lparr>w_fs := fs\<rparr>"
      and fs: "tx_state root j b a (w_fs w) (Some (File c)) (\<lambda>_. Done) (w_fs (u\<lparr>w_journal := None\<rparr>))" by auto
    have new: "w_fs (u\<lparr>w_journal := None\<rparr>) (target_at root j i) = as_node (a i)" if "i < length (jr_entries j)" for i
      using tx_state_entry(1) [OF lay fs that] by simp
    let ?u = "u\<lparr>w_journal := None\<rparr>"
    have lock: "w_lock ?u = Some (Valid l)" "w_journal ?u = None" using meta by (simp_all add: u)
    note clean = cleanup_recovers [where w = ?u and inspect = inspect, OF lay fs new lock(1) meta(2) lock(2) dead(1)]
    have "runs (tx_all [cleanup (jr_dir j)]) ?u ?I (settled root j a (w_fs w))"
      by (rule runs_Cons, rule runs_weaken [OF clean(2)]) (auto intro: recovers_to_mono runs_return)
    then show "runs (tx_all [remove_journal, cleanup (jr_dir j)]) u ?I (settled root j a (w_fs w))"
      unfolding remove_journal_def using recovers_to_mono [OF clean(1)]
      by (intro runs_Cons [where t = "tx_set _"] runs_set) auto
  qed (use st meta in auto)
  show ?first
    using cleanup_recovers(1) [where w = w and inspect = inspect, OF lay st T meta(1,2,4) dead(1)] by (auto simp: recovers_to_def)
qed

text \<open>
  C4. A publication is atomic across crashes: wherever it is interrupted after staging, the next
  reader that finds its owner dead completes a recovery without error, after which no lock, journal
  or transaction directory is left and either all targets have their old contents or all have their
  new contents; no other file is changed and no directory is lost.
\<close>

theorem publication_atomic:
  assumes "staged_transaction dig root j b a w" "inspect (jr_owner j) = OwnerRecoverable"
    and "v \<in> crash_states (commit_journal dig inspect root j) w"
  shows "\<exists>ws w'. recover_or_reject dig inspect root False v = (ws, Inr w')
    \<and> (settled root j b (w_fs w) w' \<or> settled root j a (w_fs w) w')"
  using runs_crash [OF commit_journal_runs(2) [where inspect = inspect, OF assms(1,2)]
      commit_journal_runs(1) [where inspect = inspect, OF assms(1,2)] assms(3)]
  by (simp add: recovers_to_def)

lemma install_success:
  "install dig inspect root j w = (ws, Inr w') \<longleftrightarrow>
   tx_seq (tx_all (map (publish_entry dig root) (jr_entries j)))
     (tx_fs (atomic_write (receipt_path (jr_dir j)) ''committed\<newline>'')) w = (ws, Inr w')"
  by (auto simp: install_def tx_on_error_def tx_seq_def tx_fail_def split: prod.splits sum.splits)

lemma commit_journal_inspector:
  "commit_journal dig inspect root j w = (ws, Inr w') \<Longrightarrow> commit_journal dig inspect' root j w = (ws, Inr w')"
proof -
  assume run: "commit_journal dig inspect root j w = (ws, Inr w')"
  let ?w = "w\<lparr>w_journal := Some (Valid j)\<rparr>"
  obtain vs v where inst: "install dig inspect root j ?w = (vs, Inr v)"
    using run by (auto simp: commit_journal_def tx_seq_def tx_set_def split: prod.splits sum.splits)
  then have "install dig inspect' root j ?w = (vs, Inr v)" by (simp add: install_success)
  then show ?thesis using run inst by (simp add: commit_journal_def tx_seq_def tx_set_def)
qed

text \<open>
  C23. An uninterrupted publication of staged files succeeds: it installs the new contents in every
  target, removes its journal, its directory and its lock, and changes no other file.
\<close>

theorem publication_completes:
  assumes "staged_transaction dig root j b a w"
  shows "\<exists>ws w'. commit_journal dig inspect root j w = (ws, Inr w') \<and> settled root j a (w_fs w) w'"
proof -
  have "runs (commit_journal dig (\<lambda>_. OwnerRecoverable) root j) w (\<lambda>_. True) (settled root j a (w_fs w))"
    by (rule runs_weaken [OF commit_journal_runs(2) [where inspect = "\<lambda>_. OwnerRecoverable", OF assms]]) auto
  then show ?thesis
    unfolding runs_def using commit_journal_inspector by blast
qed

end
