(* ===== verification/WorkspaceSafety.thy ===== *)
theory WorkspaceSafety
  imports WorkspaceRecovery
begin

text \<open>
  What recovery never does: it does not touch the transaction of an owner that may be alive, and it
  does not remove or replace a file whose contents it has not verified. Two ways in which recovery gets stuck:
  a recovery that is itself interrupted, and a publication that only removes files. The proofs use
  invariants of all states that an operation passes through, successful or not.
\<close>

section \<open>Invariants of all states\<close>

definition safe_run :: "(workspace \<Rightarrow> bool) \<Rightarrow> workspace list \<times> (tx_error + workspace) \<Rightarrow> bool" where
  "safe_run P r \<longleftrightarrow> (\<forall>v\<in>set (fst r). P v) \<and> (\<forall>w'. snd r = Inr w' \<longrightarrow> P w')"

definition tx_inv :: "(workspace \<Rightarrow> bool) \<Rightarrow> tx \<Rightarrow> bool" where
  "tx_inv P t \<longleftrightarrow> (\<forall>w. P w \<longrightarrow> safe_run P (t w))"

lemma tx_invI: "(\<And>w. P w \<Longrightarrow> safe_run P (t w)) \<Longrightarrow> tx_inv P t"
  by (simp add: tx_inv_def)

lemma tx_inv_run: "tx_inv P t \<Longrightarrow> P w \<Longrightarrow> safe_run P (t w)"
  by (simp add: tx_inv_def)

lemma safe_run_last: "safe_run P (ws, r) \<Longrightarrow> P w \<Longrightarrow> P (last (w # ws))"
  using last_in_set [of ws] by (cases "ws = []") (simp_all add: safe_run_def)

lemma safe_run_crash: "safe_run P (t w) \<Longrightarrow> P w \<Longrightarrow> v \<in> crash_states t w \<Longrightarrow> P v"
  unfolding safe_run_def crash_states_def by blast

lemma safe_run_fail [simp]: "safe_run P (tx_fail e w)"
  by (simp add: safe_run_def tx_fail_def)

lemma safe_run_return [simp]: "safe_run P (tx_return w) \<longleftrightarrow> P w"
  by (simp add: safe_run_def tx_return_def)

lemma safe_run_seq: "safe_run P (a w) \<Longrightarrow> tx_inv P b \<Longrightarrow> safe_run P (tx_seq a b w)"
proof -
  assume a: "safe_run P (a w)" and b: "tx_inv P b"
  obtain vs q where run: "a w = (vs, q)" by (cases "a w")
  show "safe_run P (tx_seq a b w)"
  proof (cases q)
    case (Inl e)
    then show ?thesis using a run by (simp add: tx_seq_def)
  next
    case (Inr u)
    then have "P u" using a run by (simp add: safe_run_def)
    then have "safe_run P (b u)" by (rule tx_inv_run [OF b])
    then show ?thesis using a run Inr by (simp add: tx_seq_def safe_run_def ball_Un split: prod.splits)
  qed
qed

lemma safe_run_on_error:
  assumes "safe_run P (a w)" "P w" "\<And>e. tx_inv P (h e)"
  shows "safe_run P (tx_on_error a h w)"
proof -
  obtain vs q where a: "a w = (vs, q)" by (cases "a w")
  show ?thesis
  proof (cases q)
    case (Inl e)
    have "P (last (w # vs))" by (rule safe_run_last [of P vs q]) (use assms(1,2) a in simp_all)
    then have "safe_run P (h e (last (w # vs)))" by (rule tx_inv_run [OF assms(3)])
    then show ?thesis
      using assms(1) a Inl by (simp add: tx_on_error_def safe_run_def ball_Un split: prod.splits)
  next
    case (Inr u)
    then show ?thesis using assms(1) a by (simp add: tx_on_error_def)
  qed
qed

lemma tx_inv_return [simp]: "tx_inv P tx_return"
  by (simp add: tx_inv_def)

lemma tx_inv_fail [simp]: "tx_inv P (tx_fail e)"
  by (simp add: tx_inv_def)

lemma tx_inv_check [simp]: "tx_inv P (tx_check c)"
  by (simp add: tx_inv_def tx_check_def safe_run_def split: option.splits)

lemma tx_inv_fs: "(\<And>w fs'. P w \<Longrightarrow> f (w_fs w) = Inr fs' \<Longrightarrow> P (w\<lparr>w_fs := fs'\<rparr>)) \<Longrightarrow> tx_inv P (tx_fs f)"
  by (simp add: tx_inv_def tx_fs_def safe_run_def split: sum.splits)

lemma tx_inv_set: "(\<And>w. P w \<Longrightarrow> P (f w)) \<Longrightarrow> tx_inv P (tx_set f)"
  by (simp add: tx_inv_def tx_set_def safe_run_def)

lemma tx_inv_seq: "tx_inv P a \<Longrightarrow> tx_inv P b \<Longrightarrow> tx_inv P (tx_seq a b)"
  by (simp add: tx_inv_def [of P a] tx_inv_def [of P "tx_seq a b"] safe_run_seq)

lemma tx_inv_all: "(\<And>t. t \<in> set ts \<Longrightarrow> tx_inv P t) \<Longrightarrow> tx_inv P (tx_all ts)"
  by (induction ts) (simp_all add: tx_inv_seq)

lemma tx_inv_on_error: "tx_inv P a \<Longrightarrow> (\<And>e. tx_inv P (h e)) \<Longrightarrow> tx_inv P (tx_on_error a h)"
  by (rule tx_invI) (simp add: safe_run_on_error tx_inv_run)

lemmas tx_inv_rules = tx_inv_seq tx_inv_all tx_inv_on_error tx_inv_fs tx_inv_set

section \<open>Recovery keeps unverified files\<close>

lemma mkdirs_other:
  "mkdirs fs current parts = Inr fs' \<Longrightarrow> fs p \<noteq> None \<or> \<not> prefix p (current @ parts) \<Longrightarrow> fs' p = fs p"
proof (induction parts arbitrary: fs current)
  case (Cons part parts)
  show ?case
  proof (cases "fs (current @ [part])")
    case None
    define fs1 where "fs1 = fs(current @ [part] \<mapsto> Directory)"
    have p: "p \<noteq> current @ [part]" using None Cons.prems by auto
    then have "fs' p = fs1 p"
      using Cons.IH [of fs1 "current @ [part]"] Cons.prems None by (auto simp flip: fs1_def) (simp add: fs1_def)
    then show ?thesis using p by (simp add: fs1_def)
  next
    case (Some n)
    then show ?thesis using Cons.IH [of fs "current @ [part]"] Cons.prems by (cases n) auto
  qed
qed simp

lemma mkdir_all_other: "mkdir_all d fs = Inr fs' \<Longrightarrow> fs p \<noteq> None \<or> \<not> prefix p d \<Longrightarrow> fs' p = fs p"
  using mkdirs_other [of fs "[]" d fs' p] by (simp add: mkdir_all_def)

lemma rename_file_other: "rename_file p q fs = Inr fs' \<Longrightarrow> r \<noteq> p \<Longrightarrow> r \<noteq> q \<Longrightarrow> fs' r = fs r"
  by (auto simp: rename_file_def split: option.splits if_splits)

lemma remove_file_other: "remove_file p fs = Inr fs' \<Longrightarrow> r \<noteq> p \<Longrightarrow> fs' r = fs r"
  by (auto simp: remove_file_def split: option.splits fnode.splits)

definition holds_file :: "fpath \<Rightarrow> string \<Rightarrow> workspace \<Rightarrow> bool" where
  "holds_file p x w \<longleftrightarrow> w_fs w p = Some (File x)"

lemma holds_file_update [simp]:
  "holds_file p x (w\<lparr>w_fs := fs\<rparr>) \<longleftrightarrow> fs p = Some (File x)"
  "holds_file p x (w\<lparr>w_lock := l\<rparr>) \<longleftrightarrow> holds_file p x w" "holds_file p x (w\<lparr>w_journal := j\<rparr>) \<longleftrightarrow> holds_file p x w"
  by (simp_all add: holds_file_def)

lemma restore_backup_other:
  assumes "p \<noteq> target" "p \<noteq> en_backup en"
  shows "tx_inv (holds_file p x) (restore_backup dig target en)"
proof -
  have remove: "tx_inv (holds_file p x) (tx_fs (remove_file target))"
    by (rule tx_inv_fs) (auto simp: holds_file_def remove_file_other [OF _ assms(1)])
  have "tx_inv (holds_file p x) (remove_if_exists target)"
    by (rule tx_invI) (auto simp: remove_if_exists_def tx_inv_run [OF remove] split: sum.splits option.splits)
  moreover have "tx_inv (holds_file p x) (tx_fs (mkdir_all (butlast target)))"
    by (rule tx_inv_fs) (auto simp: holds_file_def mkdir_all_other)
  moreover have "tx_inv (holds_file p x) (tx_fs (rename_file (en_backup en) target))"
    by (rule tx_inv_fs) (auto simp: holds_file_def rename_file_other assms)
  ultimately show ?thesis
    unfolding restore_backup_def by (intro tx_inv_all) auto
qed

lemma restore_entry_keeps:
  assumes unverified: "target_path root (en_path en) = p \<Longrightarrow> dig x \<noteq> en_after_digest en" and "p \<noteq> en_backup en"
  shows "tx_inv (holds_file p x) (restore_entry dig root en)"
proof (rule tx_invI)
  fix w assume w: "holds_file p x w"
  let ?T = "target_path root (en_path en)"
  show "safe_run (holds_file p x) (restore_entry dig root en w)"
  proof (cases "confined_path root (en_path en)")
    case (Inr t)
    then have t: "t = ?T" by (simp add: confined_path_def split: if_splits)
    show ?thesis
    proof (cases "?T = p")
      case True
      obtain e' where "verify_target dig ?T en (w_fs w) = Some e'"
        using w unverified True
        by (cases "en_after_exists en") (auto simp: verify_target_def regular_file_bytes_def holds_file_def)
      then have "fst (restore_backup dig ?T en w) = [] \<and> (\<exists>e. snd (restore_backup dig ?T en w) = Inl e)"
        by (cases "has_digest dig (en_backup en) (en_before_digest en) (w_fs w)")
          (auto simp: restore_backup_def tx_seq_def tx_check_def)
      then have "safe_run (holds_file p x) (restore_backup dig ?T en w)"
        by (auto simp: safe_run_def)
      then show ?thesis
        using w unverified True
        by (auto simp: restore_entry_def Inr t regular_file_bytes_def holds_file_def)
    next
      case False
      have "tx_inv (holds_file p x) (tx_fs (remove_file ?T))"
        by (rule tx_inv_fs) (use False in \<open>auto simp: holds_file_def remove_file_other\<close>)
      then show ?thesis
        using w tx_inv_run restore_backup_other [of p ?T en x dig] False assms(2)
        by (auto simp: restore_entry_def Inr t split: sum.splits)
    qed
  qed (simp add: restore_entry_def)
qed

lemma validated_dir: "validate_directory troot dir fs = None \<Longrightarrow> prefix troot dir"
  by (auto simp: validate_directory_def prefixeq_butlast split: if_splits)

lemma opt_seq_None [simp]: "opt_seq x y = None \<longleftrightarrow> x = None \<and> y = None"
  by (simp add: opt_seq_def split: option.splits)

lemma validated_backup:
  "validate_entries root troot dir fs i ens = None \<Longrightarrow> en \<in> set ens \<Longrightarrow> \<exists>k. en_backup en = backup_path dir k"
  by (induction ens arbitrary: i) (auto split: if_splits sum.splits)

lemma remove_dir_keeps: "\<not> below dir p \<Longrightarrow> tx_inv (holds_file p x) (remove_dir dir)"
  unfolding remove_dir_def by (rule tx_inv_set) (simp add: holds_file_def remove_all_def)

lemma remove_meta_keeps: "tx_inv (holds_file p x) remove_lock" "tx_inv (holds_file p x) remove_journal"
  unfolding remove_lock_def remove_journal_def by (rule tx_inv_set; simp)+

lemma finish_recovery_keeps:
  assumes "validate_metadata root lock j fs = None" "\<not> below (tx_root root) p"
    and "\<And>en. en \<in> set (jr_entries j) \<Longrightarrow> target_path root (en_path en) = p \<Longrightarrow> dig x \<noteq> en_after_digest en"
    and "holds_file p x w"
  shows "safe_run (holds_file p x) (finish_recovery dig root j w)"
proof -
  have dir: "prefix (tx_root root) (jr_dir j)"
    using assms(1) by (auto simp: validate_metadata_def intro: validated_dir)
  then have nb: "\<not> below (jr_dir j) p"
    using assms(2) by (meson below_prefix prefix_order.trans)
  have backup: "p \<noteq> en_backup en" if en: "en \<in> set (jr_entries j)" for en
  proof -
    obtain k where "en_backup en = backup_path (jr_dir j) k"
      using assms(1) en validated_backup unfolding validate_metadata_def opt_seq_None by blast
    then show ?thesis using nb by auto
  qed
  have "tx_inv (holds_file p x) (restore_entry dig root en)" if "en \<in> set (jr_entries j)" for en
    by (rule restore_entry_keeps, rule assms(3) [OF that], assumption, rule backup [OF that])
  then have restore: "tx_inv (holds_file p x) (tx_all (map (restore_entry dig root) (rev (jr_entries j))))"
    by (intro tx_inv_all) auto
  let ?fin = "tx_all [remove_journal, remove_dir (jr_dir j), remove_lock]"
  have "tx_inv (holds_file p x) ?fin"
    using remove_dir_keeps [OF nb] remove_meta_keeps by (intro tx_inv_all) auto
  then show ?thesis
    using tx_inv_run [OF restore assms(4)] assms(4) unfolding finish_recovery_def by (auto intro!: safe_run_seq)
qed

lemma recover_keeps:
  assumes "\<not> below (tx_root root) p"
    and "\<And>j en. w_journal w = Some (Valid j) \<Longrightarrow> en \<in> set (jr_entries j) \<Longrightarrow> target_path root (en_path en) = p \<Longrightarrow>
      dig x \<noteq> en_after_digest en"
    and w: "holds_file p x w"
  shows "safe_run (holds_file p x) (recover_with_owner_inspector dig inspect root force cur w)"
proof -
  have locked: "safe_run (holds_file p x) (recover_lock_only inspect root force cur lock w)" for lock
  proof (cases lock)
    case (Some l)
    have "safe_run (holds_file p x) (tx_seq (remove_dir (lk_dir l)) remove_lock w)"
      if "validate_directory (tx_root root) (lk_dir l) (w_fs w) = None"
      using assms(1) validated_dir [OF that] w
      by (auto intro!: safe_run_seq remove_meta_keeps tx_inv_run [OF remove_dir_keeps] simp: below_prefix
          dest: prefix_order.trans)
    then show ?thesis
      using Some w by (auto simp: recover_lock_only_def split: option.splits)
  qed (simp add: recover_lock_only_def w)
  have journal: "safe_run (holds_file p x) (recover_journal dig inspect root force cur lock j w)"
    if "w_journal w = Some (Valid j)" for lock j
    using finish_recovery_keeps [where dig = dig and x = x, OF _ assms(1) assms(2) [OF that] w] w
    by (auto simp: recover_journal_def split: option.splits)
  show ?thesis
    using locked journal w
    by (auto simp: recover_with_owner_inspector_def split: option.splits fnode.splits sum.splits meta.splits
        simp del: walk_symlinks.simps)
qed

text \<open>
  C8. Recovery keeps what it has not verified. A regular file outside the transaction directories
  survives every state of every recovery, forced or not, complete or interrupted, whatever the
  metadata says, unless the journal lists it as a target and its contents have the digest of what
  the transaction wrote there.
\<close>

theorem recovery_keeps_unverified_files:
  assumes "w_fs w p = Some (File x)" "\<not> below (tx_root root) p"
    and "\<And>j en. w_journal w = Some (Valid j) \<Longrightarrow> en \<in> set (jr_entries j) \<Longrightarrow>
      target_path root (en_path en) = p \<Longrightarrow> dig x \<noteq> en_after_digest en"
    and "v \<in> crash_states (recover_with_owner_inspector dig inspect root force cur) w"
  shows "w_fs v p = Some (File x)"
  using safe_run_crash [OF recover_keeps [where dig = dig and x = x, OF assms(2,3)] _ assms(4)] assms(1) by (simp add: holds_file_def)

section \<open>Recovery leaves living owners alone\<close>

lemma owner_recoverable:
  "owner_state_with_live token w live alive current_pid = OwnerRecoverable \<longleftrightarrow>
   0 < o_pid w \<and> has_owner_fingerprint w \<and> \<not> (o_pid w = current_pid \<and> o_created_by w = token)
   \<and> (alive = ProcessDead \<or> compare_owner_fingerprint w live = Mismatch)"
  by (auto simp: owner_state_with_live_def split: fingerprint.splits)

text \<open>
  What counts as a proof that the recorded owner no longer runs: its process is dead, or one of the three
  parts of the fingerprint was recorded, can be read of the process that has its id now, and differs.
  What cannot be read proves nothing.
\<close>

definition owner_gone :: "(string \<Rightarrow> string) \<Rightarrow> (int \<Rightarrow> process_info) \<Rightarrow> owner \<Rightarrow> bool" where
  "owner_gone dig info w \<longleftrightarrow>
     (let p = info (o_pid w) in
      pi_liveness p = ProcessDead
      \<or> o_started_at w \<noteq> [] \<and> trim_space (pi_started_at p) \<noteq> [] \<and> trim_space (pi_started_at p) \<noteq> o_started_at w
      \<or> o_cmdline_hash w \<noteq> [] \<and> pi_cmdline p \<noteq> [] \<and> dig (join_with [CHR 0x00] (pi_cmdline p)) \<noteq> o_cmdline_hash w
      \<or> o_exe w \<noteq> [] \<and> trim_space (pi_exe p) \<noteq> []
        \<and> path_base (path_clean (trim_space (pi_exe p))) \<noteq> path_base (path_clean (trim_space (o_exe w))))"

definition owner_recorded :: "owner \<Rightarrow> bool" where
  "owner_recorded w \<longleftrightarrow> 0 < o_pid w \<and> \<not> (o_started_at w = [] \<and> o_cmdline_hash w = [] \<and> o_exe w = [])"

definition owner_self :: "string \<Rightarrow> int \<Rightarrow> owner \<Rightarrow> bool" where
  "owner_self token pid w \<longleftrightarrow> o_pid w = pid \<and> o_created_by w = token"

lemma mismatch_gone:
  "compare_owner_fingerprint w (fst (capture_owner dig info (o_pid w))) = Mismatch \<Longrightarrow> owner_gone dig info w"
  by (auto simp: compare_owner_fingerprint_def capture_owner_def owner_gone_def hash_cmdline_def same_exe_def Let_def
      split: if_splits)

lemma inspect_recoverable:
  assumes "inspect_owner_state dig token pid info w = OwnerRecoverable"
  shows "owner_recorded w \<and> \<not> owner_self token pid w \<and> owner_gone dig info w"
proof -
  have "owner_state_with_live token w (fst (capture_owner dig info (o_pid w))) (pi_liveness (info (o_pid w))) pid = OwnerRecoverable"
    using assms by (auto simp: inspect_owner_state_def capture_owner_def split: if_splits)
  then have "0 < o_pid w" "has_owner_fingerprint w" "\<not> (o_pid w = pid \<and> o_created_by w = token)"
      and "pi_liveness (info (o_pid w)) = ProcessDead
        \<or> compare_owner_fingerprint w (fst (capture_owner dig info (o_pid w))) = Mismatch"
    by (simp_all add: owner_recoverable)
  moreover from this(4) have "owner_gone dig info w" using mismatch_gone by (auto simp: owner_gone_def Let_def)
  ultimately show ?thesis by (auto simp: owner_recorded_def owner_self_def has_owner_fingerprint_def)
qed

lemma inspect_current:
  "inspect_owner_state dig token pid info w = OwnerCurrent \<Longrightarrow> owner_recorded w \<and> owner_self token pid w"
  by (auto simp: inspect_owner_state_def owner_state_with_live_def owner_recorded_def owner_self_def
      has_owner_fingerprint_def split: if_splits fingerprint.splits prod.splits)

lemma recover_changes_only_recoverable:
  assumes "fst (recover_or_reject dig inspect root cur w) \<noteq> []"
  shows "(\<forall>lk. w_lock w = Some lk \<longrightarrow> (\<exists>l. lk = Valid l \<and>
      (inspect (lk_owner l) = OwnerRecoverable \<or> cur \<and> inspect (lk_owner l) = OwnerCurrent)))
    \<and> (\<forall>jr. w_journal w = Some jr \<longrightarrow> (\<exists>j. jr = Valid j \<and> inspect (jr_owner j) = OwnerRecoverable))"
proof -
  have blocks: "\<not> owner_blocks cur s \<Longrightarrow> s = OwnerCurrent \<and> cur \<or> s = OwnerRecoverable" for s
    by (cases s) (auto simp: owner_blocks_def)
  show ?thesis
    using assms blocks
    by (auto simp: recover_or_reject_def recover_with_owner_inspector_def read_lock_def recover_lock_only_def
        recover_journal_def tx_fail_def tx_return_def simp del: walk_symlinks.simps
        split: option.splits fnode.splits sum.splits meta.splits if_splits)
qed

text \<open>
  C12. Recovery fails closed: a reader that changes anything has found that the owner named by the lock
  and the one named by the journal are gone. Each has a positive process id and a recorded
  fingerprint, was not minted by the reading process itself, and is proved gone: its process is dead, or
  a recorded part of the fingerprint differs from what could be read of the process that now has its
  id; an unreadable part proves nothing. A lock or journal that does not decode blocks as well. The one
  exception: a read on behalf of the current owner (\<open>cur\<close>) may find the lock of the reading process itself,
  which is alive, and then still needs the journal's owner to be gone.
\<close>

theorem recovery_fails_closed:
  assumes "fst (recover_or_reject dig (inspect_owner_state dig token pid info) root cur w) \<noteq> []"
  shows "(\<forall>lk. w_lock w = Some lk \<longrightarrow> (\<exists>l. lk = Valid l \<and> owner_recorded (lk_owner l)
      \<and> (if owner_self token pid (lk_owner l) then cur else owner_gone dig info (lk_owner l))))
    \<and> (\<forall>jr. w_journal w = Some jr \<longrightarrow> (\<exists>j. jr = Valid j \<and> owner_recorded (jr_owner j)
      \<and> \<not> owner_self token pid (jr_owner j) \<and> owner_gone dig info (jr_owner j)))"
  using recover_changes_only_recoverable [OF assms] inspect_recoverable [of dig token pid info]
    inspect_current [of dig token pid info] by metis

section \<open>Interrupted recoveries\<close>

lemma tx_seq_states: "set (fst (a w)) \<subseteq> set (fst (tx_seq a b w))"
  by (auto simp: tx_seq_def split: prod.splits sum.splits)

lemma tx_seq_fails: "a w = ([], Inl e) \<Longrightarrow> tx_seq a b w = ([], Inl e)"
  by (simp add: tx_seq_def)

lemma tx_check_passes: "c w = None \<Longrightarrow> tx_seq (tx_check c) b w = b w"
  by (simp add: tx_seq_def tx_check_def split: prod.splits)

lemma lost_entry:
  assumes lay: "tx_layout dig root j b a" and st: "tx_state root j b a fs0 None st (w_fs w)"
    and k: "k < length (jr_entries j)" and s: "st k = Done" and ch: "b k = Some old" "a k = Some new"
    and v: "v = w\<lparr>w_fs := (w_fs w)(target_at root j k := None)\<rparr>"
  shows "v \<in> set (fst (restore_entry dig root (jr_entries j ! k) w))"
    and "tx_state root j b a fs0 None (st(k := Lost)) (w_fs v)"
    and "restore_entry dig root (jr_entries j ! k) v = ([], Inl (TargetDisappeared (en_path (jr_entries j ! k))))"
proof -
  let ?en = "jr_entries j ! k" and ?T = "target_at root j k"
  note here = tx_state_entry [OF lay st k] and art = tx_layoutD [OF lay k] and paths = entry_paths [OF lay k]
  have rec: "en_after_exists ?en" "en_before_digest ?en = dig old" "en_after_digest ?en = dig new"
    using art(4) ch by (auto simp: entry_records_def)
  have at: "w_fs w ?T = Some (File new)" "w_fs w (stage_path (jr_dir j) k) = None"
    "w_fs w (backup_path (jr_dir j) k) = Some (File old)"
    using here(1) s ch art by simp_all
  have "remove_if_exists ?T w = ([v], Inr v)"
    using at lstat_open [OF here(2)] by (simp add: remove_if_exists_def tx_fs_def remove_file_def v)
  then have "v \<in> set (fst (restore_backup dig ?T ?en w))"
    using at rec art tx_seq_states [of "remove_if_exists ?T" w]
    by (auto simp: restore_backup_def tx_check_passes has_digest_def verify_target_def regular_file_bytes_def)
  then show "v \<in> set (fst (restore_entry dig root ?en w))"
    using at art by (simp add: restore_entry_def)
  show "tx_state root j b a fs0 None (st(k := Lost)) (w_fs v)"
    by (rule tx_state_update [OF lay st k]) (use at ch art paths in \<open>auto simp: v\<close>)
  show "restore_entry dig root ?en v = ([], Inl (TargetDisappeared (en_path ?en)))"
    using at rec art paths by (simp add: restore_entry_def restore_backup_def tx_seq_def tx_check_def has_digest_def
        verify_target_def v)
qed

text \<open>The state between the last rename of a publication and the receipt.\<close>

definition installed_uncommitted ::
  "(string \<Rightarrow> string) \<Rightarrow> fpath \<Rightarrow> journal \<Rightarrow> contents \<Rightarrow> contents \<Rightarrow> workspace \<Rightarrow> bool" where
  "installed_uncommitted dig root j b a w \<longleftrightarrow>
     tx_layout dig root j b a \<and> tx_state root j b a (w_fs w) None (\<lambda>_. Done) (w_fs w)
     \<and> (\<exists>l. w_lock w = Some (Valid l) \<and> lk_dir l = jr_dir j \<and> lk_owner l = jr_owner j)
     \<and> w_journal w = Some (Valid j)"

text \<open>
  C32. Recovery is not idempotent. A crash of the recovery itself between the removal of an installed
  file and the rename of its backup leaves a state that no later recovery, forced or not, gets
  past: every one of them stops with the error that the target disappeared, although the backup is there.
\<close>

theorem interrupted_recovery_is_stuck:
  assumes "installed_uncommitted dig root j b a w" "inspect (jr_owner j) = OwnerRecoverable"
    and "jr_entries j \<noteq> []" "b (length (jr_entries j) - 1) \<noteq> None" "a (length (jr_entries j) - 1) \<noteq> None"
  shows "\<exists>v\<in>crash_states (recover_or_reject dig inspect root False) w.
    recover_or_reject dig inspect root False v = ([], Inl (TargetDisappeared (en_path (last (jr_entries j)))))
    \<and> force_recover dig inspect root v = ([], Inl (TargetDisappeared (en_path (last (jr_entries j)))))
    \<and> w_fs v (backup_path (jr_dir j) (length (jr_entries j) - 1)) = as_node (b (length (jr_entries j) - 1))"
proof -
  define k where "k = length (jr_entries j) - 1"
  obtain l where lay: "tx_layout dig root j b a" and st: "tx_state root j b a (w_fs w) None (\<lambda>_. Done) (w_fs w)"
    and meta: "w_lock w = Some (Valid l)" "lk_dir l = jr_dir j" "lk_owner l = jr_owner j" "w_journal w = Some (Valid j)"
    using assms(1) by (auto simp: installed_uncommitted_def)
  obtain old new where ch: "b k = Some old" "a k = Some new" using assms(4,5) by (auto simp: k_def)
  have k: "k < length (jr_entries j)" using assms(3) by (simp add: k_def)
  have rev: "rev (jr_entries j) = jr_entries j ! k # rev (butlast (jr_entries j))"
    using assms(3) by (cases "jr_entries j" rule: rev_cases) (simp_all add: k_def)
  define v where "v = w\<lparr>w_fs := (w_fs w)(target_at root j k := None)\<rparr>"
  note lost = lost_entry [OF lay st k refl ch v_def]
  have nc: "\<not> committed j (w_fs u)" if "u = w \<or> u = v" for u
    using lay st lost(2) that by (auto simp: committed_def tx_layout_def tx_state_def)
  have dirs: "w_fs u q = Some Directory" if "u = w \<or> u = v" "prefix q (tx_root root)" for u q
    using st lost(2) that prefix_order.trans [OF that(2) tx_layout_dir(1) [OF lay]] by (auto simp: tx_state_def)
  have val: "validate_metadata root (Some l) j (w_fs u) = None" if "u = w \<or> u = v" for u
  proof -
    have "((\<lambda>_. Done)(k := Lost)) i \<noteq> Restored" for i by simp
    then have "validate_metadata root (Some l) j (w_fs v) = None"
      by (rule validate_metadata_ok [OF lay lost(2)]) (use meta in auto)
    then show ?thesis using validate_metadata_ok [OF lay st] meta that by auto
  qed
  have run: "recover_or_reject dig inspect root False u = finish_recovery dig root j u" if u: "u = w \<or> u = v" for u
    by (rule recover_with_journal [OF dirs [OF u]])
      (use meta assms(2) val [OF u] u in \<open>auto simp: v_def\<close>)
  have force: "force_recover dig inspect root v = finish_recovery dig root j v"
    using meta val [of v] tx_root_entry [of root "w_fs v", OF dirs]
    by (simp add: force_recover_def recover_with_owner_inspector_def read_lock_def recover_journal_def v_def
        del: walk_symlinks.simps)
  have "v \<in> set (fst (finish_recovery dig root j w))"
    using lost(1) nc [of w] tx_seq_states unfolding finish_recovery_def rev by simp blast
  moreover have "finish_recovery dig root j v = ([], Inl (TargetDisappeared (en_path (jr_entries j ! k))))"
    using lost(3) nc [of v] by (simp add: finish_recovery_def rev tx_seq_fails)
  moreover have "w_fs v (backup_path (jr_dir j) k) = as_node (b k)"
    using tx_state_entry(1) [OF lay lost(2) k] tx_layoutD(2) [OF lay k] by simp
  ultimately show ?thesis
    using run force assms(3) by (auto simp: crash_states_def k_def last_conv_nth)
qed

section \<open>Publications that only remove files\<close>

text \<open>All states passed satisfy \<open>P\<close>, and the final one, if the operation succeeds, \<open>Q\<close>.\<close>

definition leads :: "(workspace \<Rightarrow> bool) \<Rightarrow> (workspace \<Rightarrow> bool) \<Rightarrow> workspace list \<times> (tx_error + workspace) \<Rightarrow> bool" where
  "leads P Q r \<longleftrightarrow> (\<forall>v\<in>set (fst r). P v) \<and> (\<forall>w'. snd r = Inr w' \<longrightarrow> Q w')"

lemma leads_seq:
  assumes "leads P R (a w)" "\<And>u. R u \<Longrightarrow> leads P Q (b u)"
  shows "leads P Q (tx_seq a b w)"
proof -
  obtain vs q where a: "a w = (vs, q)" by (cases "a w")
  show ?thesis
  proof (cases q)
    case (Inl e)
    then show ?thesis using assms(1) a by (simp add: tx_seq_def leads_def)
  next
    case (Inr u)
    then have "leads P Q (b u)" using assms(1) a by (intro assms(2)) (simp add: leads_def)
    then show ?thesis using assms(1) a Inr by (simp add: tx_seq_def leads_def ball_Un split: prod.splits)
  qed
qed

lemma leads_weaken: "safe_run P r \<Longrightarrow> (\<And>v. P v \<Longrightarrow> P' v) \<Longrightarrow> (\<And>v. P v \<Longrightarrow> Q v) \<Longrightarrow> leads P' Q r"
  by (simp add: leads_def safe_run_def)

lemma leads_set: "P (f w) \<Longrightarrow> Q (f w) \<Longrightarrow> leads P Q (tx_set f w)"
  by (simp add: leads_def tx_set_def)

text \<open>The transaction directory exists and has no staging directory.\<close>

definition unstaged :: "fpath \<Rightarrow> workspace \<Rightarrow> bool" where
  "unstaged dir w \<longleftrightarrow> (\<forall>q. prefix q dir \<longrightarrow> w_fs w q = Some Directory) \<and> w_fs w (dir @ [''staged'']) = None"

lemma unstaged_recovery_fails:
  assumes "unstaged (jr_dir j) w" "w_journal w = Some (Valid j)" "jr_entries j \<noteq> []" "prefix (tx_root root) (jr_dir j)"
  shows "\<exists>e. recover_with_owner_inspector dig inspect root force cur w = ([], Inl e)"
proof -
  have "w_fs w q = Some Directory" if "prefix q (tx_root root)" for q
    using assms(1,4) that prefix_order.trans by (auto simp: unstaged_def)
  note root = tx_root_entry [of root "w_fs w", OF this]
  obtain en ens where ens: "jr_entries j = en # ens" using assms(3) by (cases "jr_entries j") auto
  have val: "\<exists>e. validate_metadata root lock j (w_fs w) = Some e" for lock
  proof (cases "validate_directory (tx_root root) (jr_dir j) (w_fs w)")
    case None
    then have "jr_dir j \<noteq> []" "butlast (jr_dir j) = tx_root root"
      by (auto simp: validate_directory_def split: if_splits)
    then have dir: "jr_dir j = tx_root root @ [last (jr_dir j)]" by (metis append_butlast_last_id)
    have "drop (length (tx_root root)) (butlast (stage_path (jr_dir j) 0)) = [last (jr_dir j), ''staged'']"
      by (subst dir) (simp add: stage_path_def butlast_append)
    moreover have "walk_symlinks (w_fs w) (tx_root root) [last (jr_dir j), ''staged''] = Missing"
      using assms(1) dir by (simp add: unstaged_def)
    ultimately have "validate_artifact (tx_root root) (w_fs w) (stage_path (jr_dir j) 0) = Some InvalidArtifactPath"
      by (simp add: validate_artifact_def del: walk_symlinks.simps)
    then have "\<exists>e. validate_entries root (tx_root root) (jr_dir j) (w_fs w) 0 (jr_entries j) = Some e"
      by (auto simp: ens opt_seq_def)
    then show ?thesis by (auto simp: validate_metadata_def opt_seq_def split: option.splits)
  qed (simp add: validate_metadata_def opt_seq_def)
  have "\<exists>e. recover_journal dig inspect root force cur lock j w = ([], Inl e)" for lock
    using val [of lock] by (auto simp: recover_journal_def tx_fail_def)
  then show ?thesis
    using root assms(2)
    by (auto simp: recover_with_owner_inspector_def read_lock_def tx_fail_def simp del: walk_symlinks.simps
        split: option.splits meta.splits)
qed

lemma unstaged_rename:
  assumes "unstaged dir w" "rename_file p (backup_path dir i) (w_fs w) = Inr fs'"
  shows "unstaged dir (w\<lparr>w_fs := fs'\<rparr>)"
proof -
  obtain node where node: "w_fs w p = Some node" "node \<noteq> Directory" "fs' = ((w_fs w)(p := None))(backup_path dir i \<mapsto> node)"
    using assms(2) by (auto simp: rename_file_def split: option.splits if_splits)
  have "q \<noteq> p \<and> q \<noteq> backup_path dir i" if "prefix q dir" for q
    using assms(1) node(1,2) that artifact_not_dir(2) by (auto simp: unstaged_def)
  moreover have "dir @ [''staged''] \<noteq> backup_path dir i" by (simp add: artifact_not_dir)
  ultimately show ?thesis using assms(1) node by (auto simp: unstaged_def)
qed

definition removing :: "fpath \<Rightarrow> entry list \<Rightarrow> bool" where
  "removing dir ens \<longleftrightarrow> (\<forall>en\<in>set ens. \<not> en_after_exists en \<and> (\<exists>i. en_backup en = backup_path dir i))"

definition stuck_with :: "journal \<Rightarrow> workspace \<Rightarrow> bool" where
  "stuck_with j w \<longleftrightarrow> unstaged (jr_dir j) w \<and> w_journal w = Some (Valid j)"

lemma publish_removal_stuck:
  assumes "\<not> en_after_exists en" "en_backup en = backup_path (jr_dir j) i"
  shows "tx_inv (stuck_with j) (publish_entry dig root en)"
proof -
  have "tx_inv (stuck_with j) (tx_fs (rename_file (target_path root (en_path en)) (backup_path (jr_dir j) i)))"
    by (rule tx_inv_fs) (auto simp: stuck_with_def intro: unstaged_rename)
  then show ?thesis
    using assms unfolding publish_entry_def Let_def by (intro tx_inv_all) (auto intro!: tx_inv_seq)
qed

lemma receipt_stuck: "tx_inv (stuck_with j) (tx_fs (atomic_write (receipt_path (jr_dir j)) c))"
proof (rule tx_inv_fs)
  fix w fs' assume w: "stuck_with j w" and run: "atomic_write (receipt_path (jr_dir j)) c (w_fs w) = Inr fs'"
  then have d: "w_fs w q = Some Directory" if "prefix q (jr_dir j)" for q
    using that by (simp add: stuck_with_def unstaged_def)
  then have "mkdir_all (jr_dir j) (w_fs w) = Inr (with_dirs (jr_dir j) (w_fs w))"
    by (intro mkdir_all_eq) (simp add: open_dirs_def)
  moreover have "with_dirs (jr_dir j) (w_fs w) = w_fs w" using d by (auto simp: with_dirs_def fun_eq_iff)
  ultimately have fs': "fs' = (w_fs w)(receipt_path (jr_dir j) \<mapsto> File c)"
    using run by (simp add: atomic_write_def receipt_path_def split: if_splits)
  have "q \<noteq> receipt_path (jr_dir j)" if "prefix q (jr_dir j)" for q
    using prefix_length_le [OF that] by (auto simp: receipt_path_def)
  then show "stuck_with j (w\<lparr>w_fs := fs'\<rparr>)"
    using w by (auto simp: stuck_with_def unstaged_def fs' receipt_path_def)
qed

lemma install_stuck:
  assumes "removing (jr_dir j) (jr_entries j)" "jr_entries j \<noteq> []" "prefix (tx_root root) (jr_dir j)"
  shows "tx_inv (stuck_with j) (install dig inspect root j)"
proof -
  have "tx_inv (stuck_with j) (publish_entry dig root en)" if en: "en \<in> set (jr_entries j)" for en
    using assms(1) en publish_removal_stuck unfolding removing_def by blast
  then have "tx_inv (stuck_with j) (tx_all (map (publish_entry dig root) (jr_entries j)))"
    by (intro tx_inv_all) auto
  moreover have "tx_inv (stuck_with j) (force_recover dig inspect root)"
  proof (rule tx_invI)
    fix w assume w: "stuck_with j w"
    obtain e where "force_recover dig inspect root w = ([], Inl e)"
      using unstaged_recovery_fails [of j w root dig inspect True False] w assms(2,3)
      by (auto simp: stuck_with_def force_recover_def)
    then show "safe_run (stuck_with j) (force_recover dig inspect root w)" by (simp add: safe_run_def)
  qed
  ultimately show ?thesis
    unfolding install_def by (intro tx_inv_on_error tx_inv_seq receipt_stuck tx_inv_fail)
qed

lemma commit_removal_stuck:
  assumes "removing (jr_dir j) (jr_entries j)" "jr_entries j \<noteq> []" "prefix (tx_root root) (jr_dir j)" "unstaged (jr_dir j) w"
  shows "leads (\<lambda>v. w_journal v = None \<or> stuck_with j v) (\<lambda>v. w_journal v = None) (commit_journal dig inspect root j w)"
proof -
  let ?P = "\<lambda>v. w_journal v = None \<or> stuck_with j v"
  have inst: "leads ?P (stuck_with j) (install dig inspect root j u)" if "stuck_with j u" for u
    by (rule leads_weaken [OF tx_inv_run [OF install_stuck [OF assms(1-3)] that]]) auto
  have rest: "leads ?P (\<lambda>v. w_journal v = None) (tx_seq remove_journal (tx_seq (cleanup (jr_dir j)) tx_return) u)" for u
    by (simp add: leads_def remove_journal_def cleanup_def remove_dir_def remove_lock_def tx_seq_def tx_set_def tx_return_def)
  show ?thesis
    unfolding commit_journal_def tx_all.simps
    by (rule leads_seq [where R = "stuck_with j"], rule leads_set, use assms(4) in \<open>simp add: stuck_with_def unstaged_def\<close>,
        use assms(4) in \<open>simp add: stuck_with_def unstaged_def\<close>, rule leads_seq, erule inst, rule rest)
qed

lemma stage_removal_entry:
  assumes "unstaged dir w" "of_remove f" "stage_entry (new_entry dig dir i f before) c w = (ws, r)"
  shows "(\<forall>v\<in>set ws. w_journal v = w_journal w) \<and> (\<forall>w'. r = Inr w' \<longrightarrow> unstaged dir w' \<and> w_journal w' = w_journal w)"
proof (cases "mkdir_all (dir @ [''backups'']) (w_fs w)")
  case (Inl e)
  then show ?thesis
    using assms(2,3) by (auto simp: stage_entry_def new_entry_def backup_path_def butlast_append tx_seq_def tx_fs_def)
next
  case (Inr fs')
  have "fs' (dir @ [''staged'']) = w_fs w (dir @ [''staged''])"
    by (rule mkdir_all_other [OF Inr]) (simp add: prefix_def)
  moreover have "fs' q = w_fs w q" if "prefix q dir" for q
    by (rule mkdir_all_other [OF Inr]) (use assms(1) that in \<open>simp add: unstaged_def\<close>)
  ultimately have "unstaged dir (w\<lparr>w_fs := fs'\<rparr>)" using assms(1) by (simp add: unstaged_def)
  then show ?thesis
    using assms(2,3) Inr
    by (auto simp: stage_entry_def new_entry_def backup_path_def butlast_append tx_seq_def tx_fs_def tx_return_def)
qed

lemma stage_removals:
  assumes "\<forall>f\<in>set files. of_remove f" "unstaged dir w" "removing dir ens"
    and "stage_files dig root dir prev files ens w = (ws, r)"
  shows "(\<forall>v\<in>set ws. w_journal v = w_journal w) \<and>
    (\<forall>ens' w'. r = Inr (ens', w') \<longrightarrow> removing dir ens' \<and> unstaged dir w' \<and> w_journal w' = w_journal w)"
  using assms
proof (induction files arbitrary: prev ens w ws r)
  case (Cons f files)
  show ?case
  proof (cases "\<exists>e. stage_files dig root dir prev (f # files) ens w = ([], Inl e)")
    case True
    then show ?thesis using Cons.prems(4) by auto
  next
    case False
    then obtain target before where ok: "prev \<noteq> Some (of_path f)" "confined_path root (of_path f) = Inr target"
      "read_before root target f (w_fs w) = Inr before" "verify_expected_before dig f before = None"
      by (auto split: sum.splits option.splits if_splits)
    have f: "of_remove f" "\<forall>f\<in>set files. of_remove f" using Cons.prems(1) by auto
    show ?thesis
    proof (cases before)
      case None
      then show ?thesis
        using Cons.IH [OF f(2) Cons.prems(2,3)] Cons.prems(4) ok f by simp
    next
      case (Some old)
      define en where "en = new_entry dig dir (length ens) f before"
      obtain vs q where st: "stage_entry en (of_bytes f) w = (vs, q)" by (cases "stage_entry en (of_bytes f) w")
      note one = stage_removal_entry [OF Cons.prems(2) f(1) st [unfolded en_def]]
      show ?thesis
      proof (cases q)
        case (Inl e)
        then show ?thesis using Cons.prems(4) ok f Some st one by (auto simp: en_def)
      next
        case (Inr u)
        obtain us r' where rest: "stage_files dig root dir (Some (of_path f)) files (ens @ [en]) u = (us, r')"
          by (cases "stage_files dig root dir (Some (of_path f)) files (ens @ [en]) u")
        have "removing dir (ens @ [en])"
          using Cons.prems(3) f by (auto simp: removing_def en_def new_entry_def)
        moreover have u: "unstaged dir u" "w_journal u = w_journal w" using one Inr by auto
        moreover have "ws = vs @ us" "r = r'"
          using Cons.prems(4) ok f Some st Inr rest by (auto simp: en_def)
        ultimately show ?thesis using Cons.IH [OF f(2) _ _ rest] one by auto
      qed
    qed
  qed
qed simp

text \<open>A removing publication with a journal is in its commit, with entries that only remove.\<close>

lemma removal_commit_state:
  assumes "\<forall>files. prepare w = Inr files \<longrightarrow> (\<forall>f\<in>set files. of_remove f)"
    and "unstaged dir w" "w_journal w = None"
    and "v \<in> crash_states (publish_locked dig inspect root dir me prepare) w" "w_journal v \<noteq> None"
  obtains ens w1 where "removing dir ens" "unstaged dir w1" "w_journal w1 = None" "ens \<noteq> []"
    "v \<in> set (fst (commit_journal dig inspect root
       \<lparr>jr_owner = me, jr_receipt = Some (receipt_path dir), jr_dir = dir, jr_entries = ens\<rparr> w1))"
proof -
  have clean: "\<forall>u\<in>set (fst (tx_seq (cleanup dir) (tx_fail e) u0)). w_journal u = None" if "w_journal u0 = None" for e u0
    using that by (auto simp: cleanup_def remove_dir_def remove_lock_def tx_seq_def tx_set_def tx_fail_def)
  have v: "v \<in> set (fst (publish_locked dig inspect root dir me prepare w))"
    using assms(3-5) by (auto simp: crash_states_def)
  show thesis
  proof (cases "prepare w")
    case (Inl e)
    then show thesis using v clean [OF assms(3)] assms(5) by (auto simp: publish_locked_def)
  next
    case (Inr files)
    obtain ws r where st: "stage_files dig root dir None (sort_by path_le files) [] w = (ws, r)"
      by (cases "stage_files dig root dir None (sort_by path_le files) [] w")
    have "\<forall>f\<in>set (sort_by path_le files). of_remove f" using assms(1) Inr by simp
    note staged = stage_removals [OF this assms(2) _ st]
    have ws: "\<forall>u\<in>set ws. w_journal u = None" using staged assms(3) by (simp add: removing_def)
    show thesis
    proof (cases r)
      case (Inl e)
      have "w_journal (last (w # ws)) = None"
        using ws assms(3) last_in_set [of ws] by (cases "ws = []") simp_all
      then have "\<forall>u\<in>set (fst (publish_locked dig inspect root dir me prepare w)). w_journal u = None"
        using clean [of "last (w # ws)" e] ws
        by (simp add: publish_locked_def Inr st Inl ball_Un split: prod.splits)
      then have "w_journal v = None" using v by (rule bspec)
      then show thesis using assms(5) by simp
    next
      case ok: (Inr p)
      obtain ens w1 where p: "p = (ens, w1)" by (cases p)
      let ?j = "\<lparr>jr_owner = me, jr_receipt = Some (receipt_path dir), jr_dir = dir, jr_entries = ens\<rparr>"
      have w1: "removing dir ens" "unstaged dir w1" "w_journal w1 = None"
        using staged ok p assms(3) by (auto simp: removing_def)
      have "v \<in> set (fst (if ens = [] then cleanup dir w1 else commit_journal dig inspect root ?j w1))"
        using v ws assms(5) by (auto simp: publish_locked_def Inr st ok p split: prod.splits if_splits)
      then have "ens \<noteq> []" "v \<in> set (fst (commit_journal dig inspect root ?j w1))"
        using w1(3) assms(5)
        by (auto simp: cleanup_def remove_dir_def remove_lock_def tx_seq_def tx_set_def split: if_splits)
      with that w1 show thesis by blast
    qed
  qed
qed

text \<open>
  C33. A publication that only removes files cannot be recovered. It never creates the staging
  directory, whose absence recovery takes for an invalid artifact path: from every state of such a
  publication that has its journal, committed or not, every recovery, forced or not and on behalf of
  whomever, fails without changing anything; so does the rollback of the publication itself.
\<close>

theorem removal_only_publication_unrecoverable:
  assumes "\<forall>files. prepare w = Inr files \<longrightarrow> (\<forall>f\<in>set files. of_remove f)"
    and "unstaged dir w" "prefix (tx_root root) dir" "w_journal w = None"
    and "v \<in> crash_states (publish_locked dig inspect root dir me prepare) w" "w_journal v \<noteq> None"
  shows "\<exists>e. recover_with_owner_inspector dig inspect' root force cur v = ([], Inl e)"
proof -
  obtain ens w1 where w1: "removing dir ens" "unstaged dir w1" "w_journal w1 = None" "ens \<noteq> []"
    "v \<in> set (fst (commit_journal dig inspect root
       \<lparr>jr_owner = me, jr_receipt = Some (receipt_path dir), jr_dir = dir, jr_entries = ens\<rparr> w1))"
    using removal_commit_state [OF assms(1,2,4-6)] .
  let ?j = "\<lparr>jr_owner = me, jr_receipt = Some (receipt_path dir), jr_dir = dir, jr_entries = ens\<rparr>"
  have "stuck_with ?j v"
    using commit_removal_stuck [of ?j root w1 dig inspect] w1 assms(3,6) by (auto simp: leads_def)
  then show ?thesis
    using unstaged_recovery_fails [of ?j v root dig inspect' force cur] w1(4) assms(3) by (auto simp: stuck_with_def)
qed

end
