(* ===== verification/WorkspaceExamples.thy ===== *)
theory WorkspaceExamples
  imports WorkspaceSafety
begin

text \<open>
  A workspace with one generated file that a publication replaces, in the states of that publication, and the instances of the
  workspace theorems on it.
\<close>

definition ex_digest :: "string \<Rightarrow> string" where
  "ex_digest s = ''sha256:'' @ s"

definition ex_root :: fpath where
  "ex_root = [''app'']"

definition ex_dir :: fpath where
  "ex_dir = [''app'', ''.scenery'', ''transactions'', ''change-1'']"

definition ex_target :: fpath where
  "ex_target = [''app'', ''gen.go'']"

definition ex_owner :: owner where
  "ex_owner = \<lparr>o_pid = 41, o_started_at = ''t0'', o_exe = ''/bin/scenery'', o_cmdline_hash = ''sha256:c'',
     o_created_by = ''token-41''\<rparr>"

definition ex_entry :: entry where
  "ex_entry = new_entry ex_digest ex_dir 0
     \<lparr>of_path = ''gen.go'', of_bytes = ''new'', of_remove = False, of_expected = []\<rparr> (Some ''old'')"

definition ex_lock :: tx_lock where
  "ex_lock = \<lparr>lk_owner = ex_owner, lk_dir = ex_dir\<rparr>"

definition ex_journal :: journal where
  "ex_journal = \<lparr>jr_owner = ex_owner, jr_receipt = Some (receipt_path ex_dir), jr_dir = ex_dir, jr_entries = [ex_entry]\<rparr>"

definition ex_dirs :: "fpath list" where
  "ex_dirs = [[], [''app''], [''app'', ''.scenery''], [''app'', ''.scenery'', ''transactions''], ex_dir,
     ex_dir @ [''staged''], ex_dir @ [''backups'']]"

definition ex_fs :: "(fpath \<times> string) list \<Rightarrow> fs" where
  "ex_fs files = map_of (map (\<lambda>d. (d, Directory)) ex_dirs @ map (\<lambda>(p, c). (p, File c)) files)"

definition ex_staged :: workspace where
  "ex_staged = \<lparr>w_fs = ex_fs [(ex_target, ''old''), (stage_path ex_dir 0, ''new'')], w_lock = Some (Valid ex_lock), w_journal = None\<rparr>"

definition ex_installed :: workspace where
  "ex_installed = \<lparr>w_fs = ex_fs [(ex_target, ''new''), (backup_path ex_dir 0, ''old'')], w_lock = Some (Valid ex_lock),
     w_journal = Some (Valid ex_journal)\<rparr>"

lemmas ex_defs = ex_digest_def ex_root_def ex_dir_def ex_target_def ex_owner_def ex_entry_def ex_lock_def ex_journal_def
  ex_dirs_def ex_fs_def ex_staged_def ex_installed_def new_entry_def stage_path_def backup_path_def receipt_path_def
  target_at_def target_path_def tx_root_def pad6_def pad_digits_def

lemma ex_clean: "path_clean ''gen.go'' = ''gen.go''"
  by code_simp

lemma ex_layout: "tx_layout ex_digest ex_root ex_journal (\<lambda>_. Some ''old'') (\<lambda>_. Some ''new'')"
  unfolding tx_layout_def
  by (auto simp: ex_defs entry_records_def confined_path_def path_is_abs_def has_prefix_def ex_clean)

lemma ex_prefix:
  "prefix q ex_dir \<longleftrightarrow> q \<in> set (take 5 ex_dirs)"
  by (auto simp: ex_defs prefix_Cons)

lemma ex_tx_state:
  assumes "entry_at (ex_fs files) ex_target ex_entry (Some ''old'') (Some ''new'') st"
    and "ex_fs files (receipt_path ex_dir) = None"
  shows "tx_state ex_root ex_journal (\<lambda>_. Some ''old'') (\<lambda>_. Some ''new'') (ex_fs files) None (\<lambda>_. st) (ex_fs files)"
proof -
  have dirs: "ex_fs files q = Some Directory" if "q \<in> set ex_dirs" for q
    using that by (auto simp: ex_fs_def ex_dirs_def ex_dir_def)
  have T: "target_at ex_root ex_journal 0 = ex_target" by (simp add: ex_defs)
  have "open_dirs (ex_fs files) (butlast ex_target)"
    unfolding open_dirs_def using dirs by (auto simp: ex_target_def ex_dirs_def prefix_Cons)
  then show ?thesis
    unfolding tx_state_def using assms dirs T
    by (auto simp: ex_prefix ex_journal_def dest: in_set_takeD) (auto simp: ex_dirs_def)
qed

lemma ex_staged_transaction: "staged_transaction ex_digest ex_root ex_journal (\<lambda>_. Some ''old'') (\<lambda>_. Some ''new'') ex_staged"
  unfolding staged_transaction_def
proof (intro conjI)
  show "tx_state ex_root ex_journal (\<lambda>_. Some ''old'') (\<lambda>_. Some ''new'') (w_fs ex_staged) None (\<lambda>_. Fresh) (w_fs ex_staged)"
    unfolding ex_staged_def workspace.simps by (rule ex_tx_state) (simp_all add: ex_defs)
qed (rule ex_layout, simp_all add: ex_staged_def ex_lock_def ex_journal_def)

lemma ex_installed_uncommitted:
  "installed_uncommitted ex_digest ex_root ex_journal (\<lambda>_. Some ''old'') (\<lambda>_. Some ''new'') ex_installed"
  unfolding installed_uncommitted_def
proof (intro conjI)
  show "tx_state ex_root ex_journal (\<lambda>_. Some ''old'') (\<lambda>_. Some ''new'') (w_fs ex_installed) None (\<lambda>_. Done) (w_fs ex_installed)"
    unfolding ex_installed_def workspace.simps by (rule ex_tx_state) (simp_all add: ex_defs)
qed (rule ex_layout, simp_all add: ex_installed_def ex_lock_def ex_journal_def)

section \<open>Instances\<close>

text \<open>The crash of the publication after its third change, when the old file is in the backup.\<close>

definition ex_crash :: workspace where
  "ex_crash = fst (commit_journal ex_digest (\<lambda>_. OwnerRecoverable) ex_root ex_journal ex_staged) ! 1"

theorem publication_atomic_witness:
  "w_fs ex_crash ex_target = None \<and>
   (\<exists>ws w'. recover_or_reject ex_digest (\<lambda>_. OwnerRecoverable) ex_root False ex_crash = (ws, Inr w')
    \<and> (settled ex_root ex_journal (\<lambda>_. Some ''old'') (w_fs ex_staged) w'
       \<or> settled ex_root ex_journal (\<lambda>_. Some ''new'') (w_fs ex_staged) w'))"
proof
  show "w_fs ex_crash ex_target = None" by code_simp
  have "1 < length (fst (commit_journal ex_digest (\<lambda>_. OwnerRecoverable) ex_root ex_journal ex_staged))"
    by code_simp
  then have "ex_crash \<in> crash_states (commit_journal ex_digest (\<lambda>_. OwnerRecoverable) ex_root ex_journal) ex_staged"
    by (simp add: crash_states_def ex_crash_def)
  then show "\<exists>ws w'. recover_or_reject ex_digest (\<lambda>_. OwnerRecoverable) ex_root False ex_crash = (ws, Inr w')
    \<and> (settled ex_root ex_journal (\<lambda>_. Some ''old'') (w_fs ex_staged) w'
       \<or> settled ex_root ex_journal (\<lambda>_. Some ''new'') (w_fs ex_staged) w')"
    by (rule publication_atomic [OF ex_staged_transaction, rotated]) simp
qed

theorem publication_completes_witness:
  "\<exists>ws w'. commit_journal ex_digest (\<lambda>_. OwnerUnknown) ex_root ex_journal ex_staged = (ws, Inr w')
    \<and> settled ex_root ex_journal (\<lambda>_. Some ''new'') (w_fs ex_staged) w'"
  using publication_completes [OF ex_staged_transaction] by blast

text \<open>A user's file beside the target, after a complete recovery that replaces the target.\<close>

definition ex_user :: workspace where
  "ex_user = ex_installed\<lparr>w_fs := (w_fs ex_installed)([''app'', ''main.go''] \<mapsto> File ''user'')\<rparr>"

definition ex_recovered :: workspace where
  "ex_recovered = last (fst (recover_with_owner_inspector ex_digest (\<lambda>_. OwnerRecoverable) ex_root True False ex_user))"

theorem recovery_keeps_unverified_files_witness:
  "w_fs ex_recovered ex_target = Some (File ''old'') \<and> w_fs ex_recovered [''app'', ''main.go''] = Some (File ''user'')"
proof
  show "w_fs ex_recovered ex_target = Some (File ''old'')" by code_simp
  have "fst (recover_with_owner_inspector ex_digest (\<lambda>_. OwnerRecoverable) ex_root True False ex_user) \<noteq> []"
    by code_simp
  then have "ex_recovered \<in> crash_states (recover_with_owner_inspector ex_digest (\<lambda>_. OwnerRecoverable) ex_root True False) ex_user"
    by (simp add: crash_states_def ex_recovered_def)
  then show "w_fs ex_recovered [''app'', ''main.go''] = Some (File ''user'')"
    by (rule recovery_keeps_unverified_files [rotated 3]) (auto simp: ex_user_def ex_defs below_def)
qed

theorem interrupted_recovery_is_stuck_witness:
  "\<exists>v\<in>crash_states (recover_or_reject ex_digest (\<lambda>_. OwnerRecoverable) ex_root False) ex_installed.
    recover_or_reject ex_digest (\<lambda>_. OwnerRecoverable) ex_root False v = ([], Inl (TargetDisappeared ''gen.go''))
    \<and> w_fs v (backup_path ex_dir 0) = Some (File ''old'')"
  using interrupted_recovery_is_stuck [OF ex_installed_uncommitted, of "\<lambda>_. OwnerRecoverable"]
  by (auto simp: ex_journal_def ex_entry_def new_entry_def)

definition ex_info :: "int \<Rightarrow> process_info" where
  "ex_info pid = \<lparr>pi_started_at = [], pi_exe = [], pi_cmdline = [], pi_liveness = ProcessDead\<rparr>"

theorem recovery_fails_closed_witness:
  "fst (recover_or_reject ex_digest (inspect_owner_state ex_digest ''token-7'' 7 ex_info) ex_root False ex_staged) \<noteq> []
   \<and> owner_gone ex_digest ex_info (lk_owner ex_lock)"
proof -
  have run: "fst (recover_or_reject ex_digest (inspect_owner_state ex_digest ''token-7'' 7 ex_info) ex_root False ex_staged) \<noteq> []"
    by code_simp
  have "w_lock ex_staged = Some (Valid ex_lock)" by (simp add: ex_staged_def)
  then show ?thesis using recovery_fails_closed [OF run] run by (auto split: if_split_asm)
qed

text \<open>A publication that removes the generated file.\<close>

definition ex_removal :: "workspace \<Rightarrow> tx_error + out_file list" where
  "ex_removal w = Inr [\<lparr>of_path = ''gen.go'', of_bytes = [], of_remove = True, of_expected = []\<rparr>]"

definition ex_before :: workspace where
  "ex_before = \<lparr>w_fs = map_of (map (\<lambda>d. (d, Directory)) (take 5 ex_dirs) @ [(ex_target, File ''old'')]),
     w_lock = Some (Valid ex_lock), w_journal = None\<rparr>"

definition ex_removing :: workspace where
  "ex_removing = fst (publish_locked ex_digest (\<lambda>_. OwnerRecoverable) ex_root ex_dir ex_owner ex_removal ex_before) ! 2"

theorem removal_only_publication_unrecoverable_witness:
  "w_fs ex_removing ex_target = None \<and>
   (\<exists>e. recover_with_owner_inspector ex_digest (\<lambda>_. OwnerRecoverable) ex_root True False ex_removing = ([], Inl e))"
proof
  show "w_fs ex_removing ex_target = None" by code_simp
  have "2 < length (fst (publish_locked ex_digest (\<lambda>_. OwnerRecoverable) ex_root ex_dir ex_owner ex_removal ex_before))"
    by code_simp
  then have "ex_removing \<in> crash_states (publish_locked ex_digest (\<lambda>_. OwnerRecoverable) ex_root ex_dir ex_owner ex_removal) ex_before"
    by (simp add: crash_states_def ex_removing_def)
  moreover have "w_journal ex_removing \<noteq> None"
  proof -
    have "(case w_journal ex_removing of None \<Rightarrow> False | Some _ \<Rightarrow> True)" by code_simp
    then show ?thesis by (simp split: option.splits)
  qed
  moreover have "unstaged ex_dir ex_before"
    by (auto simp: unstaged_def ex_prefix) (auto simp: ex_before_def ex_dirs_def ex_dir_def ex_target_def)
  ultimately show "\<exists>e. recover_with_owner_inspector ex_digest (\<lambda>_. OwnerRecoverable) ex_root True False ex_removing = ([], Inl e)"
    by (intro removal_only_publication_unrecoverable) (auto simp: ex_removal_def ex_defs ex_before_def)
qed

end
