(* ===== verification/Scalars.thy ===== *)
theory Scalars
  imports DecimalText
begin

text \<open>
  The scalar values of contracts (\<open>src/internal/contract/contract_scalars.go\<close>): the parsers of
  integers, decimals, UUIDs, dates, durations, sizes and paths, their text forms, the decoders of the JSON forms and the
  canonical form of URL paths and components. A Go \<open>big.Int\<close> is an \<open>int\<close>; the \<open>int64\<close> arithmetic on
  decimal scales wraps as in Go. A JSON form is represented by the string that the JSON text
  decodes to. Unicode normalisation (\<open>golang.org/x/text\<close>) is a parameter of the path parser.
\<close>

datatype scalar_error =
    InvalidCanonicalInteger string
  | InvalidInteger string
  | InvalidDecimal string
  | ExponentOutOfRange
  | MagnitudeExceeded
  | InvalidCanonicalDecimal string
  | InvalidUuid string
  | InvalidUuidVariant
  | InvalidDate string
  | InvalidDuration string
  | NotExactNanosecond
  | InvalidIsoDuration string
  | CalendarUnitsForbidden
  | InvalidCanonicalDuration string
  | InvalidSize string
  | FractionalBytes string
  | InvalidCanonicalSize string
  | UnsupportedUnicode string
  | InvalidRelativePath string
  | InvalidHostPath string
  | InvalidPercentEscape

section \<open>Integers\<close>

definition parse_int :: "string \<Rightarrow> scalar_error + int" where
  "parse_int s =
     (if s = [] \<or> has_prefix s ''+'' \<or> (1 < length s \<and> s ! 0 = CHR ''0'') \<or> has_prefix s ''-0''
      then Inl (InvalidCanonicalInteger s)
      else case read_int s of None \<Rightarrow> Inl (InvalidInteger s) | Some i \<Rightarrow> Inr i)"

section \<open>Decimals\<close>

record decimal =
  d_coefficient :: int
  d_scale :: int

text \<open>\<open>^-?[0-9]+(?:\.[0-9]+)?(?:[eE][+-]?[0-9]+)?$\<close>\<close>

definition match_decimal :: "string \<Rightarrow> bool" where
  "match_decimal s =
     (let u = trim_prefix s ''-'';
          r1 = dropWhile is_digit u;
          dot = (r1 \<noteq> [] \<and> hd r1 = CHR ''.'');
          r2 = (if dot then dropWhile is_digit (tl r1) else r1)
      in takeWhile is_digit u \<noteq> [] \<and> (dot \<longrightarrow> takeWhile is_digit (tl r1) \<noteq> [])
         \<and> (r2 = [] \<or> (hd r2 \<in> set ''eE'' \<and>
              all_digits (if tl r2 \<noteq> [] \<and> hd (tl r2) \<in> set ''+-'' then tl (tl r2) else tl r2))))"

text \<open>\<open>strconv.ParseInt(s, 10, 64)\<close> and the wrap-around of \<open>int64\<close>.\<close>

definition parse_int64 :: "string \<Rightarrow> int option" where
  "parse_int64 s = (case read_int s of
     Some i \<Rightarrow> if - (2 ^ 63) \<le> i \<and> i < 2 ^ 63 then Some i else None | None \<Rightarrow> None)"

definition wrap64 :: "int \<Rightarrow> int" where
  "wrap64 i = (i + 2 ^ 63) mod 2 ^ 64 - 2 ^ 63"

definition max_decimal_scale :: int where
  "max_decimal_scale = 1000000"

text \<open>The loop that drops trailing zeros while the scale is positive, on the reversed digits.\<close>

fun strip_scale_rev :: "string \<Rightarrow> int \<Rightarrow> string \<times> int" where
  "strip_scale_rev [] k = ([], k)"
| "strip_scale_rev (c # cs) k = (if 0 < k \<and> c = CHR ''0'' then strip_scale_rev cs (k - 1) else (c # cs, k))"

definition strip_scale :: "string \<Rightarrow> int \<Rightarrow> string \<times> int" where
  "strip_scale s k = (case strip_scale_rev (rev s) k of (r, k') \<Rightarrow> (rev r, k'))"

definition split_exponent :: "string \<Rightarrow> scalar_error + string \<times> int" where
  "split_exponent u =
     (case dropWhile (\<lambda>c. c \<notin> set ''eE'') u of
        [] \<Rightarrow> Inr (u, 0)
      | _ # e \<Rightarrow>
          (case parse_int64 e of
             None \<Rightarrow> Inl ExponentOutOfRange
           | Some x \<Rightarrow> Inr (takeWhile (\<lambda>c. c \<notin> set ''eE'') u, x)))"

definition split_point :: "string \<Rightarrow> string \<times> int" where
  "split_point u =
     (case dropWhile (\<lambda>c. c \<noteq> CHR ''.'') u of
        [] \<Rightarrow> (u, 0)
      | _ # f \<Rightarrow> (takeWhile (\<lambda>c. c \<noteq> CHR ''.'') u @ f, int (length f)))"

definition decimal_of_digits :: "bool \<Rightarrow> string \<Rightarrow> int \<Rightarrow> scalar_error + decimal" where
  "decimal_of_digits negative u scale =
     (case strip_scale u scale of
        (ds, k) \<Rightarrow>
          if k < - max_decimal_scale \<or> max_decimal_scale < k \<or> max_decimal_scale < int (length ds)
          then Inl MagnitudeExceeded
          else Inr \<lparr>d_coefficient = (if negative then - int (number_of ds) else int (number_of ds)), d_scale = k\<rparr>)"

definition parse_decimal :: "string \<Rightarrow> scalar_error + decimal" where
  "parse_decimal s =
     (if \<not> match_decimal s then Inl (InvalidDecimal s)
      else res_bind (split_exponent (trim_prefix s ''-'')) (\<lambda>(mantissa, exponent).
        case split_point mantissa of
          (u, scale) \<Rightarrow>
            if trim_zeros u = [] then Inr \<lparr>d_coefficient = 0, d_scale = 0\<rparr>
            else decimal_of_digits (has_prefix s ''-'') (trim_zeros u) (wrap64 (scale - exponent))))"

definition decimal_string :: "decimal \<Rightarrow> string" where
  "decimal_string d =
     (let text = int_text (d_coefficient d); negative = has_prefix text ''-''; ds = trim_prefix text ''-'' in
      if d_scale d < 0 then
        (let ds' = ds @ replicate (nat (- d_scale d)) CHR ''0''
         in if negative \<and> ds' \<noteq> ''0'' then ''-'' @ ds' else ds')
      else if d_scale d = 0 then (if negative \<and> ds \<noteq> ''0'' then ''-'' @ ds else ds)
      else
        (let k = nat (d_scale d);
             ds' = (if length ds \<le> k then replicate (k - length ds + 1) CHR ''0'' @ ds else ds);
             result = take (length ds' - k) ds' @ ''.'' @ drop (length ds' - k) ds'
         in if negative then ''-'' @ result else result))"

definition unmarshal_decimal :: "string \<Rightarrow> scalar_error + decimal" where
  "unmarshal_decimal text =
     (case parse_decimal text of
        Inl _ \<Rightarrow> Inl (InvalidCanonicalDecimal text)
      | Inr d \<Rightarrow> if decimal_string d \<noteq> text then Inl (InvalidCanonicalDecimal text) else Inr d)"

section \<open>UUIDs and dates\<close>

definition hex_value :: "char \<Rightarrow> nat option" where
  "hex_value c =
     (if is_digit c then Some (digit_value c)
      else if c \<in> set ''abcdef'' then Some (of_char c - 87)
      else if c \<in> set ''ABCDEF'' then Some (of_char c - 55)
      else None)"

text \<open>\<open>hex.DecodeString\<close>\<close>

fun hex_decode :: "string \<Rightarrow> nat list option" where
  "hex_decode [] = Some []"
| "hex_decode [c] = None"
| "hex_decode (a # b # cs) =
     (case (hex_value a, hex_value b, hex_decode cs) of
        (Some x, Some y, Some bs) \<Rightarrow> Some ((16 * x + y) # bs)
      | _ \<Rightarrow> None)"

definition upper_case :: "char \<Rightarrow> bool" where
  "upper_case c \<longleftrightarrow> c \<in> set ''ABCDEFGHIJKLMNOPQRSTUVWXYZ''"

text \<open>
  A byte \<open>b\<close> has \<open>b & 0xc0 == 0x80\<close> when its quotient by 64 is 2. A text with a letter that
  \<open>strings.ToLower\<close> changes beyond ASCII fails the decoding instead of the first test, with the same error here.
\<close>

definition parse_uuid :: "string \<Rightarrow> scalar_error + string" where
  "parse_uuid s =
     (if length s \<noteq> 36 \<or> list_ex upper_case s \<or> s ! 8 \<noteq> CHR ''-'' \<or> s ! 13 \<noteq> CHR ''-'' \<or> s ! 18 \<noteq> CHR ''-''
        \<or> s ! 23 \<noteq> CHR ''-''
      then Inl (InvalidUuid s)
      else case hex_decode (filter (\<lambda>c. c \<noteq> CHR ''-'') s) of
        None \<Rightarrow> Inl (InvalidUuid s)
      | Some b \<Rightarrow> if length b \<noteq> 16 \<or> (b ! 8) div 64 \<noteq> 2 then Inl InvalidUuidVariant else Inr s)"

definition leap_year :: "nat \<Rightarrow> bool" where
  "leap_year y \<longleftrightarrow> y mod 4 = 0 \<and> (y mod 100 \<noteq> 0 \<or> y mod 400 = 0)"

definition days_in :: "nat \<Rightarrow> nat \<Rightarrow> nat" where
  "days_in month year =
     (if month = 2 then (if leap_year year then 29 else 28) else if month \<in> {4, 6, 9, 11} then 30 else 31)"

text \<open>\<open>time.Parse("2006-01-02", value)\<close>\<close>

definition parse_date :: "string \<Rightarrow> scalar_error + string" where
  "parse_date s =
     (let y = take 4 s; m = take 2 (drop 5 s); d = drop 8 s in
      if length s = 10 \<and> s ! 4 = CHR ''-'' \<and> s ! 7 = CHR ''-'' \<and> all_digits y \<and> all_digits m \<and> all_digits d
        \<and> 1 \<le> number_of m \<and> number_of m \<le> 12 \<and> 1 \<le> number_of d \<and> number_of d \<le> days_in (number_of m) (number_of y)
      then Inr s else Inl (InvalidDate s))"

section \<open>Durations\<close>

definition duration_units :: "(string \<times> nat) list" where
  "duration_units =
     [(''ns'', 1), (''us'', 1000), (''ms'', 1000000), (''s'', 1000000000), (''m'', 60000000000),
      (''h'', 3600000000000), (''d'', 86400000000000), (''w'', 604800000000000)]"

text \<open>
  One match of \<open>([0-9]+(?:\.[0-9]+)?)(ns|us|ms|s|m|h|d|w)\<close> at the front: the digits before and after
  the point, the value of the unit and the text after the match.
\<close>

definition next_term :: "string \<Rightarrow> (string \<times> string \<times> nat \<times> string) option" where
  "next_term s =
     (let ip = takeWhile is_digit s;
          r1 = dropWhile is_digit s;
          dot = (r1 \<noteq> [] \<and> hd r1 = CHR ''.'');
          fp = (if dot then takeWhile is_digit (tl r1) else []);
          r2 = (if dot then dropWhile is_digit (tl r1) else r1)
      in if ip = [] \<or> (dot \<and> fp = []) then None
         else case find (\<lambda>(name, _). has_prefix r2 name) duration_units of
           None \<Rightarrow> None
         | Some (name, unit) \<Rightarrow> Some (ip, fp, unit, drop (length name) r2))"

lemma next_term_shorter: "next_term s = Some (ip, fp, u, rest) \<Longrightarrow> length rest < length s"
proof -
  assume "next_term s = Some (ip, fp, u, rest)"
  then have ne: "takeWhile is_digit s \<noteq> []" and
    rest: "length rest \<le> length (dropWhile is_digit s)"
    by (auto simp: next_term_def Let_def length_dropWhile_le [THEN le_trans] diff_le_self [THEN le_trans]
        split: if_splits option.splits prod.splits intro: le_trans [OF diff_le_self] le_trans [OF length_dropWhile_le])
  have "length (dropWhile is_digit s) < length s"
    using ne arg_cong [OF takeWhile_dropWhile_id, of length is_digit s] by (cases "takeWhile is_digit s") auto
  with rest show ?thesis by simp
qed

text \<open>
  The loop over the matches. A match that does not start where the one before it ended and a rest
  after the last match are the same error.
\<close>

function duration_terms :: "string \<Rightarrow> nat \<Rightarrow> scalar_error + nat" where
  "duration_terms s acc =
     (if s = [] then Inr acc
      else case next_term s of
        None \<Rightarrow> Inl (InvalidDuration s)
      | Some (ip, fp, unit, rest) \<Rightarrow>
          if (number_of (ip @ fp) * unit) mod 10 ^ length fp \<noteq> 0 then Inl NotExactNanosecond
          else duration_terms rest (acc + (number_of (ip @ fp) * unit) div 10 ^ length fp))"
  by pat_completeness auto
termination
  by (relation "measure (\<lambda>(s, _). length s)") (auto simp: next_term_shorter)

declare duration_terms.simps [simp del]

definition parse_duration :: "string \<Rightarrow> scalar_error + int" where
  "parse_duration s =
     (let u = trim_prefix s ''-'' in
      if u = [] then Inl (InvalidDuration s)
      else case duration_terms u 0 of
        Inl NotExactNanosecond \<Rightarrow> Inl NotExactNanosecond
      | Inl _ \<Rightarrow> Inl (InvalidDuration s)
      | Inr n \<Rightarrow> Inr (if has_prefix s ''-'' then - int n else int n))"

definition duration_string :: "int \<Rightarrow> string" where
  "duration_string i =
     (let n = nat \<bar>i\<bar>;
          days = n div 86400000000000; n = n mod 86400000000000;
          hours = n div 3600000000000; n = n mod 3600000000000;
          minutes = n div 60000000000; n = n mod 60000000000;
          seconds = n div 1000000000; nanos = n mod 1000000000;
          out = (if i < 0 then ''-'' else []) @ ''P'' @ (if 0 < days then digits days @ ''D'' else [])
      in if hours = 0 \<and> minutes = 0 \<and> seconds = 0 \<and> nanos = 0 \<and> 0 < days then out
         else
           (let out = out @ ''T'' @ (if 0 < hours then digits hours @ ''H'' else [])
                @ (if 0 < minutes then digits minutes @ ''M'' else [])
            in if 0 < nanos then out @ digits seconds @ ''.'' @ trim_zeros_right (pad_digits 9 nanos) @ ''S''
               else if 0 < seconds \<or> (days = 0 \<and> hours = 0 \<and> minutes = 0) then out @ digits seconds @ ''S''
               else out))"

text \<open>One step of the loop over the time units: the source so far and the time part left.\<close>

definition take_unit :: "char \<Rightarrow> char \<Rightarrow> string \<times> string \<Rightarrow> scalar_error + string \<times> string" where
  "take_unit marker unit st =
     (case st of
        (source, time) \<Rightarrow>
          if marker \<notin> set time then Inr (source, time)
          else if hd time = marker then Inl (InvalidIsoDuration [])
          else Inr (source @ takeWhile (\<lambda>c. c \<noteq> marker) time @ [unit], tl (dropWhile (\<lambda>c. c \<noteq> marker) time)))"

definition iso_source :: "string \<Rightarrow> scalar_error + string" where
  "iso_source original =
     (let negative = has_prefix original ''-'';
          body = trim_prefix (trim_prefix original ''-'') ''P'';
          date = takeWhile (\<lambda>c. c \<noteq> CHR ''T'') body;
          time = (case dropWhile (\<lambda>c. c \<noteq> CHR ''T'') body of [] \<Rightarrow> [] | _ # t \<Rightarrow> t);
          sign = (if negative then ''-'' else [])
      in res_bind
           (if date = [] then Inr sign
            else if \<not> has_suffix date ''D'' \<or> list_ex (\<lambda>c. c \<in> set ''YMW'') date then Inl CalendarUnitsForbidden
            else Inr (sign @ trim_suffix date ''D'' @ ''d''))
           (\<lambda>source.
              res_bind (take_unit CHR ''H'' CHR ''h'' (source, time)) (\<lambda>st.
              res_bind (take_unit CHR ''M'' CHR ''m'' st) (\<lambda>st.
              res_bind (take_unit CHR ''S'' CHR ''s'' st) (\<lambda>(source, time).
                if time \<noteq> [] \<or> source = [] \<or> source = ''-'' then Inl (InvalidIsoDuration []) else Inr source)))))"

definition decode_json_duration :: "string \<Rightarrow> scalar_error + int" where
  "decode_json_duration original =
     (if \<not> has_prefix original ''P'' \<and> \<not> has_prefix original ''-P'' then Inl (InvalidIsoDuration original)
      else res_bind (iso_source original) (\<lambda>source.
        case parse_duration source of
          Inl _ \<Rightarrow> Inl (InvalidCanonicalDuration original)
        | Inr i \<Rightarrow> if duration_string i \<noteq> original then Inl (InvalidCanonicalDuration original) else Inr i))"

section \<open>Sizes\<close>

definition size_units :: "(string \<times> int) list" where
  "size_units =
     [(''TiB'', 2 ^ 40), (''GiB'', 2 ^ 30), (''MiB'', 2 ^ 20), (''KiB'', 2 ^ 10), (''TB'', 1000000000000),
      (''GB'', 1000000000), (''MB'', 1000000), (''kB'', 1000), (''B'', 1)]"

definition parse_size :: "string \<Rightarrow> scalar_error + int" where
  "parse_size s =
     (case find (\<lambda>(ending, _). has_suffix s ending) size_units of
        None \<Rightarrow> Inl (InvalidSize s)
      | Some (ending, multiplier) \<Rightarrow>
          (let raw = trim_suffix s ending in
           case parse_decimal raw of
             Inl _ \<Rightarrow> Inl (InvalidSize s)
           | Inr q \<Rightarrow>
               if has_prefix raw ''-'' then Inl (InvalidSize s)
               else
                 (let count = d_coefficient q * (if d_scale q < 0 then 10 ^ nat (- d_scale q) else 1) * multiplier in
                  if 0 < d_scale q then
                    (if count mod 10 ^ nat (d_scale q) \<noteq> 0 then Inl (FractionalBytes s)
                     else Inr (count div 10 ^ nat (d_scale q)))
                  else Inr count)))"

definition unmarshal_size :: "string \<Rightarrow> scalar_error + int" where
  "unmarshal_size text =
     (case parse_size (text @ ''B'') of
        Inl _ \<Rightarrow> Inl (InvalidCanonicalSize text)
      | Inr n \<Rightarrow> if int_text n \<noteq> text then Inl (InvalidCanonicalSize text) else Inr n)"

section \<open>Paths\<close>

text \<open>\<open>utf8.ValidString\<close>\<close>

definition byte_in :: "nat \<Rightarrow> nat \<Rightarrow> char \<Rightarrow> bool" where
  "byte_in lo hi c \<longleftrightarrow> lo \<le> of_char c \<and> of_char c \<le> hi"

fun utf8_valid :: "string \<Rightarrow> bool" where
  "utf8_valid [] = True"
| "utf8_valid (a # s) =
     (if byte_in 0 0x7F a then utf8_valid s
      else case s of
        [] \<Rightarrow> False
      | b # s1 \<Rightarrow>
          if byte_in 0xC2 0xDF a then byte_in 0x80 0xBF b \<and> utf8_valid s1
          else case s1 of
            [] \<Rightarrow> False
          | c # s2 \<Rightarrow>
              if byte_in 0xE0 0xEF a
              then (if a = CHR 0xE0 then byte_in 0xA0 0xBF b else if a = CHR 0xED then byte_in 0x80 0x9F b else byte_in 0x80 0xBF b)
                \<and> byte_in 0x80 0xBF c \<and> utf8_valid s2
              else case s2 of
                [] \<Rightarrow> False
              | d # s3 \<Rightarrow>
                  byte_in 0xF0 0xF4 a
                  \<and> (if a = CHR 0xF0 then byte_in 0x90 0xBF b else if a = CHR 0xF4 then byte_in 0x80 0x8F b else byte_in 0x80 0xBF b)
                  \<and> byte_in 0x80 0xBF c \<and> byte_in 0x80 0xBF d \<and> utf8_valid s3)"

definition edition_unicode_version :: string where
  "edition_unicode_version = ''17.0.0''"

definition parse_relative_path :: "string \<Rightarrow> (string \<Rightarrow> string) \<Rightarrow> string \<Rightarrow> scalar_error + string" where
  "parse_relative_path version nfc s =
     (if version \<noteq> edition_unicode_version then Inl (UnsupportedUnicode version)
      else if s = [] \<or> \<not> utf8_valid s \<or> CHR 0x5C \<in> set s \<or> CHR 0x00 \<in> set s \<or> path_is_abs s \<or> path_clean s \<noteq> s
        \<or> s = ''..'' \<or> has_prefix s ''../''
      then Inl (InvalidRelativePath s)
      else Inr (join_with ''/'' (map nfc (split_on CHR ''/'' s))))"

definition parse_host_path :: "string \<Rightarrow> scalar_error + string" where
  "parse_host_path s =
     (if s = [] \<or> \<not> utf8_valid s \<or> CHR 0x00 \<in> set s \<or> \<not> path_is_abs s \<or> path_clean s \<noteq> s
      then Inl (InvalidHostPath s) else Inr s)"

section \<open>URLs\<close>

definition ascii_letter :: "char \<Rightarrow> bool" where
  "ascii_letter c \<longleftrightarrow> c \<in> set ''abcdefghijklmnopqrstuvwxyz'' \<or> upper_case c"

definition unreserved :: "char \<Rightarrow> bool" where
  "unreserved c \<longleftrightarrow> ascii_letter c \<or> is_digit c \<or> c \<in> set ''-._~''"

definition canonical_url_component_byte :: "char \<Rightarrow> bool" where
  "canonical_url_component_byte c \<longleftrightarrow>
     ascii_letter c \<or> is_digit c \<or> c \<in> set (''-._~!$&()*+,;=:@/?'' @ [CHR 0x27])"

text \<open>\<open>fmt.Fprintf(&b, "%%%02X", c)\<close>\<close>

definition percent_encode :: "char \<Rightarrow> string" where
  "percent_encode c = [CHR ''%'', ''0123456789ABCDEF'' ! (of_char c div 16), ''0123456789ABCDEF'' ! (of_char c mod 16)]"

text \<open>
  The loop over the bytes of a path or a component: escapes of unreserved characters are decoded, other escapes are
  written in upper case, and a byte outside an escape is kept if \<open>plain\<close> accepts it and escaped otherwise.
\<close>

fun normalize_escapes :: "(char \<Rightarrow> bool) \<Rightarrow> string \<Rightarrow> scalar_error + string" where
  "normalize_escapes plain [] = Inr []"
| "normalize_escapes plain (c # s) =
     (if c \<noteq> CHR ''%'' then
        res_bind (normalize_escapes plain s) (\<lambda>t. Inr ((if plain c then [c] else percent_encode c) @ t))
      else case s of
        a # b # rest \<Rightarrow>
          (case (hex_value a, hex_value b) of
             (Some x, Some y) \<Rightarrow>
               (let d = char_of (16 * x + y) in
                res_bind (normalize_escapes plain rest) (\<lambda>t. Inr ((if unreserved d then [d] else percent_encode d) @ t)))
           | _ \<Rightarrow> Inl InvalidPercentEscape)
      | _ \<Rightarrow> Inl InvalidPercentEscape)"

definition canonical_url_component :: "string \<Rightarrow> scalar_error + string" where
  "canonical_url_component s = normalize_escapes canonical_url_component_byte s"

text \<open>The loop over the segments; the accumulator holds the kept segments, last first.\<close>

fun url_step :: "string list \<Rightarrow> string \<Rightarrow> string list" where
  "url_step out seg =
     (if seg = ''.'' then out
      else if seg = ''..'' then (if 1 < length out then tl out else out)
      else seg # out)"

definition clean_url_path :: "bool \<Rightarrow> string \<Rightarrow> string" where
  "clean_url_path rooted canonical =
     (let trailing = (has_suffix canonical ''/'' \<or> has_suffix canonical ''/.'' \<or> has_suffix canonical ''/..'');
          r1 = join_with ''/'' (rev (foldl url_step [] (split_on CHR ''/'' canonical)));
          r2 = (if rooted \<and> \<not> has_prefix r1 ''/'' then ''/'' @ r1 else r1);
          r3 = (if r2 = [] \<and> rooted then ''/'' else r2)
      in if trailing \<and> \<not> has_suffix r3 ''/'' then r3 @ ''/'' else r3)"

definition canonical_url_path :: "string \<Rightarrow> scalar_error + string" where
  "canonical_url_path s =
     (if s = [] then Inr []
      else res_bind (normalize_escapes (\<lambda>_. True) s) (\<lambda>c. Inr (clean_url_path (has_prefix s ''/'') c)))"

end
