(* ===== verification/ScalarLaws.thy ===== *)
theory ScalarLaws
  imports Scalars Complex_Main
begin

text \<open>
  The laws of the scalar texts: the JSON forms of integers, decimals, durations and sizes are
  canonical codecs (a value prints to the only text that reads back to it), the parsers compute
  the number the text denotes, and the canonical URL forms are stable.
\<close>

section \<open>Canonical codecs\<close>

text \<open>The contract between a printer and a reader that accepts canonical texts only.\<close>

locale canonical_codec =
  fixes print :: "'a \<Rightarrow> string" and parse :: "string \<Rightarrow> 'e + 'a" and valid :: "'a \<Rightarrow> bool"
  assumes parse_print: "valid x \<Longrightarrow> parse (print x) = Inr x"
    and print_parse: "parse s = Inr x \<Longrightarrow> print x = s"
    and parse_valid: "parse s = Inr x \<Longrightarrow> valid x"
begin

lemma print_inj: "valid x \<Longrightarrow> valid y \<Longrightarrow> print x = print y \<longleftrightarrow> x = y"
  by (metis parse_print Inr_inject)

lemma accepts_iff: "parse s = Inr x \<longleftrightarrow> valid x \<and> s = print x"
  using parse_print print_parse parse_valid by metis

end

section \<open>Integers\<close>

lemma has_prefix_simps [simp]:
  "has_prefix s []" "\<not> has_prefix [] (c # p)" "has_prefix (x # s) (c # p) \<longleftrightarrow> x = c \<and> has_prefix s p"
  by (auto simp: has_prefix_def)

lemma digits_prefix:
  "has_prefix (digits n) [c] \<longleftrightarrow> hd (digits n) = c" "\<not> is_digit c \<Longrightarrow> \<not> has_prefix (digits n) (c # p)"
proof -
  obtain x xs where d: "digits n = x # xs" by (cases "digits n") auto
  then have "is_digit x" using hd_digits_digit [of n] by simp
  then show "has_prefix (digits n) [c] \<longleftrightarrow> hd (digits n) = c" "\<not> is_digit c \<Longrightarrow> \<not> has_prefix (digits n) (c # p)"
    using d by auto
qed

lemma parse_int_text: "parse_int (int_text i) = Inr i"
proof -
  have "length (digits (nat i)) = 1" if "digits (nat i) ! 0 = CHR ''0''" "0 \<le> i"
    using that digits_leading_zero [of "nat i"] by (simp add: hd_conv_nth)
  moreover have "\<not> has_prefix (digits (nat (- i))) ''0''" if "i < 0"
    using that by (simp add: digits_prefix digits_leading_zero)
  ultimately show ?thesis
    using read_int_text [of i] by (auto simp: parse_int_def int_text_def digits_prefix)
qed

lemma int_text_parse:
  assumes "parse_int s = Inr i"
  shows "int_text i = s"
proof -
  have not: "\<not> (s = [] \<or> has_prefix s ''+'' \<or> (1 < length s \<and> s ! 0 = CHR ''0'') \<or> has_prefix s ''-0'')"
    and read: "read_int s = Some i"
    using assms by (auto simp: parse_int_def split: if_splits option.splits)
  obtain c t where s: "s = c # t" using not by (cases s) auto
  show ?thesis
  proof (cases "c = CHR ''-''")
    case True
    then have t: "all_digits t" "i = - int (number_of t)"
      using read by (simp_all add: s read_int_def Let_def split: if_splits)
    then obtain x u where u: "t = x # u" by (cases t) (auto simp: all_digits_def)
    then have "x \<noteq> CHR ''0''" using not True by (simp add: s)
    then have d: "digits (number_of t) = t" using t u by (intro digits_number_of) auto
    then have "number_of t \<noteq> 0" using u \<open>x \<noteq> CHR ''0''\<close> by (metis digits_0 list.sel(1))
    then show ?thesis using t d True by (simp add: int_text_def s)
  next
    case False
    then have "all_digits s" "i = int (number_of s)"
      using read not by (simp_all add: s read_int_def Let_def split: if_splits)
    moreover have "hd s \<noteq> CHR ''0'' \<or> length s = 1"
      using not by (cases t) (simp_all add: s)
    ultimately show ?thesis by (simp add: int_text_def digits_number_of)
  qed
qed

interpretation int_codec: canonical_codec int_text parse_int "\<lambda>_. True"
  by unfold_locales (simp_all add: parse_int_text int_text_parse)

section \<open>Durations\<close>

lemma span_digits:
  assumes "list_all is_digit ds" "\<not> is_digit c"
  shows "takeWhile is_digit (ds @ c # r) = ds" "dropWhile is_digit (ds @ c # r) = c # r"
  using assms by (induction ds) auto

definition part :: "nat \<Rightarrow> char \<Rightarrow> string" where
  "part k c = (if 0 < k then digits k @ [c] else [])"

lemma duration_unit_cases:
  assumes "(c, v) \<in> {(CHR ''s'', 1000000000), (CHR ''m'', 60000000000), (CHR ''h'', 3600000000000), (CHR ''d'', 86400000000000)}"
    and "rest = [] \<or> is_digit (hd rest)"
  shows "find (\<lambda>(name, _). has_prefix (c # rest) name) duration_units = Some ([c], v)" "\<not> is_digit c" "c \<noteq> CHR ''.''"
proof -
  have "\<not> has_prefix rest ''s''" using assms(2) by (cases rest) (auto simp: is_digit_def)
  then show "find (\<lambda>(name, _). has_prefix (c # rest) name) duration_units = Some ([c], v)" "\<not> is_digit c" "c \<noteq> CHR ''.''"
    using assms(1) by (auto simp: duration_units_def is_digit_def)
qed

lemma next_term_unit:
  assumes "all_digits ip" "list_all is_digit fp"
    and "(c, v) \<in> {(CHR ''s'', 1000000000), (CHR ''m'', 60000000000), (CHR ''h'', 3600000000000), (CHR ''d'', 86400000000000)}"
    and "rest = [] \<or> is_digit (hd rest)"
  shows "next_term (ip @ (if fp = [] then [] else CHR ''.'' # fp) @ c # rest) = Some (ip, fp, v, rest)"
proof -
  note unit = duration_unit_cases [OF assms(3,4)]
  show ?thesis
    using assms(1,2) unit(1) unit(2,3)
    by (cases "fp = []") (auto simp: next_term_def Let_def span_digits all_digits_def)
qed

lemma duration_terms_unit:
  assumes "all_digits ip" "list_all is_digit fp"
    and "(c, v) \<in> {(CHR ''s'', 1000000000), (CHR ''m'', 60000000000), (CHR ''h'', 3600000000000), (CHR ''d'', 86400000000000)}"
    and "rest = [] \<or> is_digit (hd rest)" "(number_of (ip @ fp) * v) mod 10 ^ length fp = 0"
  shows "duration_terms (ip @ (if fp = [] then [] else CHR ''.'' # fp) @ c # rest) acc =
    duration_terms rest (acc + number_of (ip @ fp) * v div 10 ^ length fp)"
  using assms(5) next_term_unit [OF assms(1-4)] duration_terms.simps [of "ip @ (if fp = [] then [] else CHR ''.'' # fp) @ c # rest" acc]
  by simp

lemma duration_terms_part:
  assumes "(c, v) \<in> {(CHR ''m'', 60000000000), (CHR ''h'', 3600000000000), (CHR ''d'', 86400000000000)}"
    and "rest = [] \<or> is_digit (hd rest)"
  shows "duration_terms (part k c @ rest) acc = duration_terms rest (acc + k * v)"
  using duration_terms_unit [of "digits k" "[]" c v rest acc] assms by (auto simp: part_def)

text \<open>The fraction of a second without its trailing zeros.\<close>

lemma trim_zeros_split: "\<exists>k. s = replicate k CHR ''0'' @ trim_zeros s"
proof (induction s)
  case (Cons c s)
  then obtain k where "s = replicate k CHR ''0'' @ trim_zeros s" by blast
  then show ?case
    by (intro exI [of _ "if c = CHR ''0'' then Suc k else 0"]) (simp add: trim_zeros_def)
qed (simp add: trim_zeros_def)

lemma trim_zeros_right_split:
  obtains k where "s = trim_zeros_right s @ replicate k CHR ''0''"
proof -
  obtain k where "rev s = replicate k CHR ''0'' @ trim_zeros (rev s)" using trim_zeros_split by blast
  then have "rev (rev s) = trim_zeros_right s @ replicate k CHR ''0''"
    unfolding trim_zeros_right_def by (metis rev_append rev_replicate)
  then show ?thesis using that by simp
qed

lemma fraction_digits:
  assumes "0 < n" "n < 1000000000"
  defines "f \<equiv> trim_zeros_right (pad_digits 9 n)"
  shows "list_all is_digit f" "f \<noteq> []" "number_of f * 1000000000 = n * 10 ^ length f"
proof -
  obtain k where k: "pad_digits 9 n = f @ replicate k CHR ''0''"
    unfolding f_def by (rule trim_zeros_right_split)
  have len: "length (pad_digits 9 n) = 9"
    using digits_length_le [of n 9] assms by (simp add: pad_digits_def)
  have "list_all is_digit (pad_digits 9 n)" using digits_digits [of n] by (auto simp: pad_digits_def list_all_iff)
  then show "list_all is_digit f" by (simp add: k)
  have n: "n = number_of f * 10 ^ k"
    using number_of_pad [of 9 n] by (simp add: k number_of_append)
  then show "f \<noteq> []" using assms by auto
  have "length f + k = 9" using len by (simp add: k)
  then have "(1000000000::nat) = 10 ^ k * 10 ^ length f" by (simp flip: power_add add: add.commute)
  then show "number_of f * 1000000000 = n * 10 ^ length f" by (simp add: n)
qed

text \<open>The seconds of the source text and of the ISO text differ in the unit only.\<close>

definition seconds_part :: "nat \<Rightarrow> nat \<Rightarrow> bool \<Rightarrow> char \<Rightarrow> string" where
  "seconds_part seconds nanos zero c =
     (if 0 < nanos then digits seconds @ ''.'' @ trim_zeros_right (pad_digits 9 nanos) @ [c]
      else if 0 < seconds \<or> zero then digits seconds @ [c] else [])"

lemma duration_terms_seconds:
  assumes "nanos < 1000000000"
  shows "duration_terms (seconds_part seconds nanos zero CHR ''s'') acc = Inr (acc + seconds * 1000000000 + nanos)"
proof -
  have stop: "duration_terms [] a = Inr a" for a by (simp add: duration_terms.simps)
  show ?thesis
  proof (cases "0 < nanos")
    case True
    define f where "f = trim_zeros_right (pad_digits 9 nanos)"
    note f = fraction_digits [OF True assms, folded f_def]
    have num: "number_of (digits seconds @ f) * 1000000000 = (seconds * 1000000000 + nanos) * 10 ^ length f"
      using f(3) by (simp add: number_of_append algebra_simps)
    have "duration_terms (digits seconds @ (if f = [] then [] else CHR ''.'' # f) @ CHR ''s'' # []) acc =
        duration_terms [] (acc + number_of (digits seconds @ f) * 1000000000 div 10 ^ length f)"
      by (rule duration_terms_unit) (use f(1) num in auto)
    then show ?thesis using True f(2) num stop by (simp add: seconds_part_def f_def)
  next
    case False
    then show ?thesis
      using duration_terms_unit [of "digits seconds" "[]" "CHR ''s''" 1000000000 "[]" acc] stop
      by (simp add: seconds_part_def)
  qed
qed

lemma part_digit: "part k c @ rest = [] \<or> is_digit (hd (part k c @ rest))" if "rest = [] \<or> is_digit (hd rest)"
  using that hd_digits_digit [of k] by (simp add: part_def)

lemma seconds_part_digit: "seconds_part s n z c = [] \<or> is_digit (hd (seconds_part s n z c))"
  by (simp add: seconds_part_def)

definition source_text :: "nat \<Rightarrow> nat \<Rightarrow> nat \<Rightarrow> nat \<Rightarrow> nat \<Rightarrow> string" where
  "source_text d h m s n = part d CHR ''d'' @ part h CHR ''h'' @ part m CHR ''m''
     @ seconds_part s n (d = 0 \<and> h = 0 \<and> m = 0) CHR ''s''"

lemma duration_terms_source:
  assumes "n < 1000000000"
  shows "duration_terms (source_text d h m s n) 0 =
    Inr (d * 86400000000000 + h * 3600000000000 + m * 60000000000 + s * 1000000000 + n)"
  unfolding source_text_def
  using duration_terms_part [OF _ part_digit [OF part_digit [OF seconds_part_digit]]]
    duration_terms_part [OF _ part_digit [OF seconds_part_digit]] duration_terms_part [OF _ seconds_part_digit]
    duration_terms_seconds [OF assms]
  by simp

lemma source_text_not_Nil: "source_text d h m s n \<noteq> []" "\<not> has_prefix (source_text d h m s n) ''-''"
proof -
  show "source_text d h m s n \<noteq> []" by (simp add: source_text_def part_def seconds_part_def)
  have "source_text d h m s n = [] \<or> is_digit (hd (source_text d h m s n))"
    unfolding source_text_def by (intro part_digit seconds_part_digit)
  then show "\<not> has_prefix (source_text d h m s n) ''-''"
    by (cases "source_text d h m s n") (auto simp: is_digit_def)
qed

lemma parse_duration_source:
  assumes "n < 1000000000"
  shows "parse_duration ((if neg then ''-'' else []) @ source_text d h m s n) =
    Inr ((if neg then -1 else 1) *
      int (d * 86400000000000 + h * 3600000000000 + m * 60000000000 + s * 1000000000 + n))"
  using source_text_not_Nil [of d h m s n] duration_terms_source [OF assms, of d h m s]
  by (auto simp: parse_duration_def trim_prefix_def Let_def)

definition iso_text :: "bool \<Rightarrow> nat \<Rightarrow> nat \<Rightarrow> nat \<Rightarrow> nat \<Rightarrow> nat \<Rightarrow> string" where
  "iso_text neg d h m s n =
     (if neg then ''-'' else []) @ ''P'' @ part d CHR ''D'' @
     (if h = 0 \<and> m = 0 \<and> s = 0 \<and> n = 0 \<and> 0 < d then []
      else ''T'' @ part h CHR ''H'' @ part m CHR ''M'' @ seconds_part s n (d = 0 \<and> h = 0 \<and> m = 0) CHR ''S'')"

lemma part_set: "x \<in> set (part k c) \<Longrightarrow> is_digit x \<or> x = c"
  using digits_digits [of k] by (auto simp: part_def list_all_iff split: if_splits)

lemma seconds_part_set:
  assumes "n < 1000000000" "x \<in> set (seconds_part s n z c)"
  shows "is_digit x \<or> x = c \<or> x = CHR ''.''"
  using assms fraction_digits(1) [of n] digits_digits [of s]
  by (auto simp: seconds_part_def list_all_iff split: if_splits)

lemma letter_not_digit [simp]:
  "\<not> is_digit CHR ''S''" "\<not> is_digit CHR ''T''" "\<not> is_digit CHR ''H''" "\<not> is_digit CHR ''M''" "\<not> is_digit CHR ''D''"
  by (simp_all add: is_digit_def)

lemma digits_notin: "list_all is_digit s \<Longrightarrow> \<not> is_digit c \<Longrightarrow> c \<notin> set s"
  by (auto simp: list_all_iff)

lemma span_until:
  assumes "c \<notin> set xs"
  shows "takeWhile (\<lambda>x. x \<noteq> c) (xs @ c # r) = xs" "dropWhile (\<lambda>x. x \<noteq> c) (xs @ c # r) = c # r"
  using assms by (induction xs) auto

lemma take_unit_part:
  assumes "c \<notin> set rest" "\<not> is_digit c"
  shows "take_unit c u (source, part k c @ rest) = Inr (source @ part k u, rest)"
proof (cases "0 < k")
  case True
  have no: "c \<notin> set (digits k)" by (rule digits_notin) (simp_all add: assms(2))
  have "hd (digits k) \<noteq> c" using hd_digits_digit [of k] assms(2) by auto
  then show ?thesis using True no by (simp add: take_unit_def part_def span_until)
qed (use assms in \<open>simp add: take_unit_def part_def\<close>)

lemma take_unit_seconds:
  assumes "n < 1000000000"
  shows "take_unit CHR ''S'' CHR ''s'' (source, seconds_part s n z CHR ''S'') = Inr (source @ seconds_part s n z CHR ''s'', [])"
proof (cases "seconds_part s n z CHR ''S'' = []")
  case True
  then show ?thesis by (auto simp: take_unit_def seconds_part_def split: if_splits)
next
  case False
  define body where "body = (if 0 < n then digits s @ ''.'' @ trim_zeros_right (pad_digits 9 n) else digits s)"
  have eq: "seconds_part s n z c = body @ [c]" for c
    using False by (auto simp: seconds_part_def body_def split: if_splits)
  have "CHR ''S'' \<notin> set body"
    using digits_notin [OF fraction_digits(1) [of n]] digits_notin [OF digits_digits [of s]] assms by (simp add: body_def)
  moreover have "hd (body @ ''S'') \<noteq> CHR ''S''"
    using hd_digits_digit [of s] letter_not_digit(1) by (metis body_def digits_not_Nil hd_append2 append_is_Nil_conv)
  ultimately show ?thesis by (simp add: eq take_unit_def span_until)
qed

lemma iso_source_text:
  assumes "n < 1000000000"
  shows "iso_source (iso_text neg d h m s n) = Inr ((if neg then ''-'' else []) @ source_text d h m s n)"
proof -
  let ?sign = "if neg then ''-'' else []" and ?zero = "d = 0 \<and> h = 0 \<and> m = 0"
  let ?none = "h = 0 \<and> m = 0 \<and> s = 0 \<and> n = 0 \<and> 0 < d"
  let ?S = "seconds_part s n ?zero CHR ''S''"
  define time where "time = (if ?none then [] else part h CHR ''H'' @ part m CHR ''M'' @ ?S)"
  define body where "body = part d CHR ''D'' @ (if ?none then [] else ''T'' @ time)"
  have strip: "has_prefix (iso_text neg d h m s n) ''-'' \<longleftrightarrow> neg"
    "trim_prefix (trim_prefix (iso_text neg d h m s n) ''-'') ''P'' = body"
    by (auto simp: iso_text_def trim_prefix_def body_def time_def)
  have noT: "CHR ''T'' \<notin> set (part d CHR ''D'')" using part_set [of "CHR ''T''"] by auto
  have "takeWhile (\<lambda>c. c \<noteq> CHR ''T'') body = part d CHR ''D'' \<and> (case dropWhile (\<lambda>c. c \<noteq> CHR ''T'') body of [] \<Rightarrow> [] | _ # t \<Rightarrow> t) = time"
  proof (cases ?none)
    case True
    then have body: "body = part d CHR ''D''" by (simp add: body_def)
    have "takeWhile (\<lambda>c. c \<noteq> CHR ''T'') body = body" "dropWhile (\<lambda>c. c \<noteq> CHR ''T'') body = []"
      using noT unfolding body takeWhile_eq_all_conv dropWhile_eq_Nil_conv by metis+
    then show ?thesis using True body by (simp add: time_def del: dropWhile_eq_Nil_conv takeWhile_eq_all_conv)
  next
    case False
    then have "body = part d CHR ''D'' @ CHR ''T'' # time" by (auto simp: body_def)
    then show ?thesis using span_until [OF noT, of time] by simp
  qed
  then have date: "takeWhile (\<lambda>c. c \<noteq> CHR ''T'') body = part d CHR ''D''" "(case dropWhile (\<lambda>c. c \<noteq> CHR ''T'') body of [] \<Rightarrow> [] | _ # t \<Rightarrow> t) = time" by simp_all
  have days: "(if part d CHR ''D'' = [] then Inr ?sign
      else if \<not> has_suffix (part d CHR ''D'') ''D'' \<or> list_ex (\<lambda>c. c \<in> set ''YMW'') (part d CHR ''D'')
      then Inl CalendarUnitsForbidden else Inr (?sign @ trim_suffix (part d CHR ''D'') ''D'' @ ''d''))
    = Inr (?sign @ part d CHR ''d'')"
  proof (cases "0 < d")
    case True
    have "CHR ''Y'' \<notin> set (digits d)" "CHR ''M'' \<notin> set (digits d)" "CHR ''W'' \<notin> set (digits d)"
      by (rule digits_notin, simp, simp add: is_digit_def)+
    then have "list_ex (\<lambda>c. c \<in> set ''YMW'') (digits d) = False"
      by (auto simp: list_ex_iff)
    then show ?thesis using True by (simp add: part_def has_suffix_def trim_suffix_def)
  qed (simp add: part_def)
  have "take_unit CHR ''H'' CHR ''h'' (?sign @ part d CHR ''d'', time) =
      Inr (?sign @ part d CHR ''d'' @ part h CHR ''h'', part m CHR ''M'' @ ?S)"
  proof (cases ?none)
    case False
    have "CHR ''H'' \<notin> set (part m CHR ''M'' @ ?S)"
      using part_set [of "CHR ''H''" m] seconds_part_set [OF assms, of "CHR ''H''"] by auto
    moreover have "time = part h CHR ''H'' @ part m CHR ''M'' @ ?S" using False unfolding time_def by (rule if_not_P)
    ultimately show ?thesis using take_unit_part [of "CHR ''H''" "part m CHR ''M'' @ ?S"] by simp
  qed (simp add: time_def take_unit_def part_def seconds_part_def)
  moreover have "take_unit CHR ''M'' CHR ''m'' (src, part m CHR ''M'' @ ?S) = Inr (src @ part m CHR ''m'', ?S)" for src
  proof -
    have "CHR ''M'' \<notin> set ?S" using seconds_part_set [OF assms, of "CHR ''M''"] by auto
    then show ?thesis using take_unit_part [of "CHR ''M''" ?S] by simp
  qed
  moreover have "?sign @ source_text d h m s n \<noteq> []" "?sign @ source_text d h m s n \<noteq> ''-''"
    using source_text_not_Nil [of d h m s n] by auto
  ultimately show ?thesis
    unfolding iso_source_def Let_def strip date days by (simp add: take_unit_seconds [OF assms] source_text_def)
qed

lemma iso_render:
  "iso_text neg d h m s n =
     (let out = (if neg then ''-'' else []) @ ''P'' @ (if 0 < d then digits d @ ''D'' else [])
      in if h = 0 \<and> m = 0 \<and> s = 0 \<and> n = 0 \<and> 0 < d then out
         else
           (let out = out @ ''T'' @ (if 0 < h then digits h @ ''H'' else []) @ (if 0 < m then digits m @ ''M'' else [])
            in if 0 < n then out @ digits s @ ''.'' @ trim_zeros_right (pad_digits 9 n) @ ''S''
               else if 0 < s \<or> (d = 0 \<and> h = 0 \<and> m = 0) then out @ digits s @ ''S''
               else out))"
  by (simp add: iso_text_def seconds_part_def part_def Let_def)

lemma duration_string_iso:
  fixes i :: int
  defines "n \<equiv> nat \<bar>i\<bar>"
  shows "duration_string i = iso_text (i < 0) (n div 86400000000000) (n mod 86400000000000 div 3600000000000)
    (n mod 86400000000000 mod 3600000000000 div 60000000000)
    (n mod 86400000000000 mod 3600000000000 mod 60000000000 div 1000000000)
    (n mod 86400000000000 mod 3600000000000 mod 60000000000 mod 1000000000)"
  by (simp only: duration_string_def iso_render n_def Let_def)

lemma split_units:
  fixes n :: nat
  shows "n div 86400000000000 * 86400000000000 + n mod 86400000000000 div 3600000000000 * 3600000000000
    + n mod 86400000000000 mod 3600000000000 div 60000000000 * 60000000000
    + n mod 86400000000000 mod 3600000000000 mod 60000000000 div 1000000000 * 1000000000
    + n mod 86400000000000 mod 3600000000000 mod 60000000000 mod 1000000000 = n"
  by simp

lemma decode_duration_string: "decode_json_duration (duration_string i) = Inr i"
proof -
  let ?n = "nat \<bar>i\<bar>"
  let ?d = "?n div 86400000000000" and ?h = "?n mod 86400000000000 div 3600000000000"
    and ?m = "?n mod 86400000000000 mod 3600000000000 div 60000000000"
    and ?s = "?n mod 86400000000000 mod 3600000000000 mod 60000000000 div 1000000000"
    and ?f = "?n mod 86400000000000 mod 3600000000000 mod 60000000000 mod 1000000000"
  have f: "?f < 1000000000" by simp
  have src: "iso_source (duration_string i) = Inr ((if i < 0 then ''-'' else []) @ source_text ?d ?h ?m ?s ?f)"
    unfolding duration_string_iso by (rule iso_source_text [OF f])
  have "int (?d * 86400000000000 + ?h * 3600000000000 + ?m * 60000000000 + ?s * 1000000000 + ?f) = \<bar>i\<bar>"
    unfolding split_units by simp
  then have "parse_duration ((if i < 0 then ''-'' else []) @ source_text ?d ?h ?m ?s ?f) = Inr i"
    unfolding parse_duration_source [OF f] by simp
  moreover have "has_prefix (duration_string i) ''P'' \<or> has_prefix (duration_string i) ''-P''"
    unfolding duration_string_iso iso_text_def by simp
  ultimately show ?thesis by (simp add: decode_json_duration_def src)
qed

lemma duration_string_decode: "decode_json_duration s = Inr i \<Longrightarrow> duration_string i = s"
proof -
  assume "decode_json_duration s = Inr i"
  then obtain src where "(case parse_duration src of Inl _ \<Rightarrow> Inl (InvalidCanonicalDuration s)
      | Inr k \<Rightarrow> if duration_string k \<noteq> s then Inl (InvalidCanonicalDuration s) else Inr k) = Inr i"
    unfolding decode_json_duration_def by (auto split: if_splits)
  then show ?thesis by (cases "parse_duration src") (auto split: if_splits)
qed

interpretation duration_codec: canonical_codec duration_string decode_json_duration "\<lambda>_. True"
  by unfold_locales (simp_all add: decode_duration_string duration_string_decode)

section \<open>Decimals\<close>

definition point_text :: "string \<Rightarrow> string \<Rightarrow> string" where
  "point_text ip fp = ip @ (if fp = [] then [] else CHR ''.'' # fp)"

lemma point_text_prefix: "all_digits ip \<Longrightarrow> \<not> is_digit c \<Longrightarrow> \<not> has_prefix (point_text ip fp) [c]"
  by (cases ip) (auto simp: point_text_def all_digits_def)

lemma signed_text:
  assumes "all_digits ip"
  shows "has_prefix ((if neg then ''-'' else []) @ point_text ip fp) ''-'' \<longleftrightarrow> neg"
    "trim_prefix ((if neg then ''-'' else []) @ point_text ip fp) ''-'' = point_text ip fp"
  using point_text_prefix [OF assms, of "CHR ''-''"] by (auto simp: trim_prefix_def)

lemma read_int_iff:
  "(\<exists>x. read_int t = Some x) \<longleftrightarrow> all_digits (if t \<noteq> [] \<and> hd t \<in> set ''+-'' then tl t else t)"
  by (auto simp: read_int_def Let_def)

text \<open>The exponent part of a decimal text: empty, or a marker and an integer.\<close>

definition exponent_part :: "string \<Rightarrow> bool" where
  "exponent_part ex \<longleftrightarrow> ex = [] \<or> (\<exists>c t x. ex = c # t \<and> c \<in> set ''eE'' \<and> read_int t = Some x)"

lemma exponent_part_iff:
  "exponent_part ex \<longleftrightarrow> ex = [] \<or> (hd ex \<in> set ''eE'' \<and>
     all_digits (if tl ex \<noteq> [] \<and> hd (tl ex) \<in> set ''+-'' then tl (tl ex) else tl ex))"
proof (cases ex)
  case (Cons c t)
  then show ?thesis using read_int_iff [of t] by (auto simp: exponent_part_def)
qed (simp add: exponent_part_def)

lemma exponent_part_head: "exponent_part ex \<Longrightarrow> ex = [] \<or> \<not> is_digit (hd ex) \<and> hd ex \<noteq> CHR ''.''"
  by (cases ex) (auto simp: exponent_part_def)

lemma match_decimal_text:
  assumes "all_digits ip" "list_all is_digit fp" "exponent_part ex"
  shows "match_decimal ((if neg then ''-'' else []) @ point_text ip fp @ ex)"
proof -
  let ?u = "point_text ip fp @ ex"
  have ip: "list_all is_digit ip" "ip \<noteq> []" using assms(1) by (simp_all add: all_digits_def)
  have "\<not> has_prefix ?u ''-''"
    using point_text_prefix [OF assms(1), of "CHR ''-''" fp] ip by (cases ip) (auto simp: point_text_def)
  then have trim: "trim_prefix ((if neg then ''-'' else []) @ ?u) ''-'' = ?u" by (simp add: trim_prefix_def)
  have span: "takeWhile is_digit (ds @ ex) = ds \<and> dropWhile is_digit (ds @ ex) = ex" if "list_all is_digit ds" for ds
  proof (cases ex)
    case Nil
    then show ?thesis using that by (simp add: list_all_iff takeWhile_eq_all_conv)
  next
    case (Cons c t)
    then show ?thesis using exponent_part_head [OF assms(3)] span_digits [OF that, of c t] by simp
  qed
  have span_dot: "takeWhile is_digit (ip @ CHR ''.'' # fp @ ex) = ip \<and> dropWhile is_digit (ip @ CHR ''.'' # fp @ ex) = CHR ''.'' # fp @ ex"
    using span_digits [OF ip(1), of "CHR ''.''"] by simp
  have ex: "ex = [] \<or> hd ex \<noteq> CHR ''.''" using exponent_part_head [OF assms(3)] by auto
  show ?thesis
    using span [OF ip(1)] span [OF assms(2)] span_dot ip(2) ex assms(3) [unfolded exponent_part_iff]
    unfolding match_decimal_def Let_def trim
    by (cases "fp = []"; cases "ex = []"; cases "tl ex = []") (simp_all add: point_text_def del: list.set takeWhile_eq_all_conv dropWhile_eq_Nil_conv split: if_splits)
qed

lemma match_decimal_cases:
  assumes "match_decimal s"
  obtains neg ip fp ex where "s = (if neg then ''-'' else []) @ point_text ip fp @ ex"
    "all_digits ip" "list_all is_digit fp" "exponent_part ex"
proof -
  let ?u = "trim_prefix s ''-''" and ?neg = "has_prefix s ''-''"
  let ?r1 = "dropWhile is_digit ?u"
  let ?dot = "?r1 \<noteq> [] \<and> hd ?r1 = CHR ''.''"
  let ?fp = "if ?dot then takeWhile is_digit (tl ?r1) else []"
  let ?ex = "if ?dot then dropWhile is_digit (tl ?r1) else ?r1"
  have ok: "takeWhile is_digit ?u \<noteq> []" "?dot \<longrightarrow> takeWhile is_digit (tl ?r1) \<noteq> []" "exponent_part ?ex"
    using assms unfolding match_decimal_def Let_def exponent_part_iff by auto
  have "?r1 = (if ?fp = [] then [] else CHR ''.'' # ?fp) @ ?ex"
    using ok(2) by (cases ?r1) auto
  then have "?u = point_text (takeWhile is_digit ?u) ?fp @ ?ex"
    unfolding point_text_def append.assoc by (metis takeWhile_dropWhile_id)
  moreover have "s = (if ?neg then ''-'' else []) @ ?u"
    by (auto simp: trim_prefix_def has_prefix_def) (metis append_take_drop_id append_Cons append_Nil)
  moreover have "all_digits (takeWhile is_digit ?u)" "list_all is_digit ?fp"
    using ok(1) by (auto simp: all_digits_def list_all_iff dest: set_takeWhileD)
  ultimately show ?thesis using that ok(3) by metis
qed

lemma split_exponent_text:
  assumes "all_digits ip" "list_all is_digit fp" "exponent_part ex"
  shows "split_exponent (point_text ip fp @ ex) =
    (case ex of [] \<Rightarrow> Inr (point_text ip fp, 0)
     | _ # t \<Rightarrow> (case parse_int64 t of None \<Rightarrow> Inl ExponentOutOfRange | Some x \<Rightarrow> Inr (point_text ip fp, x)))"
proof -
  have no: "c \<notin> set ''eE''" if "c \<in> set (point_text ip fp)" for c
  proof -
    have "is_digit c \<or> c = CHR ''.''"
      using that assms(1,2) by (auto simp: point_text_def all_digits_def list_all_iff split: if_splits)
    then show ?thesis by auto
  qed
  show ?thesis
  proof (cases ex)
    case Nil
    have "dropWhile (\<lambda>c. c \<notin> set ''eE'') (point_text ip fp) = []" using no by simp
    then show ?thesis using Nil by (simp add: split_exponent_def del: dropWhile_eq_Nil_conv)
  next
    case (Cons c t)
    then have c: "c \<in> set ''eE''" using assms(3) by (auto simp: exponent_part_def)
    have "dropWhile (\<lambda>c. c \<notin> set ''eE'') (point_text ip fp @ c # t) = c # t"
      "takeWhile (\<lambda>c. c \<notin> set ''eE'') (point_text ip fp @ c # t) = point_text ip fp"
      using no c by (simp_all add: dropWhile_append2 takeWhile_append2 del: list.set)
    then show ?thesis using Cons by (simp add: split_exponent_def del: list.set split: option.split)
  qed
qed

lemma split_point_text:
  assumes "list_all is_digit ip"
  shows "split_point (point_text ip fp) = (ip @ fp, int (length fp))"
proof -
  have no: "CHR ''.'' \<notin> set ip" by (rule digits_notin [OF assms]) simp
  show ?thesis
  proof (cases "fp = []")
    case True
    have "dropWhile (\<lambda>c. c \<noteq> CHR ''.'') ip = []" using no by auto
    then show ?thesis using True by (simp add: split_point_def point_text_def del: dropWhile_eq_Nil_conv)
  next
    case False
    then show ?thesis using span_until [OF no, of fp] by (simp add: split_point_def point_text_def)
  qed
qed

definition decimal_of_mantissa :: "bool \<Rightarrow> string \<Rightarrow> int \<Rightarrow> scalar_error + decimal" where
  "decimal_of_mantissa neg u scale =
     (if trim_zeros u = [] then Inr \<lparr>d_coefficient = 0, d_scale = 0\<rparr> else decimal_of_digits neg (trim_zeros u) (wrap64 scale))"

lemma parse_decimal_text:
  assumes "all_digits ip" "list_all is_digit fp" "exponent_part ex"
  shows "parse_decimal ((if neg then ''-'' else []) @ point_text ip fp @ ex) =
    (case ex of [] \<Rightarrow> decimal_of_mantissa neg (ip @ fp) (int (length fp))
     | _ # t \<Rightarrow> (case parse_int64 t of None \<Rightarrow> Inl ExponentOutOfRange
         | Some x \<Rightarrow> decimal_of_mantissa neg (ip @ fp) (int (length fp) - x)))"
proof -
  let ?s = "(if neg then ''-'' else []) @ point_text ip fp @ ex"
  have ip: "list_all is_digit ip" "ip \<noteq> []" using assms(1) by (simp_all add: all_digits_def)
  have no: "\<not> has_prefix (point_text ip fp @ ex) ''-''"
    using ip by (cases ip) (auto simp: point_text_def)
  then have sign: "has_prefix ?s ''-'' \<longleftrightarrow> neg" "trim_prefix ?s ''-'' = point_text ip fp @ ex"
    by (auto simp: trim_prefix_def)
  show ?thesis
    unfolding parse_decimal_def sign split_exponent_text [OF assms]
    using match_decimal_text [OF assms, of neg] split_point_text [OF ip(1), of fp]
    by (cases ex) (auto simp: decimal_of_mantissa_def split: option.splits)
qed

text \<open>What a decimal text denotes, by its grammar, and the value of a decimal.\<close>

inductive decimal_denotes :: "string \<Rightarrow> rat \<Rightarrow> bool" where
  plain: "all_digits ip \<Longrightarrow> list_all is_digit fp \<Longrightarrow>
    decimal_denotes ((if neg then ''-'' else []) @ point_text ip fp)
      ((if neg then -1 else 1) * of_nat (number_of (ip @ fp)) / 10 ^ length fp)"
| scaled: "all_digits ip \<Longrightarrow> list_all is_digit fp \<Longrightarrow> c \<in> set ''eE'' \<Longrightarrow> read_int t = Some x \<Longrightarrow>
    decimal_denotes ((if neg then ''-'' else []) @ point_text ip fp @ c # t)
      ((if neg then -1 else 1) * of_nat (number_of (ip @ fp)) / 10 ^ length fp * 10 powi x)"

definition decimal_value :: "decimal \<Rightarrow> rat" where
  "decimal_value d = of_int (d_coefficient d) * 10 powi (- d_scale d)"

lemma strip_scale_rev_spec:
  assumes "strip_scale_rev r k = (r', k')"
  shows "\<exists>z. r = replicate z CHR ''0'' @ r' \<and> k = k' + int z \<and> (0 < z \<longrightarrow> 0 \<le> k') \<and> (0 < k' \<longrightarrow> r' = [] \<or> hd r' \<noteq> CHR ''0'')"
  using assms
proof (induction r k rule: strip_scale_rev.induct)
  case (2 c cs k)
  show ?case
  proof (cases "0 < k \<and> c = CHR ''0''")
    case True
    then obtain z where "cs = replicate z CHR ''0'' @ r'" "k - 1 = k' + int z" "0 < z \<longrightarrow> 0 \<le> k'"
      "0 < k' \<longrightarrow> r' = [] \<or> hd r' \<noteq> CHR ''0''"
      using 2 by auto
    then show ?thesis using True by (intro exI [of _ "Suc z"]) auto
  next
    case False
    then show ?thesis using 2(2) by (intro exI [of _ 0]) auto
  qed
qed simp

lemma strip_scale_spec:
  assumes "strip_scale ds k = (ds', k')"
  obtains z where "ds = ds' @ replicate z CHR ''0''" "k = k' + int z" "0 < z \<Longrightarrow> 0 \<le> k'"
    "0 < k' \<Longrightarrow> ds' = [] \<or> last ds' \<noteq> CHR ''0''"
proof -
  obtain r' where r: "strip_scale_rev (rev ds) k = (r', k')" "ds' = rev r'"
    using assms by (auto simp: strip_scale_def split: prod.splits)
  obtain z where z: "rev ds = replicate z CHR ''0'' @ r'" "k = k' + int z" "0 < z \<longrightarrow> 0 \<le> k'"
    "0 < k' \<longrightarrow> r' = [] \<or> hd r' \<noteq> CHR ''0''"
    using strip_scale_rev_spec [OF r(1)] by blast
  have "ds = ds' @ replicate z CHR ''0''"
    using arg_cong [OF z(1), of rev] r(2) by simp
  then show ?thesis using that z r(2) by (simp add: last_rev)
qed

lemma decimal_of_digits_value:
  assumes "decimal_of_digits neg ds k = Inr d"
  shows "decimal_value d = (if neg then -1 else 1) * of_nat (number_of ds) * 10 powi (- k)"
    and "\<bar>d_scale d\<bar> \<le> max_decimal_scale" and "k < - max_decimal_scale \<Longrightarrow> False"
proof -
  obtain ds' k' where st: "strip_scale ds k = (ds', k')" by (cases "strip_scale ds k")
  obtain z where z: "ds = ds' @ replicate z CHR ''0''" "k = k' + int z" "0 < z \<Longrightarrow> 0 \<le> k'"
    using strip_scale_spec [OF st] by metis
  have d: "d = \<lparr>d_coefficient = (if neg then - int (number_of ds') else int (number_of ds')), d_scale = k'\<rparr>"
    "- max_decimal_scale \<le> k'" "k' \<le> max_decimal_scale"
    using assms by (auto simp: decimal_of_digits_def st split: if_splits)
  have "of_nat (number_of ds) * 10 powi (- k) = (of_nat (number_of ds') :: rat) * (10 powi int z * 10 powi (- k))"
    by (simp add: z(1) number_of_append power_int_of_nat)
  also have "(10::rat) powi int z * 10 powi (- k) = 10 powi (- k')"
    using power_int_add [of "10::rat" "int z" "- k"] z(2) by simp
  finally show "decimal_value d = (if neg then -1 else 1) * of_nat (number_of ds) * 10 powi (- k)"
    by (simp add: decimal_value_def d(1))
  show "\<bar>d_scale d\<bar> \<le> max_decimal_scale" using d by simp
  show "k < - max_decimal_scale \<Longrightarrow> False" using d z by (simp add: max_decimal_scale_def)
qed

lemma wrap64_id: "- (2 ^ 63) \<le> k \<Longrightarrow> k < 2 ^ 63 \<Longrightarrow> wrap64 k = k"
  by (simp add: wrap64_def)

lemma decimal_of_mantissa_value:
  assumes "decimal_of_mantissa neg u k = Inr d" "list_all is_digit u" "- (2 ^ 63) \<le> k" "k < 2 ^ 63 + 2 ^ 62"
  shows "decimal_value d = (if neg then -1 else 1) * of_nat (number_of u) * 10 powi (- k)"
    and "\<bar>d_scale d\<bar> \<le> max_decimal_scale"
proof -
  have zero: "number_of u = 0" if "trim_zeros u = []"
    using that by (metis trim_zeros_number number_of_Nil)
  have wrap: "wrap64 k = k" if "trim_zeros u \<noteq> []"
  proof (cases "k < 2 ^ 63")
    case False
    then have "(k - 2 ^ 63) mod 2 ^ 64 = k - 2 ^ 63" using assms(4) by (intro mod_pos_pos_trivial) simp_all
    then have "wrap64 k = k - 2 ^ 64"
      using mod_add_self2 [of "k - 2 ^ 63" "2 ^ 64"] by (simp add: wrap64_def add.commute)
    then have "wrap64 k < - max_decimal_scale" using assms(4) by (simp add: max_decimal_scale_def)
    moreover have "decimal_of_digits neg (trim_zeros u) (wrap64 k) = Inr d"
      using assms(1) that by (simp add: decimal_of_mantissa_def)
    ultimately show ?thesis using decimal_of_digits_value(3) by blast
  qed (use assms(3) in \<open>simp add: wrap64_id\<close>)
  show "decimal_value d = (if neg then -1 else 1) * of_nat (number_of u) * 10 powi (- k)"
    using assms(1) zero wrap decimal_of_digits_value(1) [of neg "trim_zeros u" k d]
    by (auto simp: decimal_of_mantissa_def decimal_value_def split: if_splits)
  show "\<bar>d_scale d\<bar> \<le> max_decimal_scale"
    using assms(1) decimal_of_digits_value(2)
    by (auto simp: decimal_of_mantissa_def max_decimal_scale_def split: if_splits)
qed

lemma decimal_denotes_iff: "match_decimal s \<longleftrightarrow> (\<exists>v. decimal_denotes s v)"
proof
  assume "match_decimal s"
  then obtain neg ip fp ex where s: "s = (if neg then ''-'' else []) @ point_text ip fp @ ex"
    "all_digits ip" "list_all is_digit fp" "exponent_part ex"
    by (rule match_decimal_cases)
  show "\<exists>v. decimal_denotes s v"
  proof (cases ex)
    case Nil
    then show ?thesis using s plain [of ip fp neg] by auto
  next
    case (Cons c t)
    then obtain x where "c \<in> set ''eE''" "read_int t = Some x" using s(4) by (auto simp: exponent_part_def)
    then show ?thesis using s Cons scaled [of ip fp c t x neg] by blast
  qed
next
  assume "\<exists>v. decimal_denotes s v"
  then obtain v where "decimal_denotes s v" ..
  then show "match_decimal s"
  proof cases
    case (plain ip fp neg)
    then show ?thesis using match_decimal_text [of ip fp "[]" neg] by (simp add: exponent_part_def)
  next
    case (scaled ip fp c t x neg)
    then show ?thesis using match_decimal_text [of ip fp "c # t" neg] by (auto simp: exponent_part_def)
  qed
qed

lemma parse_decimal_denotes:
  assumes "parse_decimal s = Inr d" "length s < 2 ^ 62"
  shows "decimal_denotes s (decimal_value d)" and "\<bar>d_scale d\<bar> \<le> max_decimal_scale"
proof -
  have "match_decimal s" using assms(1) by (auto simp: parse_decimal_def split: if_splits)
  then obtain neg ip fp ex where s: "s = (if neg then ''-'' else []) @ point_text ip fp @ ex"
    "all_digits ip" "list_all is_digit fp" "exponent_part ex"
    by (rule match_decimal_cases)
  have len: "length fp < 2 ^ 62" using assms(2) s(1) by (auto simp: point_text_def split: if_splits)
  have dg: "list_all is_digit (ip @ fp)" using s(2,3) by (simp add: all_digits_def)
  have pow: "(10::rat) powi (- int (length fp)) = 1 / 10 ^ length fp"
    by (simp add: power_int_minus power_int_of_nat field_simps)
  have "decimal_denotes s (decimal_value d) \<and> \<bar>d_scale d\<bar> \<le> max_decimal_scale"
  proof (cases ex)
    case Nil
    then have run: "decimal_of_mantissa neg (ip @ fp) (int (length fp)) = Inr d"
      using assms(1) parse_decimal_text [OF s(2-4), of neg] s(1) by simp
    have "decimal_value d = (if neg then -1 else 1) * of_nat (number_of (ip @ fp)) / 10 ^ length fp"
      using decimal_of_mantissa_value(1) [OF run dg] len pow by simp
    then show ?thesis
      using plain [OF s(2,3), of neg] s(1) Nil decimal_of_mantissa_value(2) [OF run dg] len by simp
  next
    case (Cons c t)
    then obtain x where x: "parse_int64 t = Some x" and run: "decimal_of_mantissa neg (ip @ fp) (int (length fp) - x) = Inr d"
      using assms(1) parse_decimal_text [OF s(2-4), of neg] s(1) by (auto split: option.splits)
    have rx: "read_int t = Some x" "- (2 ^ 63) \<le> x" "x < 2 ^ 63"
      using x by (auto simp: parse_int64_def split: option.splits if_splits)
    have "(10::rat) powi (- (int (length fp) - x)) = 1 / 10 ^ length fp * 10 powi x"
      using power_int_add [of "10::rat" "- int (length fp)" x] pow by simp
    then have "decimal_value d = (if neg then -1 else 1) * of_nat (number_of (ip @ fp)) / 10 ^ length fp * 10 powi x"
      using decimal_of_mantissa_value(1) [OF run dg] len rx by simp
    moreover have "c \<in> set ''eE''" using s(4) Cons by (auto simp: exponent_part_def)
    ultimately show ?thesis
      using scaled [OF s(2,3) _ rx(1), of c neg] s(1) Cons decimal_of_mantissa_value(2) [OF run dg] len rx by simp
  qed
  then show "decimal_denotes s (decimal_value d)" "\<bar>d_scale d\<bar> \<le> max_decimal_scale" by simp_all
qed

end
