(* ===== verification/UrlLaws.thy ===== *)
theory UrlLaws
  imports Scalars
begin

text \<open>
  Canonical URL paths and components: the text in which every escape is needed and in upper case,
  and the paths without dot segments, are fixed points of the normalisation.
\<close>

section \<open>Escapes\<close>

definition upper_hex :: "char \<Rightarrow> bool" where
  "upper_hex c \<longleftrightarrow> c \<in> set ''0123456789ABCDEF''"

text \<open>The texts whose escapes are canonical.\<close>

fun escaped :: "(char \<Rightarrow> bool) \<Rightarrow> string \<Rightarrow> bool" where
  "escaped plain [] = True"
| "escaped plain (c # s) =
     (if c \<noteq> CHR ''%'' then plain c \<and> escaped plain s
      else case s of
        a # b # rest \<Rightarrow>
          upper_hex a \<and> upper_hex b
          \<and> (case (hex_value a, hex_value b) of (Some x, Some y) \<Rightarrow> \<not> unreserved (char_of (16 * x + y)) | _ \<Rightarrow> False)
          \<and> escaped plain rest
      | _ \<Rightarrow> False)"

lemma upper_hex_value: "k < 16 \<Longrightarrow> upper_hex (''0123456789ABCDEF'' ! k) \<and> hex_value (''0123456789ABCDEF'' ! k) = Some k"
proof -
  assume "k < 16"
  moreover have "list_all (\<lambda>k. upper_hex (''0123456789ABCDEF'' ! k) \<and> hex_value (''0123456789ABCDEF'' ! k) = Some k) [0..<16]"
    by code_simp
  ultimately show ?thesis by (simp add: list_all_iff)
qed

lemma upper_hex_nth:
  assumes "upper_hex c" "hex_value c = Some k"
  shows "k < 16" "''0123456789ABCDEF'' ! k = c"
  using assms by (auto simp: upper_hex_def hex_value_def is_digit_def digit_value_def)

lemma high_nibble: "of_char c div 16 < (16::nat)"
proof -
  have "of_char c mod 256 < (256::nat)" by (rule mod_less_divisor) simp
  then show ?thesis by (simp add: less_mult_imp_div_less)
qed

lemma percent_not_plain: "\<not> unreserved CHR ''%''" "\<not> upper_hex CHR ''/''" "hex_value CHR ''/'' = None"
  by (simp_all add: unreserved_def ascii_letter_def upper_case_def is_digit_def upper_hex_def hex_value_def)

lemma escaped_percent_encode: "escaped plain (percent_encode c @ t) \<longleftrightarrow> \<not> unreserved c \<and> escaped plain t"
proof -
  have "of_char c div 16 < (16::nat)" by (rule high_nibble)
  then show ?thesis
    using upper_hex_value [of "of_char c div 16"] upper_hex_value [of "of_char c mod 16"]
    by (simp add: percent_encode_def)
qed

lemma normalize_percent_encode:
  assumes "\<not> unreserved c"
  shows "normalize_escapes plain (percent_encode c @ t) = res_bind (normalize_escapes plain t) (\<lambda>t. Inr (percent_encode c @ t))"
proof -
  have "of_char c div 16 < (16::nat)" by (rule high_nibble)
  then show ?thesis
    using upper_hex_value [of "of_char c div 16"] upper_hex_value [of "of_char c mod 16"] assms
    by (simp add: percent_encode_def Let_def)
qed

lemma normalize_escapes_escaped:
  assumes "\<And>c. unreserved c \<Longrightarrow> plain c" "normalize_escapes plain s = Inr t"
  shows "escaped plain t"
  using assms
proof (induction plain s arbitrary: t rule: normalize_escapes.induct)
  case (2 plain c s)
  show ?case
  proof (cases "c = CHR ''%''")
    case True
    then obtain a b rest x y u where s: "s = a # b # rest" "hex_value a = Some x" "hex_value b = Some y"
      "normalize_escapes plain rest = Inr u"
      "t = (if unreserved (char_of (16 * x + y)) then [char_of (16 * x + y)] else percent_encode (char_of (16 * x + y))) @ u"
      using 2(4) by (auto simp: Let_def split: list.splits option.splits)
    then have "escaped plain u" using 2(2) True 2(3) by fastforce
    moreover have "char_of (16 * x + y) \<noteq> CHR ''%''" if "unreserved (char_of (16 * x + y))"
      using that percent_not_plain(1) by metis
    ultimately show ?thesis using s(5) 2(3) by (simp add: escaped_percent_encode)
  next
    case False
    then obtain u where u: "normalize_escapes plain s = Inr u" "t = (if plain c then [c] else percent_encode c) @ u"
      using 2(4) by auto
    then have "escaped plain u" using 2(1) False 2(3) by blast
    then show ?thesis using u(2) False 2(3) [of c] by (auto simp: escaped_percent_encode)
  qed
qed simp

lemma escaped_normalize: "escaped plain t \<Longrightarrow> normalize_escapes plain t = Inr t"
proof (induction plain t rule: escaped.induct)
  case (2 plain c s)
  show ?case
  proof (cases "c = CHR ''%''")
    case True
    then obtain a b rest x y where s: "s = a # b # rest" "upper_hex a" "upper_hex b" "hex_value a = Some x" "hex_value b = Some y"
      "\<not> unreserved (char_of (16 * x + y))" "escaped plain rest"
      using 2(3) by (auto split: list.splits option.splits)
    have "x < 16" "y < 16" "''0123456789ABCDEF'' ! x = a" "''0123456789ABCDEF'' ! y = b"
      using upper_hex_nth s by blast+
    then have "percent_encode (char_of (16 * x + y)) = CHR ''%'' # a # b # []"
      by (simp add: percent_encode_def)
    moreover have "normalize_escapes plain rest = Inr rest" using 2(2) [OF _ s(1)] True s(7) by simp
    ultimately show ?thesis using True s by (simp add: Let_def)
  qed (use 2 in auto)
qed simp

lemma escaped_split: "plain CHR ''/'' \<Longrightarrow> escaped plain (a @ CHR ''/'' # b) \<longleftrightarrow> escaped plain a \<and> escaped plain b"
proof (induction plain a rule: escaped.induct)
  case (2 plain c s)
  show ?case
  proof (cases "c = CHR ''%''")
    case True
    show ?thesis
    proof (cases s)
      case (Cons x r)
      then show ?thesis using True 2 percent_not_plain by (cases r) auto
    qed (use True in \<open>auto simp: upper_hex_def split: list.splits\<close>)
  qed (use 2 in auto)
qed simp

lemma escaped_join: "plain CHR ''/'' \<Longrightarrow> escaped plain (join_with ''/'' ws) \<longleftrightarrow> list_all (escaped plain) ws"
  by (induction "''/''" ws rule: join_with.induct) (simp_all add: escaped_split)

section \<open>Dot segments\<close>

definition dotless :: "string \<Rightarrow> bool" where
  "dotless p \<longleftrightarrow> list_all (\<lambda>w. w \<noteq> ''.'' \<and> w \<noteq> ''..'') (split_on CHR ''/'' p)"

lemma url_steps_set:
  "set (foldl url_step out ws) \<subseteq> {w \<in> set out \<union> set ws. w \<in> set out \<or> w \<noteq> ''.'' \<and> w \<noteq> ''..''}"
proof (induction ws arbitrary: out)
  case (Cons w ws)
  have "set (url_step out w) \<subseteq> set out \<union> (if w = ''.'' \<or> w = ''..'' then {} else {w})"
    by (auto dest: list.set_sel(2) [rotated])
  then show ?case using Cons [of "url_step out w"] by (auto split: if_splits)
qed auto

lemma url_steps_dotless:
  "list_all (\<lambda>w. w \<noteq> ''.'' \<and> w \<noteq> ''..'') ws \<Longrightarrow> foldl url_step out ws = rev ws @ out"
  by (induction ws arbitrary: out) simp_all

lemma dotless_slash:
  "dotless (CHR ''/'' # p) \<longleftrightarrow> dotless p" "dotless (p @ ''/'') \<longleftrightarrow> dotless p"
proof -
  show "dotless (CHR ''/'' # p) \<longleftrightarrow> dotless p" by (simp add: dotless_def)
  have "split_on CHR ''/'' (p @ ''/'') = split_on CHR ''/'' p @ [[]]"
    by (induction p) (auto split: list.splits)
  then show "dotless (p @ ''/'') \<longleftrightarrow> dotless p" by (simp add: dotless_def)
qed

lemma dotless_join:
  assumes "list_all (\<lambda>w. w \<noteq> ''.'' \<and> w \<noteq> ''..'' \<and> CHR ''/'' \<notin> set w) ws"
  shows "dotless (join_with ''/'' ws)"
  using assms split_join_with [of ws "CHR ''/''"] by (cases "ws = []") (auto simp: dotless_def list_all_iff)

lemma dotless_clean: "dotless (clean_url_path rooted c)"
proof -
  have "dotless (join_with ''/'' (rev (foldl url_step [] (split_on CHR ''/'' c))))"
    using url_steps_set [of "[]" "split_on CHR ''/'' c"] split_on_no_sep [of _ "CHR ''/''" c]
    by (intro dotless_join) (auto simp: list_all_iff)
  moreover have "dotless ''/''" by (simp add: dotless_def)
  ultimately show ?thesis by (simp add: clean_url_path_def Let_def dotless_slash)
qed

lemma escaped_clean:
  assumes "escaped plain c" "plain CHR ''/''"
  shows "escaped plain (clean_url_path rooted c)"
proof -
  have "list_all (escaped plain) (split_on CHR ''/'' c)"
    using assms escaped_join [of plain "split_on CHR ''/'' c"] by simp
  then have "escaped plain (join_with ''/'' (rev (foldl url_step [] (split_on CHR ''/'' c))))"
    using url_steps_set [of "[]" "split_on CHR ''/'' c"] assms(2) by (auto simp: escaped_join list_all_iff)
  then show ?thesis
    using assms(2) escaped_split [of plain _ "[]"] by (simp add: clean_url_path_def Let_def)
qed

lemma clean_dotless:
  assumes "dotless p" "rooted \<longleftrightarrow> has_prefix p ''/''"
  shows "clean_url_path rooted p = p"
proof -
  have "join_with ''/'' (rev (foldl url_step [] (split_on CHR ''/'' p))) = p"
    using assms(1) by (simp add: dotless_def url_steps_dotless)
  moreover have "\<not> has_suffix p (CHR ''/'' # w)" if "w = ''.'' \<or> w = ''..''" for w
  proof
    assume "has_suffix p (CHR ''/'' # w)"
    then obtain t where "p = t @ CHR ''/'' # w" by (auto simp: has_suffix_iff)
    moreover have "split_on CHR ''/'' (t @ CHR ''/'' # w) = split_on CHR ''/'' t @ [w]"
      using that by (induction t) (auto split: list.splits)
    ultimately show False using assms(1) that by (auto simp: dotless_def)
  qed
  ultimately show ?thesis using assms(2) by (cases "p = []") (simp add: clean_url_path_def Let_def has_prefix_def has_suffix_def,
        simp add: clean_url_path_def Let_def)
qed

lemma canonical_path_stable:
  assumes "canonical_url_path s = Inr p"
  shows "dotless p" "canonical_url_path p = Inr p"
proof -
  have p: "dotless p \<and> escaped (\<lambda>_. True) p"
  proof (cases "s = []")
    case True
    then show ?thesis using assms by (simp add: canonical_url_path_def dotless_def)
  next
    case False
    then obtain c where c: "normalize_escapes (\<lambda>_. True) s = Inr c" "p = clean_url_path (has_prefix s ''/'') c"
      using assms by (auto simp: canonical_url_path_def)
    then show ?thesis using dotless_clean escaped_clean normalize_escapes_escaped [OF _ c(1)] by simp
  qed
  then show "dotless p" by simp
  show "canonical_url_path p = Inr p"
    using p clean_dotless escaped_normalize by (simp add: canonical_url_path_def)
qed

lemma component_byte: "unreserved c \<Longrightarrow> canonical_url_component_byte c"
  by (auto simp: unreserved_def canonical_url_component_byte_def)

lemma canonical_component_stable: "canonical_url_component s = Inr t \<Longrightarrow> canonical_url_component t = Inr t"
  unfolding canonical_url_component_def
  by (rule escaped_normalize, rule normalize_escapes_escaped) (rule component_byte)

section \<open>Relative paths\<close>

text \<open>
  What the paths rely on in the Unicode normalisation form NFC: only the empty text normalises to the
  empty text, only \<open>..\<close> to \<open>..\<close>, and no slash appears. (No character has a slash or a full stop in its canonical decomposition.)
\<close>

definition nfc_keeps_segments :: "(string \<Rightarrow> string) \<Rightarrow> bool" where
  "nfc_keeps_segments nfc \<longleftrightarrow>
     (\<forall>w. (nfc w = [] \<longrightarrow> w = []) \<and> (nfc w = ''..'' \<longrightarrow> w = ''..'') \<and> (CHR ''/'' \<notin> set w \<longrightarrow> CHR ''/'' \<notin> set (nfc w)))"

text \<open>A parent element that survives the cleaning of a relative path is at its front.\<close>

lemma clean_steps_parent:
  assumes "''..'' \<in> set out \<Longrightarrow> last out = ''..''" "[] \<notin> set out"
  shows "(''..'' \<in> set (foldl (clean_step False) out ws) \<longrightarrow> last (foldl (clean_step False) out ws) = ''..'')
    \<and> [] \<notin> set (foldl (clean_step False) out ws)"
  using assms
proof (induction ws arbitrary: out)
  case (Cons w ws)
  have "(''..'' \<in> set (clean_step False out w) \<longrightarrow> last (clean_step False out w) = ''..'') \<and> [] \<notin> set (clean_step False out w)"
    using Cons.prems by (cases out) (auto split: if_splits)
  then show ?case using Cons.IH [of "clean_step False out w"] by (simp del: clean_step.simps)
qed simp

lemma clean_steps_set: "set (foldl (clean_step rooted) out ws) \<subseteq> set out \<union> set ws"
proof (induction ws arbitrary: out)
  case (Cons w ws)
  have "set (clean_step rooted out w) \<subseteq> insert w (set out)" by (cases out) auto
  then show ?case using Cons [of "clean_step rooted out w"] by (auto simp del: clean_step.simps)
qed simp

lemma clean_relative_segments:
  assumes "path_clean s = s" "\<not> path_is_abs s" "s \<noteq> ''..''" "\<not> has_prefix s ''../''"
  shows "''..'' \<notin> set (split_on CHR ''/'' s)" "[] \<notin> set (split_on CHR ''/'' s)"
proof -
  let ?out = "foldl (clean_step False) [] (split_on CHR ''/'' s)"
  have "''..'' \<notin> set (split_on CHR ''/'' s) \<and> [] \<notin> set (split_on CHR ''/'' s)"
  proof (cases "join_with ''/'' (rev ?out) = []")
    case True
    then have "s = ''.''" using assms(1,2) by (simp add: path_clean_def)
    then show ?thesis by simp
  next
    case False
    then have s: "join_with ''/'' (rev ?out) = s" using assms(1,2) by (simp add: path_clean_def)
    have out: "?out \<noteq> []" using False by auto
    have "set ?out \<subseteq> set (split_on CHR ''/'' s)" using clean_steps_set [of False "[]"] by simp
    then have split: "split_on CHR ''/'' s = rev ?out"
      using out s split_join_with [of "rev ?out" "CHR ''/''"] split_on_no_sep [of _ "CHR ''/''" s] by fastforce
    have inv: "''..'' \<in> set ?out \<longrightarrow> last ?out = ''..''" "[] \<notin> set ?out"
      using clean_steps_parent [of "[]" "split_on CHR ''/'' s"] by simp_all
    have "''..'' \<notin> set ?out"
    proof
      assume "''..'' \<in> set ?out"
      then obtain r where "rev ?out = ''..'' # r" using inv(1) out by (metis hd_rev list.collapse rev_is_Nil_conv)
      then have "s = join_with ''/'' (''..'' # r)" using s by simp
      then show False using assms(3,4) by (cases r) (auto simp: has_prefix_def)
    qed
    then show ?thesis using split inv(2) by (metis set_rev)
  qed
  then show "''..'' \<notin> set (split_on CHR ''/'' s)" "[] \<notin> set (split_on CHR ''/'' s)" by simp_all
qed

lemma relative_path_segments:
  assumes "nfc_keeps_segments nfc" "parse_relative_path version nfc s = Inr p"
  shows "''..'' \<notin> set (split_on CHR ''/'' p)" "\<not> path_is_abs p" "p \<noteq> []"
proof -
  let ?ws = "split_on CHR ''/'' s"
  have p: "p = join_with ''/'' (map nfc ?ws)" and segs: "''..'' \<notin> set ?ws" "[] \<notin> set ?ws"
    using assms(2) clean_relative_segments [of s] by (auto simp: parse_relative_path_def split: if_splits)
  have split: "split_on CHR ''/'' p = map nfc ?ws"
    unfolding p using assms(1) split_on_no_sep [of _ "CHR ''/''" s]
    by (intro split_join_with) (auto simp: nfc_keeps_segments_def)
  have segs': "''..'' \<notin> set (map nfc ?ws)" "[] \<notin> set (map nfc ?ws)"
    using segs assms(1) by (auto simp: nfc_keeps_segments_def) (metis (no_types))+
  then show "''..'' \<notin> set (split_on CHR ''/'' p)" using split by simp
  show "\<not> path_is_abs p" using split segs'(2) by (cases p) (auto simp: path_is_abs_def has_prefix_def split: if_splits)
  show "p \<noteq> []" using split segs'(2) by auto
qed

end
