(* ===== verification/ScalarCodecs.thy ===== *)
theory ScalarCodecs
  imports ScalarLaws UrlLaws
begin

text \<open>
  The canonical texts of decimals and sizes, the stability of canonical URL components, and the
  properties of the scalars.
\<close>

section \<open>Decimals\<close>

definition canonical_decimal :: "decimal \<Rightarrow> bool" where
  "canonical_decimal d \<longleftrightarrow>
     0 \<le> d_scale d \<and> d_scale d \<le> max_decimal_scale \<and> int (length (digits (nat \<bar>d_coefficient d\<bar>))) \<le> max_decimal_scale
     \<and> (0 < d_scale d \<longrightarrow> d_coefficient d mod 10 \<noteq> 0)"

lemma last_digits: "last (digits n) = digit_char (n mod 10)"
  by (simp add: digits.simps [of n])

lemma last_digits_0: "last (digits n) = CHR ''0'' \<longleftrightarrow> n mod 10 = 0"
  by (simp add: last_digits digit_char_0_iff)

lemma digits_times_power: "0 < n \<Longrightarrow> digits (n * 10 ^ z) = digits n @ replicate z CHR ''0''"
proof (induction z)
  case (Suc z)
  have "0 < n * 10 ^ z" using Suc by simp
  then have "digits (10 * (n * 10 ^ z)) = digits (n * 10 ^ z) @ ''0''"
    by (subst digits.simps) simp
  then show ?case using Suc by (simp add: replicate_append_same mult.left_commute)
qed simp

lemma strip_scale_id: "k \<le> 0 \<or> ds = [] \<or> last ds \<noteq> CHR ''0'' \<Longrightarrow> strip_scale ds k = (ds, k)"
  by (cases ds rule: rev_cases) (auto simp: strip_scale_def)

lemma point_text_split:
  assumes "0 < k" "k < length ds"
  shows "point_text (take (length ds - k) ds) (drop (length ds - k) ds) = take (length ds - k) ds @ ''.'' @ drop (length ds - k) ds"
  using assms by (simp add: point_text_def)

lemma int_text_sign:
  "has_prefix (int_text i) ''-'' \<longleftrightarrow> i < 0" "trim_prefix (int_text i) ''-'' = digits (nat \<bar>i\<bar>)"
  by (auto simp: int_text_def digits_prefix trim_prefix_def)

lemma decimal_string_text:
  assumes "0 \<le> d_scale d"
  obtains ip fp where "decimal_string d = (if d_coefficient d < 0 then ''-'' else []) @ point_text ip fp"
    "ip @ fp = pad_digits (nat (d_scale d) + 1) (nat \<bar>d_coefficient d\<bar>)" "length fp = nat (d_scale d)" "all_digits ip"
    "list_all is_digit fp"
proof -
  let ?k = "nat (d_scale d)" and ?ds = "digits (nat \<bar>d_coefficient d\<bar>)"
  let ?p = "pad_digits (?k + 1) (nat \<bar>d_coefficient d\<bar>)"
  let ?ip = "take (length ?p - ?k) ?p" and ?fp = "drop (length ?p - ?k) ?p"
  have long: "?k < length ?p" by (simp add: pad_digits_def)
  have dg: "list_all is_digit ?p"
    using digits_digits [of "nat \<bar>d_coefficient d\<bar>"] by (auto simp: pad_digits_def list_all_iff)
  have p: "?p = (if length ?ds \<le> ?k then replicate (?k - length ?ds + 1) CHR ''0'' @ ?ds else ?ds)"
    by (auto simp: pad_digits_def Suc_diff_le)
  have "decimal_string d = (if d_coefficient d < 0 then ''-'' else []) @ point_text ?ip ?fp"
  proof (cases "d_scale d = 0")
    case True
    then show ?thesis
      using digits_eq_iff [of "nat \<bar>d_coefficient d\<bar>" 0]
      by (auto simp: decimal_string_def int_text_sign point_text_def pad_digits_def Let_def not_less_eq_eq Suc_le_eq)
  next
    case False
    then have "\<not> d_scale d < 0" "0 < ?k" using assms by simp_all
    with False show ?thesis
      unfolding decimal_string_def Let_def int_text_sign p [symmetric] point_text_split [OF \<open>0 < ?k\<close> long]
      by simp
  qed
  moreover have "all_digits ?ip" "list_all is_digit ?fp"
    using dg long by (auto simp: all_digits_def list_all_iff dest: in_set_takeD in_set_dropD)
  ultimately show ?thesis using that [of ?ip ?fp] long by simp
qed

lemma parse_decimal_string:
  assumes "canonical_decimal d"
  shows "parse_decimal (decimal_string d) = Inr d"
proof -
  let ?m = "nat \<bar>d_coefficient d\<bar>" and ?neg = "d_coefficient d < 0"
  note c = assms [unfolded canonical_decimal_def]
  obtain ip fp where t: "decimal_string d = (if ?neg then ''-'' else []) @ point_text ip fp"
    "ip @ fp = pad_digits (nat (d_scale d) + 1) ?m" "length fp = nat (d_scale d)" "all_digits ip" "list_all is_digit fp"
    using decimal_string_text c by blast
  have run: "parse_decimal (decimal_string d) = decimal_of_mantissa ?neg (pad_digits (nat (d_scale d) + 1) ?m) (d_scale d)"
    using parse_decimal_text [OF t(4,5), of "[]" ?neg] t(1-3) c by (simp add: exponent_part_def)
  have wrap: "wrap64 (d_scale d) = d_scale d" using c by (intro wrap64_id) (simp_all add: max_decimal_scale_def)
  show ?thesis
  proof (cases "?m = 0")
    case True
    then have "d_scale d = 0" using c by auto
    then show ?thesis using True run by (simp add: decimal_of_mantissa_def pad_digits_def trim_zeros_def)
  next
    case False
    have "last (digits ?m) \<noteq> CHR ''0''" if "0 < d_scale d"
      using c that by (simp add: last_digits_0 nat_mod_distrib [symmetric] dvd_eq_mod_eq_0 [symmetric])
    then have "strip_scale (digits ?m) (d_scale d) = (digits ?m, d_scale d)"
      using strip_scale_id [of "d_scale d" "digits ?m"] by fastforce
    then show ?thesis
      using False run c wrap
      by (simp add: decimal_of_mantissa_def pad_digits_def trim_zeros_digits_id decimal_of_digits_def)
  qed
qed

lemma mod_10_abs: "nat \<bar>i\<bar> mod 10 = 0 \<longleftrightarrow> i mod 10 = 0"
  using dvd_nat_abs_iff [of 10 i] by (simp add: dvd_eq_mod_eq_0)

lemma decimal_of_mantissa_canonical:
  assumes "decimal_of_mantissa neg u k = Inr d" "list_all is_digit u"
  shows "canonical_decimal d \<or> d_scale d < 0 \<and> d_coefficient d \<noteq> 0 \<and> wrap64 k < 0"
proof (cases "trim_zeros u = []")
  case True
  then show ?thesis using assms(1) by (auto simp: decimal_of_mantissa_def canonical_decimal_def max_decimal_scale_def)
next
  case False
  obtain ds k' where st: "strip_scale (trim_zeros u) (wrap64 k) = (ds, k')" by (cases "strip_scale (trim_zeros u) (wrap64 k)")
  obtain z where z: "trim_zeros u = ds @ replicate z CHR ''0''" "wrap64 k = k' + int z" "0 < z \<Longrightarrow> 0 \<le> k'"
    "0 < k' \<Longrightarrow> ds = [] \<or> last ds \<noteq> CHR ''0''"
    using strip_scale_spec [OF st] by metis
  have d: "d = \<lparr>d_coefficient = (if neg then - int (number_of ds) else int (number_of ds)), d_scale = k'\<rparr>"
    "k' \<le> max_decimal_scale" "int (length ds) \<le> max_decimal_scale"
    using assms(1) False st by (auto simp: decimal_of_mantissa_def decimal_of_digits_def split: if_splits)
  have ne: "ds \<noteq> []" using z(1) trim_zeros_hd [OF False] False by (cases z) auto
  have "all_digits ds" using trim_zeros_digits [OF assms(2)] z(1) ne by (simp add: all_digits_def)
  moreover have hd: "hd ds \<noteq> CHR ''0''" using trim_zeros_hd [OF False] z(1) ne by simp
  ultimately have dg: "digits (number_of ds) = ds" by (simp add: digits_number_of)
  have "number_of ds mod 10 \<noteq> 0" if "0 < k'"
    using z(4) [OF that] ne last_digits_0 [of "number_of ds"] dg by simp
  moreover have "nat \<bar>d_coefficient d\<bar> = number_of ds" using d(1) by simp
  moreover have "d_coefficient d \<noteq> 0" using d(1) dg hd digits_leading_zero [of "number_of ds"] by auto
  moreover have "wrap64 k < 0" if "\<not> 0 \<le> k'" using z(2,3) that by (cases z) auto
  ultimately show ?thesis
    using d dg mod_10_abs [of "d_coefficient d"] by (cases neg) (auto simp: canonical_decimal_def)
qed

lemma parse_decimal_canonical:
  assumes "parse_decimal s = Inr d"
  shows "canonical_decimal d \<or> d_scale d < 0 \<and> d_coefficient d \<noteq> 0"
proof -
  have "match_decimal s" using assms by (auto simp: parse_decimal_def split: if_splits)
  then obtain neg ip fp ex where s: "s = (if neg then ''-'' else []) @ point_text ip fp @ ex"
    "all_digits ip" "list_all is_digit fp" "exponent_part ex"
    by (rule match_decimal_cases)
  then obtain k where "decimal_of_mantissa neg (ip @ fp) k = Inr d"
    using assms parse_decimal_text [OF s(2-4), of neg] by (auto split: list.splits option.splits)
  then show ?thesis
    using decimal_of_mantissa_canonical [of neg "ip @ fp" k d] s(2,3) by (auto simp: all_digits_def)
qed

lemma decimal_string_large:
  assumes "d_scale d < 0" "d_coefficient d \<noteq> 0"
  shows "decimal_string d = decimal_string \<lparr>d_coefficient = d_coefficient d * 10 ^ nat (- d_scale d), d_scale = 0\<rparr>"
proof -
  let ?m = "nat \<bar>d_coefficient d\<bar>" and ?z = "nat (- d_scale d)"
  have "nat \<bar>d_coefficient d * 10 ^ ?z\<bar> = ?m * 10 ^ ?z" by (simp add: abs_mult nat_mult_distrib nat_power_eq)
  then have ds: "digits (nat \<bar>d_coefficient d * 10 ^ ?z\<bar>) = digits ?m @ replicate ?z CHR ''0''"
    using assms(2) by (simp add: digits_times_power)
  have neg: "d_coefficient d * 10 ^ ?z < 0 \<longleftrightarrow> d_coefficient d < 0" by (simp add: mult_less_0_iff)
  show ?thesis
    unfolding decimal_string_def Let_def int_text_sign decimal.select_convs ds neg using assms(1) by simp
qed

lemma parse_decimal_scale:
  assumes "parse_decimal s = Inr d"
  shows "\<bar>d_scale d\<bar> \<le> max_decimal_scale"
proof -
  obtain a b where e: "split_exponent (trim_prefix s ''-'') = Inr (a, b)"
    using assms by (auto simp: parse_decimal_def split: if_splits)
  obtain u k where "split_point a = (u, k)" by (cases "split_point a")
  then show ?thesis
    using assms e decimal_of_digits_value(2)
    by (auto simp: parse_decimal_def max_decimal_scale_def split: if_splits)
qed

lemma decimal_string_mantissa:
  obtains neg ip fp where "decimal_string d = (if neg then ''-'' else []) @ point_text ip fp" "all_digits ip" "list_all is_digit fp"
    "int (length fp) \<le> \<bar>d_scale d\<bar>"
proof (cases "0 \<le> d_scale d")
  case True
  then obtain ip fp where "decimal_string d = (if d_coefficient d < 0 then ''-'' else []) @ point_text ip fp" "all_digits ip"
    "list_all is_digit fp" "length fp = nat (d_scale d)"
    using decimal_string_text [OF True] by metis
  then show ?thesis using that [of "d_coefficient d < 0" ip fp] by simp
next
  case False
  let ?ds = "digits (nat \<bar>d_coefficient d\<bar>) @ replicate (nat (- d_scale d)) CHR ''0''"
  have "all_digits ?ds" using digits_digits [of "nat \<bar>d_coefficient d\<bar>"] by (auto simp: all_digits_def list_all_iff)
  moreover have "decimal_string d = (if d_coefficient d < 0 \<and> ?ds \<noteq> ''0'' then ''-'' else []) @ point_text ?ds []"
    using False by (simp add: decimal_string_def int_text_sign Let_def point_text_def)
  ultimately show ?thesis using that [of _ ?ds "[]"] by simp
qed

lemma unmarshal_decimal_canonical:
  assumes "unmarshal_decimal s = Inr d"
  shows "canonical_decimal d"
proof -
  have s: "parse_decimal s = Inr d" "decimal_string d = s"
    using assms by (auto simp: unmarshal_decimal_def split: sum.splits if_splits)
  obtain neg ip fp where t: "s = (if neg then ''-'' else []) @ point_text ip fp" "all_digits ip" "list_all is_digit fp"
    "int (length fp) \<le> \<bar>d_scale d\<bar>"
    using decimal_string_mantissa [of d] s(2) by metis
  have run: "decimal_of_mantissa neg (ip @ fp) (int (length fp)) = Inr d"
    using parse_decimal_text [OF t(2,3), of "[]" neg] s(1) t(1) by (simp add: exponent_part_def)
  have "wrap64 (int (length fp)) = int (length fp)"
    using parse_decimal_scale [OF s(1)] t(4) by (intro wrap64_id) (simp_all add: max_decimal_scale_def)
  then show ?thesis using t(2,3) decimal_of_mantissa_canonical [OF run] by (simp add: all_digits_def)
qed

interpretation decimal_codec: canonical_codec decimal_string unmarshal_decimal canonical_decimal
proof unfold_locales
  fix s d
  show "canonical_decimal d \<Longrightarrow> unmarshal_decimal (decimal_string d) = Inr d"
    by (simp add: unmarshal_decimal_def parse_decimal_string)
  show "unmarshal_decimal s = Inr d \<Longrightarrow> decimal_string d = s"
    by (auto simp: unmarshal_decimal_def split: sum.splits if_splits)
  show "unmarshal_decimal s = Inr d \<Longrightarrow> canonical_decimal d"
    by (rule unmarshal_decimal_canonical)
qed

lemma unmarshal_large_decimal:
  assumes "d_scale d < 0" "d_coefficient d \<noteq> 0"
    "max_decimal_scale < int (length (digits (nat \<bar>d_coefficient d\<bar>))) - d_scale d"
  shows "unmarshal_decimal (decimal_string d) = Inl (InvalidCanonicalDecimal (decimal_string d))"
proof -
  let ?m = "nat \<bar>d_coefficient d\<bar>"
  define ds where "ds = digits (?m * 10 ^ nat (- d_scale d))"
  have m: "0 < ?m" using assms(2) by simp
  have eq: "ds = digits ?m @ replicate (nat (- d_scale d)) CHR ''0''" unfolding ds_def by (rule digits_times_power [OF m])
  have "ds \<noteq> ''0''" using assms by (cases "digits ?m") (auto simp: eq Cons_eq_append_conv)
  then have "decimal_string d = (if d_coefficient d < 0 then ''-'' else []) @ point_text ds []"
    unfolding decimal_string_def Let_def int_text_sign eq [symmetric] using assms(1) by (simp add: point_text_def)
  then have "parse_decimal (decimal_string d) = decimal_of_mantissa (d_coefficient d < 0) ds 0"
    using parse_decimal_text [of ds "[]" "[]" "d_coefficient d < 0"] by (simp add: exponent_part_def ds_def)
  moreover have "trim_zeros ds = ds" using m unfolding ds_def by (simp add: trim_zeros_digits_id)
  moreover have "ds \<noteq> []" "max_decimal_scale < int (length ds)" using assms by (simp_all add: eq)
  ultimately show ?thesis
    by (simp add: unmarshal_decimal_def decimal_of_mantissa_def decimal_of_digits_def strip_scale_id wrap64_def)
qed

lemma unmarshal_shifted_decimal:
  assumes "d_scale d < 0" "d_coefficient d \<noteq> 0"
    "int (length (digits (nat \<bar>d_coefficient d\<bar>))) - d_scale d \<le> max_decimal_scale"
  shows "unmarshal_decimal (decimal_string d) = Inr \<lparr>d_coefficient = d_coefficient d * 10 ^ nat (- d_scale d), d_scale = 0\<rparr>"
proof -
  have "nat \<bar>d_coefficient d * 10 ^ nat (- d_scale d)\<bar> = nat \<bar>d_coefficient d\<bar> * 10 ^ nat (- d_scale d)"
    by (simp add: abs_mult nat_mult_distrib nat_power_eq)
  then have "canonical_decimal \<lparr>d_coefficient = d_coefficient d * 10 ^ nat (- d_scale d), d_scale = 0\<rparr>"
    using assms by (simp add: canonical_decimal_def digits_times_power max_decimal_scale_def)
  then show ?thesis
    unfolding decimal_string_large [OF assms(1,2)] by (rule decimal_codec.parse_print)
qed

lemma shifted_decimal_value:
  "d_scale d < 0 \<Longrightarrow> decimal_value \<lparr>d_coefficient = d_coefficient d * 10 ^ nat (- d_scale d), d_scale = 0\<rparr> = decimal_value d"
  by (simp add: decimal_value_def power_int_def)

section \<open>Sizes\<close>

text \<open>The sizes that have a JSON form: the digits of the number fit the decimal that reads them.\<close>

definition canonical_size :: "int \<Rightarrow> bool" where
  "canonical_size n \<longleftrightarrow> 0 \<le> n \<and> int (length (digits (nat n))) \<le> max_decimal_scale"

lemma has_suffix_rev: "has_suffix s p \<longleftrightarrow> has_prefix (rev s) (rev p)"
  by (metis has_suffix_iff has_prefix_iff rev_append rev_rev_ident)

lemma size_unit_bytes:
  assumes "is_digit (last s)" "s \<noteq> []"
  shows "find (\<lambda>(ending, _). has_suffix (s @ ''B'') ending) size_units = Some (''B'', 1)"
proof -
  obtain t c where s: "s = t @ [c]" using assms(2) by (metis rev_exhaust)
  then have "c \<notin> set ''ikMGT''" using assms(1) by (auto simp: is_digit_def)
  then show ?thesis by (simp add: s size_units_def has_suffix_rev)
qed

lemma unmarshal_size_text:
  assumes "0 \<le> n"
  shows "unmarshal_size (int_text n) = (if canonical_size n then Inr n else Inl (InvalidCanonicalSize (int_text n)))"
proof -
  have tx: "int_text n = digits (nat n)" using assms by (simp add: int_text_def)
  have "decimal_string \<lparr>d_coefficient = n, d_scale = 0\<rparr> = digits (nat n)"
    using assms by (simp add: decimal_string_def int_text_sign Let_def)
  then have ok: "parse_decimal (digits (nat n)) = Inr \<lparr>d_coefficient = n, d_scale = 0\<rparr>" if "canonical_size n"
    using parse_decimal_string [of "\<lparr>d_coefficient = n, d_scale = 0\<rparr>"] that assms
    by (simp add: canonical_decimal_def canonical_size_def max_decimal_scale_def)
  have big: "\<exists>e. parse_decimal (digits (nat n)) = Inl e" if "\<not> canonical_size n"
  proof -
    have "0 < nat n" using that assms by (cases "n = 0") (auto simp: canonical_size_def max_decimal_scale_def)
    then show ?thesis
      using that assms parse_decimal_text [of "digits (nat n)" "[]" "[]" False]
      by (simp add: exponent_part_def point_text_def decimal_of_mantissa_def trim_zeros_digits_id decimal_of_digits_def
          strip_scale_id wrap64_def canonical_size_def)
  qed
  have "trim_suffix (digits (nat n) @ ''B'') ''B'' = digits (nat n)" by (simp add: trim_suffix_def has_suffix_rev)
  then show ?thesis
    using ok big size_unit_bytes [of "digits (nat n)"] digits_prefix(2) [of "CHR ''-''" "nat n" "[]"]
    by (auto simp: unmarshal_size_def parse_size_def Let_def tx)
qed

lemma unmarshal_size_valid:
  assumes "unmarshal_size s = Inr n"
  shows "int_text n = s" "canonical_size n"
proof -
  show s: "int_text n = s" using assms by (auto simp: unmarshal_size_def split: sum.splits if_splits)
  have "0 \<le> n"
  proof (rule ccontr)
    assume "\<not> 0 \<le> n"
    then have t: "s = CHR ''-'' # digits (nat (- n))" using s by (simp add: int_text_def)
    have "trim_suffix (s @ ''B'') ''B'' = s" by (simp add: trim_suffix_def has_suffix_rev)
    then have "\<exists>e. parse_size (s @ ''B'') = Inl e"
      using size_unit_bytes [of s] t by (auto simp: parse_size_def Let_def split: sum.split)
    then show False using assms by (auto simp: unmarshal_size_def)
  qed
  then show "canonical_size n" using unmarshal_size_text [of n] assms s by (simp split: if_splits)
qed

interpretation size_codec: canonical_codec int_text unmarshal_size canonical_size
  using unmarshal_size_text unmarshal_size_valid by unfold_locales (auto simp: canonical_size_def)

section \<open>Properties\<close>

text \<open>The text of an integer is the only text that parses to it: \<open>ParseInt\<close> accepts exactly the canonical numerals.\<close>

lemma int_text_unique: "parse_int s = Inr i \<longleftrightarrow> s = int_text i"
  using int_codec.accepts_iff by simp

text \<open>
  C17. The JSON form of a duration: every duration prints to a text the decoder reads back, and the decoder
  accepts no other text for it.
\<close>

theorem duration_text_unique: "decode_json_duration s = Inr i \<longleftrightarrow> s = duration_string i"
  using duration_codec.accepts_iff by simp

text \<open>
  C18. The JSON form of a decimal: the decoder accepts exactly the texts printed for the canonical decimals (no
  trailing zero after the point, at most a million digits on either side) and gives back the decimal printed.
\<close>

theorem decimal_text_unique: "unmarshal_decimal s = Inr d \<longleftrightarrow> canonical_decimal d \<and> s = decimal_string d"
  by (rule decimal_codec.accepts_iff)

text \<open>The JSON form of a size: the decoder accepts exactly the numerals of the sizes of at most a million digits.\<close>

theorem size_text_unique: "unmarshal_size s = Inr n \<longleftrightarrow> canonical_size n \<and> s = int_text n"
  by (rule size_codec.accepts_iff)

lemma decimal_denotes_unique:
  assumes "decimal_denotes s v" "parse_decimal s = Inr d" "length s < 2 ^ 62"
  shows "v = decimal_value d"
  using assms(1)
proof cases
  case (plain ip fp neg)
  have "decimal_of_mantissa neg (ip @ fp) (int (length fp)) = Inr d"
    using assms(2) parse_decimal_text [OF plain(3,4), of "[]" neg] plain(1) by (simp add: exponent_part_def)
  moreover have "length fp < 2 ^ 62" using assms(3) plain(1) by (auto simp: point_text_def split: if_splits)
  moreover have "list_all is_digit (ip @ fp)" using plain by (simp add: all_digits_def)
  ultimately show ?thesis
    using decimal_of_mantissa_value(1) [of neg "ip @ fp" "int (length fp)" d] plain(2)
    by (simp add: power_int_minus power_int_of_nat divide_inverse)
next
  case (scaled ip fp c t x neg)
  have "exponent_part (c # t)" using scaled by (auto simp: exponent_part_def)
  then obtain y where y: "parse_int64 t = Some y" and run: "decimal_of_mantissa neg (ip @ fp) (int (length fp) - y) = Inr d"
    using assms(2) parse_decimal_text [OF scaled(3,4), of "c # t" neg] scaled(1) by (auto split: option.splits)
  have x: "y = x" "- (2 ^ 63) \<le> x" "x < 2 ^ 63"
    using y scaled(6) by (auto simp: parse_int64_def split: option.splits if_splits)
  have "length fp < 2 ^ 62" using assms(3) scaled(1) by (auto simp: point_text_def split: if_splits)
  moreover have "list_all is_digit (ip @ fp)" using scaled by (simp add: all_digits_def)
  ultimately have "decimal_value d = (if neg then -1 else 1) * of_nat (number_of (ip @ fp)) * 10 powi (x - int (length fp))"
    using decimal_of_mantissa_value(1) [OF run] x by simp
  then show ?thesis
    using power_int_add [of "10::rat" x "- int (length fp)"] scaled(2)
    by (simp add: power_int_minus power_int_of_nat divide_inverse)
qed

text \<open>
  C15. \<open>ParseDecimal\<close> is exact: the decimal it returns for a text is the number the text denotes, whatever the
  exponent does to the 64-bit scale, and it reports an invalid decimal exactly for the texts that denote no number.
\<close>

theorem parse_decimal_exact:
  assumes "length s < 2 ^ 62"
  shows "case parse_decimal s of
      Inr d \<Rightarrow> (\<forall>v. decimal_denotes s v \<longleftrightarrow> v = decimal_value d)
    | Inl e \<Rightarrow> e = InvalidDecimal s \<longleftrightarrow> (\<nexists>v. decimal_denotes s v)"
proof (cases "parse_decimal s")
  case (Inr d)
  then show ?thesis using parse_decimal_denotes(1) decimal_denotes_unique assms by auto
next
  case (Inl e)
  have "e \<noteq> InvalidDecimal s" if m: "match_decimal s"
  proof -
    obtain neg ip fp ex where s: "s = (if neg then ''-'' else []) @ point_text ip fp @ ex"
      "all_digits ip" "list_all is_digit fp" "exponent_part ex"
      using m by (rule match_decimal_cases)
    show ?thesis
      using Inl parse_decimal_text [OF s(2-4), of neg]
      by (auto simp: s(1) [symmetric] decimal_of_mantissa_def decimal_of_digits_def split: list.splits option.splits prod.splits if_splits)
  qed
  moreover have "e = InvalidDecimal s" if "\<not> match_decimal s" using Inl that by (auto simp: parse_decimal_def)
  ultimately show ?thesis using Inl decimal_denotes_iff by auto
qed

text \<open>
  A decimal that was parsed keeps its value through JSON, except the ones with more than a million digits before the
  point: these print to a text that the decoder refuses.
\<close>

theorem decimal_json_value:
  assumes "parse_decimal s = Inr d"
  shows "case unmarshal_decimal (decimal_string d) of
      Inr d' \<Rightarrow> decimal_value d' = decimal_value d
    | Inl _ \<Rightarrow> max_decimal_scale < int (length (digits (nat \<bar>d_coefficient d\<bar>))) - d_scale d"
proof (cases "canonical_decimal d")
  case True
  then show ?thesis using decimal_codec.parse_print by simp
next
  case False
  then have d: "d_scale d < 0" "d_coefficient d \<noteq> 0" using parse_decimal_canonical [OF assms] by simp_all
  show ?thesis
    using unmarshal_shifted_decimal [OF d] unmarshal_large_decimal [OF d] shifted_decimal_value [OF d(1)]
    by (cases "max_decimal_scale < int (length (digits (nat \<bar>d_coefficient d\<bar>))) - d_scale d") auto
qed

text \<open>
  The scale limit of the parser and the digit limit of the decoder disagree: \<open>1e1000000\<close> parses, and its JSON
  form does not decode.
\<close>

theorem decimal_accepted_but_unreadable:
  "\<exists>d. parse_decimal ''1e1000000'' = Inr d
     \<and> unmarshal_decimal (decimal_string d) = Inl (InvalidCanonicalDecimal (decimal_string d))"
proof -
  have "parse_int64 ''1000000'' = Some 1000000"
    by (simp add: parse_int64_def read_int_def number_of_def digit_value_def all_digits_def is_digit_def)
  then have "parse_decimal ''1e1000000'' = decimal_of_mantissa False ''1'' (- 1000000)"
    using parse_decimal_text [of "''1''" "[]" "''e1000000''" False]
    by (simp add: all_digits_def is_digit_def point_text_def exponent_part_def read_int_def)
  also have "\<dots> = Inr \<lparr>d_coefficient = 1, d_scale = -1000000\<rparr>"
    by (simp add: decimal_of_mantissa_def trim_zeros_def wrap64_def decimal_of_digits_def strip_scale_id max_decimal_scale_def
        number_of_def digit_value_def)
  finally have "parse_decimal ''1e1000000'' = Inr \<lparr>d_coefficient = 1, d_scale = -1000000\<rparr>" .
  moreover have "digits 1 = ''1''" by code_simp
  ultimately show ?thesis
    using unmarshal_large_decimal [of "\<lparr>d_coefficient = 1, d_scale = -1000000\<rparr>"] by (simp add: max_decimal_scale_def)
qed

text \<open>
  C22. A canonical URL path has no \<open>.\<close> and no \<open>..\<close> segment, also none that was written with escapes, and
  is its own canonical form.
\<close>

theorem canonical_url_path_normal:
  assumes "canonical_url_path s = Inr p"
  shows "canonical_url_path p = Inr p \<and> ''.'' \<notin> set (split_on CHR ''/'' p) \<and> ''..'' \<notin> set (split_on CHR ''/'' p)"
  using canonical_path_stable [OF assms] by (auto simp: dotless_def list_all_iff)

text \<open>A canonical query or fragment is its own canonical form.\<close>

theorem canonical_url_component_normal:
  assumes "canonical_url_component s = Inr t"
  shows "canonical_url_component t = Inr t"
  using assms by (rule canonical_component_stable)

text \<open>C25. A relative path that is accepted stays below its root: it is not absolute and has no \<open>..\<close> element.\<close>

theorem relative_path_confined:
  assumes "nfc_keeps_segments nfc" "parse_relative_path version nfc s = Inr p"
  shows "\<not> path_is_abs p \<and> ''..'' \<notin> set (split_on CHR ''/'' p)"
  using relative_path_segments [OF assms] by simp

section \<open>Examples\<close>

theorem parse_decimal_exact_example:
  "parse_decimal ''-12.50e1'' = Inr \<lparr>d_coefficient = - 125, d_scale = 0\<rparr> \<and> decimal_denotes ''-12.50e1'' (- 125)"
proof -
  have "parse_decimal ''-12.50e1'' = Inr \<lparr>d_coefficient = - 125, d_scale = 0\<rparr>" by code_simp
  then show ?thesis using parse_decimal_exact [of "''-12.50e1''"] by (simp add: decimal_value_def)
qed

theorem decimal_json_value_example:
  "parse_decimal ''15e2'' = Inr \<lparr>d_coefficient = 15, d_scale = -2\<rparr>
    \<and> unmarshal_decimal (decimal_string \<lparr>d_coefficient = 15, d_scale = -2\<rparr>) = Inr \<lparr>d_coefficient = 1500, d_scale = 0\<rparr>
    \<and> decimal_value \<lparr>d_coefficient = 1500, d_scale = 0\<rparr> = decimal_value \<lparr>d_coefficient = 15, d_scale = -2\<rparr>"
proof -
  have p: "parse_decimal ''15e2'' = Inr \<lparr>d_coefficient = 15, d_scale = -2\<rparr>" by code_simp
  have u: "unmarshal_decimal (decimal_string \<lparr>d_coefficient = 15, d_scale = -2\<rparr>) = Inr \<lparr>d_coefficient = 1500, d_scale = 0\<rparr>"
    by code_simp
  show ?thesis using decimal_json_value [OF p] p u by simp
qed

theorem canonical_url_path_normal_example:
  "canonical_url_path ''/a/%2e%2E/b%2f/.'' = Inr ''/b%2F/'' \<and> canonical_url_path ''/b%2F/'' = Inr ''/b%2F/''"
proof -
  have p: "canonical_url_path ''/a/%2e%2E/b%2f/.'' = Inr ''/b%2F/''" by code_simp
  show ?thesis using canonical_url_path_normal [OF p] p by simp
qed

theorem canonical_url_component_normal_example:
  "canonical_url_component ''a b%7e%3c'' = Inr ''a%20b~%3C'' \<and> canonical_url_component ''a%20b~%3C'' = Inr ''a%20b~%3C''"
proof -
  have p: "canonical_url_component ''a b%7e%3c'' = Inr ''a%20b~%3C''" by code_simp
  show ?thesis using canonical_url_component_normal [OF p] p by simp
qed

theorem relative_path_confined_example:
  "parse_relative_path ''17.0.0'' (\<lambda>w. w) ''a/b.txt'' = Inr ''a/b.txt'' \<and> \<not> path_is_abs ''a/b.txt''"
proof -
  have p: "parse_relative_path ''17.0.0'' (\<lambda>w. w) ''a/b.txt'' = Inr ''a/b.txt''" by code_simp
  show ?thesis using relative_path_confined [OF _ p] p by (simp add: nfc_keeps_segments_def)
qed

end
