(* ===== verification/AuthExpr.thy ===== *)
theory AuthExpr
  imports Scalars Complex_Main
begin

text \<open>
  Authorization expressions (\<open>src/internal/contractpolicy/expression.go\<close>): the lexer, the recursive
  descent parser that evaluates while it parses, and the comparison of dynamically typed values. A Go
  value of type \<open>any\<close> is a \<open>gval\<close> tagged with its dynamic type; a parser state is the current token and the text the
  lexer has not read. The parser recurses over the text it has not read, so the definitions take fuel;
  \<open>AuthLaws\<close> shows that the fuel given is always enough.
\<close>

datatype gval =
    VNil
  | VBool bool
  | VString string
  | VRat rat
  | VJsonNumber string
  | VInt int
  | VInt64 int
  | VUint64 int
  | VFloat64 rat
  | VSlice string "gval list"
  | VMap "(string \<times> gval) list"
  | VUnknown

datatype auth_error =
    InvalidString
  | UnterminatedString
  | InvalidNumber string
  | RequiresDouble char
  | UnsupportedToken char
  | NotBool
  | EmptyExpression
  | UnexpectedToken string
  | NotRequiresBool
  | UnclosedParentheses
  | ExpectedValue string
  | UnsupportedFunction string
  | ContainsArguments
  | ContainsList
  | ContainsTypes
  | ListComma
  | LogicalOperands
  | EqualityOperands
  | NotComparable
  | OrderingOperands
  | VariablePath string
  | RootUnavailable string
  | PathNotObject string
  | PathUnavailable string
  | OutOfFuel

section \<open>Numbers and quoted strings\<close>

text \<open>
  \<open>big.Rat.SetString\<close> on decimal texts: an optional sign, digits with at most one point, and an
  exponent; exponents beyond a million are refused.
\<close>

definition rat_of_text :: "string \<Rightarrow> rat option" where
  "rat_of_text s =
     (let signed = (s \<noteq> [] \<and> hd s \<in> set ''+-'');
          u = (if signed then tl s else s);
          ip = takeWhile is_digit u;
          r1 = dropWhile is_digit u;
          dot = (r1 \<noteq> [] \<and> hd r1 = CHR ''.'');
          fp = (if dot then takeWhile is_digit (tl r1) else []);
          r2 = (if dot then dropWhile is_digit (tl r1) else r1);
          n = (if signed \<and> hd s = CHR ''-'' then - int (number_of (ip @ fp)) else int (number_of (ip @ fp)))
      in if ip = [] \<and> fp = [] then None
         else
           (case (case r2 of [] \<Rightarrow> Some 0 | c # t \<Rightarrow> if c \<in> set ''eE'' then parse_int64 t else None) of
              None \<Rightarrow> None
            | Some x \<Rightarrow>
                (let k = x - int (length fp) in
                 if n = 0 then Some 0
                 else if 1000000 < \<bar>k\<bar> then None
                 else Some (if 0 \<le> k then of_int (n * 10 ^ nat k) else of_int n / of_int (10 ^ nat (- k))))))"

text \<open>The size of the multi-byte UTF-8 sequence at the front of a text, 0 if it is not valid.\<close>

fun utf8_front :: "string \<Rightarrow> nat" where
  "utf8_front (a # b # s) =
     (if byte_in 0xC2 0xDF a then (if byte_in 0x80 0xBF b then 2 else 0)
      else case s of
        [] \<Rightarrow> 0
      | c # s2 \<Rightarrow>
          if byte_in 0xE0 0xEF a
          then (if (if a = CHR 0xE0 then byte_in 0xA0 0xBF b else if a = CHR 0xED then byte_in 0x80 0x9F b else byte_in 0x80 0xBF b)
                \<and> byte_in 0x80 0xBF c then 3 else 0)
          else case s2 of
            [] \<Rightarrow> 0
          | d # s3 \<Rightarrow>
              if byte_in 0xF0 0xF4 a
                \<and> (if a = CHR 0xF0 then byte_in 0x90 0xBF b else if a = CHR 0xF4 then byte_in 0x80 0x8F b else byte_in 0x80 0xBF b)
                \<and> byte_in 0x80 0xBF c \<and> byte_in 0x80 0xBF d
              then 4 else 0)"
| "utf8_front s = 0"

definition utf8_encode :: "nat \<Rightarrow> string" where
  "utf8_encode v =
     (if v < 0x80 then [char_of v]
      else if v < 0x800 then [char_of (0xC0 + v div 64), char_of (0x80 + v mod 64)]
      else if v < 0x10000 then [char_of (0xE0 + v div 4096), char_of (0x80 + v div 64 mod 64), char_of (0x80 + v mod 64)]
      else [char_of (0xF0 + v div 262144), char_of (0x80 + v div 4096 mod 64), char_of (0x80 + v div 64 mod 64),
            char_of (0x80 + v mod 64)])"

definition hex_number :: "string \<Rightarrow> nat option" where
  "hex_number s =
     (if list_all (\<lambda>c. hex_value c \<noteq> None) s then Some (foldl (\<lambda>v c. 16 * v + the (hex_value c)) 0 s) else None)"

definition octal_digit :: "char \<Rightarrow> bool" where
  "octal_digit c \<longleftrightarrow> c \<in> set ''01234567''"

text \<open>The escape after a backslash in \<open>strconv.UnquoteChar\<close>: the bytes it stands for and the text after it.\<close>

definition unquote_escape :: "string \<Rightarrow> (string \<times> string) option" where
  "unquote_escape s =
     (case s of
        [] \<Rightarrow> None
      | c # t \<Rightarrow>
          if c \<in> set ''abfnrtv'' then
            Some ([char_of (the (map_of [(CHR ''a'', 7), (CHR ''b'', 8), (CHR ''f'', 12), (CHR ''n'', 10), (CHR ''r'', 13),
              (CHR ''t'', 9), (CHR ''v'', 11::nat)] c))], t)
          else if c = CHR 0x5C \<or> c = CHR 0x22 then Some ([c], t)
          else if c \<in> set ''xuU'' then
            (let n = (if c = CHR ''x'' then 2 else if c = CHR ''u'' then 4 else 8) in
             if length t < n then None
             else case hex_number (take n t) of
               None \<Rightarrow> None
             | Some v \<Rightarrow>
                 if c = CHR ''x'' then Some ([char_of v], drop n t)
                 else if 0x10FFFF < v \<or> (0xD800 \<le> v \<and> v \<le> 0xDFFF) then None
                 else Some (utf8_encode v, drop n t))
          else if octal_digit c \<and> 2 \<le> length t \<and> octal_digit (t ! 0) \<and> octal_digit (t ! 1) then
            (let v = 64 * digit_value c + 8 * digit_value (t ! 0) + digit_value (t ! 1) in
             if 255 < v then None else Some ([char_of v], drop 2 t))
          else None)"

lemma unquote_escape_shorter: "unquote_escape s = Some (b, r) \<Longrightarrow> length r < length s"
  by (auto simp: unquote_escape_def Let_def split: list.splits if_splits option.splits)

text \<open>
  \<open>strconv.Unquote\<close> after the opening quote: the text up to the closing quote, which must be the last
  character. A byte that is not valid UTF-8 becomes the encoding of U+FFFD.
\<close>

function unquote_body :: "string \<Rightarrow> string option" where
  "unquote_body s =
     (case s of
        [] \<Rightarrow> None
      | c # t \<Rightarrow>
          if c = CHR 0x22 then (if t = [] then Some [] else None)
          else if c = CHR 0x0A then None
          else if \<not> byte_in 0 0x7F c then
            (if utf8_front s = 0 then map_option ((@) [CHR 0xEF, CHR 0xBF, CHR 0xBD]) (unquote_body t)
             else map_option ((@) (take (utf8_front s) s)) (unquote_body (drop (utf8_front s) s)))
          else if c \<noteq> CHR 0x5C then map_option ((#) c) (unquote_body t)
          else (case unquote_escape t of None \<Rightarrow> None | Some (b, r) \<Rightarrow> map_option ((@) b) (unquote_body r)))"
  by pat_completeness auto
termination
  by (relation "measure length") (auto dest!: unquote_escape_shorter)

definition unquote :: "string \<Rightarrow> string option" where
  "unquote s = (case s of [] \<Rightarrow> None | c # t \<Rightarrow> if c = CHR 0x22 then unquote_body t else None)"

declare unquote_body.simps [simp del]

section \<open>Lexer\<close>

datatype auth_kind =
    AEof | AIdentifier | AString | ANumber | ALParen | ARParen | ALBracket | ARBracket | AComma | ANot
  | AEqual | ANotEqual | ALess | ALessEqual | AGreater | AGreaterEqual | AAnd | AOr

record auth_token =
  tok_kind :: auth_kind
  tok_text :: string

text \<open>\<open>unicode.IsSpace\<close> on a byte.\<close>

definition space_byte :: "char \<Rightarrow> bool" where
  "space_byte c \<longleftrightarrow> byte_in 9 13 c \<or> c \<in> set [CHR 0x20, CHR 0x85, CHR 0xA0]"

definition identifier_start :: "char \<Rightarrow> bool" where
  "identifier_start c \<longleftrightarrow> ascii_letter c \<or> c = CHR ''_''"

definition identifier_continue :: "char \<Rightarrow> bool" where
  "identifier_continue c \<longleftrightarrow> identifier_start c \<or> is_digit c \<or> c = CHR ''.''"

text \<open>The text of a quoted string after its opening quote, up to the first quote that is not escaped.\<close>

fun scan_string :: "bool \<Rightarrow> string \<Rightarrow> (string \<times> string) option" where
  "scan_string escaped [] = None"
| "scan_string escaped (c # s) =
     (if c = CHR 0x22 \<and> \<not> escaped then Some ([c], s)
      else map_option (\<lambda>(t, r). (c # t, r)) (scan_string (c = CHR 0x5C \<and> \<not> escaped) s))"

definition consume :: "char \<Rightarrow> string \<Rightarrow> string option" where
  "consume c s = (case s of [] \<Rightarrow> None | x # t \<Rightarrow> if x = c then Some t else None)"

definition pair_token :: "char \<Rightarrow> string \<Rightarrow> auth_kind \<Rightarrow> auth_error + auth_kind \<Rightarrow> char \<Rightarrow> auth_error + auth_token \<times> string" where
  "pair_token c s double_kind single second =
     (case consume second s of
        Some t \<Rightarrow> Inr (\<lparr>tok_kind = double_kind, tok_text = [c, second]\<rparr>, t)
      | None \<Rightarrow> (case single of Inl e \<Rightarrow> Inl e | Inr k \<Rightarrow> Inr (\<lparr>tok_kind = k, tok_text = [c]\<rparr>, s)))"

definition symbol_token :: "char \<Rightarrow> string \<Rightarrow> auth_error + auth_token \<times> string" where
  "symbol_token c s =
     (case map_of [(CHR ''('', ALParen), (CHR '')'', ARParen), (CHR ''['', ALBracket), (CHR '']'', ARBracket), (CHR '','', AComma)] c of
        Some k \<Rightarrow> Inr (\<lparr>tok_kind = k, tok_text = [c]\<rparr>, s)
      | None \<Rightarrow>
          if c = CHR ''!'' then pair_token c s ANotEqual (Inr ANot) CHR ''=''
          else if c = CHR ''='' then pair_token c s AEqual (Inl (RequiresDouble c)) CHR ''=''
          else if c = CHR ''<'' then pair_token c s ALessEqual (Inr ALess) CHR ''=''
          else if c = CHR ''>'' then pair_token c s AGreaterEqual (Inr AGreater) CHR ''=''
          else if c = CHR ''&'' then pair_token c s AAnd (Inl (RequiresDouble c)) c
          else if c = CHR ''|'' then pair_token c s AOr (Inl (RequiresDouble c)) c
          else Inl (UnsupportedToken c))"

definition next_token :: "string \<Rightarrow> auth_error + auth_token \<times> string" where
  "next_token source =
     (case dropWhile space_byte source of
        [] \<Rightarrow> Inr (\<lparr>tok_kind = AEof, tok_text = []\<rparr>, [])
      | c # s \<Rightarrow>
          if c = CHR 0x22 then
            (case scan_string False s of
               None \<Rightarrow> Inl UnterminatedString
             | Some (t, r) \<Rightarrow>
                 if unquote (c # t) = None then Inl InvalidString
                 else Inr (\<lparr>tok_kind = AString, tok_text = c # t\<rparr>, r))
          else if identifier_start c then
            Inr (\<lparr>tok_kind = AIdentifier, tok_text = c # takeWhile identifier_continue s\<rparr>, dropWhile identifier_continue s)
          else if is_digit c \<or> (c = CHR ''-'' \<and> s \<noteq> [] \<and> is_digit (hd s)) then
            (let inside = (\<lambda>x. is_digit x \<or> x \<in> set ''.eE+-''); t = c # takeWhile inside s in
             if rat_of_text t = None then Inl (InvalidNumber t)
             else Inr (\<lparr>tok_kind = ANumber, tok_text = t\<rparr>, dropWhile inside s))
          else symbol_token c s)"

section \<open>Values\<close>

definition number_value :: "gval \<Rightarrow> rat option" where
  "number_value v =
     (case v of
        VRat r \<Rightarrow> Some r
      | VJsonNumber t \<Rightarrow> rat_of_text t
      | VInt i \<Rightarrow> Some (of_int i)
      | VInt64 i \<Rightarrow> Some (of_int i)
      | VUint64 i \<Rightarrow> Some (of_int i)
      | VFloat64 r \<Rightarrow> Some r
      | _ \<Rightarrow> None)"

text \<open>\<open>reflect.TypeOf\<close>\<close>

definition type_of :: "gval \<Rightarrow> string" where
  "type_of v =
     (case v of
        VNil \<Rightarrow> []
      | VBool _ \<Rightarrow> ''bool''
      | VString _ \<Rightarrow> ''string''
      | VRat _ \<Rightarrow> ''*big.Rat''
      | VJsonNumber _ \<Rightarrow> ''json.Number''
      | VInt _ \<Rightarrow> ''int''
      | VInt64 _ \<Rightarrow> ''int64''
      | VUint64 _ \<Rightarrow> ''uint64''
      | VFloat64 _ \<Rightarrow> ''float64''
      | VSlice t _ \<Rightarrow> ''[]'' @ t
      | VMap _ \<Rightarrow> ''map[string]interface {}''
      | VUnknown \<Rightarrow> ''authorizationUnknown'')"

text \<open>\<open>reflect.DeepEqual\<close>; the keys of a map are distinct.\<close>

fun deep_equal :: "gval \<Rightarrow> gval \<Rightarrow> bool" and deep_equal_list :: "gval list \<Rightarrow> gval list \<Rightarrow> bool"
  and deep_equal_map :: "(string \<times> gval) list \<Rightarrow> (string \<times> gval) list \<Rightarrow> bool" where
  "deep_equal (VSlice t xs) v = (case v of VSlice u ys \<Rightarrow> t = u \<and> deep_equal_list xs ys | _ \<Rightarrow> False)"
| "deep_equal (VMap m) v = (case v of VMap n \<Rightarrow> length m = length n \<and> deep_equal_map m n | _ \<Rightarrow> False)"
| "deep_equal a v = (a = v)"
| "deep_equal_list [] ys = (ys = [])"
| "deep_equal_list (x # xs) ys = (case ys of [] \<Rightarrow> False | y # ys \<Rightarrow> deep_equal x y \<and> deep_equal_list xs ys)"
| "deep_equal_map [] n = True"
| "deep_equal_map ((k, x) # m) n = ((case map_of n k of None \<Rightarrow> False | Some y \<Rightarrow> deep_equal x y) \<and> deep_equal_map m n)"

definition equal_values :: "gval \<Rightarrow> gval \<Rightarrow> bool \<times> bool" where
  "equal_values left right =
     (case (number_value left, number_value right) of
        (Some a, Some b) \<Rightarrow> (a = b, True)
      | _ \<Rightarrow>
          if left = VNil \<or> right = VNil then (left = VNil \<and> right = VNil, True)
          else if type_of left \<noteq> type_of right then (False, False)
          else (deep_equal left right, True))"

text \<open>\<open>strings.Compare\<close>\<close>

fun compare_bytes :: "string \<Rightarrow> string \<Rightarrow> int" where
  "compare_bytes [] [] = 0"
| "compare_bytes [] (d # t) = - 1"
| "compare_bytes (c # s) [] = 1"
| "compare_bytes (c # s) (d # t) =
     (if c = d then compare_bytes s t else if (of_char c :: nat) < of_char d then - 1 else 1)"

definition auth_order :: "gval \<Rightarrow> gval \<Rightarrow> auth_error + int" where
  "auth_order left right =
     (case (number_value left, number_value right) of
        (Some a, Some b) \<Rightarrow> Inr (if a < b then - 1 else if a = b then 0 else 1)
      | _ \<Rightarrow> (case (left, right) of (VString a, VString b) \<Rightarrow> Inr (compare_bytes a b) | _ \<Rightarrow> Inl OrderingOperands))"

definition comparison_operator :: "auth_kind \<Rightarrow> bool" where
  "comparison_operator k \<longleftrightarrow> k \<in> {AEqual, ANotEqual, ALess, ALessEqual, AGreater, AGreaterEqual}"

definition auth_compare :: "gval \<Rightarrow> gval \<Rightarrow> auth_kind \<Rightarrow> auth_error + gval" where
  "auth_compare left right operator =
     (if left = VUnknown \<or> right = VUnknown then Inr VUnknown
      else case equal_values left right of
        (equal, comparable) \<Rightarrow>
          if operator = AEqual \<or> operator = ANotEqual then
            (if \<not> comparable then Inl EqualityOperands else Inr (VBool (if operator = AEqual then equal else \<not> equal)))
          else if \<not> comparable then Inl NotComparable
          else res_bind (auth_order left right) (\<lambda>comparison.
            if operator = ALess then Inr (VBool (comparison < 0))
            else if operator = ALessEqual then Inr (VBool (comparison \<le> 0))
            else if operator = AGreater then Inr (VBool (0 < comparison))
            else Inr (VBool (0 \<le> comparison))))"

definition auth_logical :: "gval \<Rightarrow> gval \<Rightarrow> bool \<Rightarrow> auth_error + gval" where
  "auth_logical left right both =
     (if left = VUnknown \<or> right = VUnknown then Inr VUnknown
      else case (left, right) of
        (VBool a, VBool b) \<Rightarrow> Inr (VBool (if both then a \<and> b else a \<or> b))
      | _ \<Rightarrow> Inl LogicalOperands)"

fun contains_loop :: "gval list \<Rightarrow> gval \<Rightarrow> auth_error + gval" where
  "contains_loop [] needle = Inr (VBool False)"
| "contains_loop (x # xs) needle =
     (case equal_values x needle of
        (equal, comparable) \<Rightarrow>
          if \<not> comparable then Inl ContainsTypes else if equal then Inr (VBool True) else contains_loop xs needle)"

definition auth_contains :: "gval \<Rightarrow> gval \<Rightarrow> auth_error + gval" where
  "auth_contains collection needle =
     (case collection of
        VUnknown \<Rightarrow> Inr VUnknown
      | VSlice _ xs \<Rightarrow> contains_loop xs needle
      | _ \<Rightarrow> Inl ContainsList)"

fun resolve_parts :: "string \<Rightarrow> string list \<Rightarrow> gval \<Rightarrow> auth_error + gval" where
  "resolve_parts path [] current = Inr current"
| "resolve_parts path (p # ps) current =
     (case current of
        VMap object \<Rightarrow> (case map_of object p of None \<Rightarrow> Inl (PathUnavailable path) | Some v \<Rightarrow> resolve_parts path ps v)
      | _ \<Rightarrow> Inl (PathNotObject path))"

definition resolve_variable :: "(string \<times> gval) list \<Rightarrow> string \<Rightarrow> auth_error + gval" where
  "resolve_variable variables path =
     (case split_on CHR ''.'' path of
        r # p # ps \<Rightarrow>
          (case map_of variables r of None \<Rightarrow> Inl (RootUnavailable r) | Some v \<Rightarrow> resolve_parts path (p # ps) v)
      | _ \<Rightarrow> Inl (VariablePath path))"

section \<open>Parser\<close>

text \<open>
  A parser returns a value and the state after it, or an error with the value that the Go function
  returns beside it: \<open>parseUnary\<close> looks at that value.
\<close>

type_synonym auth_state = "auth_token \<times> string"
type_synonym auth_fail = "auth_error \<times> gval"
type_synonym auth_result = "auth_fail + gval \<times> auth_state"

record auth_context =
  cx_variables :: "(string \<times> gval) list"
  cx_validate_only :: bool

definition failed :: "auth_error \<Rightarrow> auth_fail + 'a" where
  "failed e = Inl (e, VNil)"

definition kind :: "auth_state \<Rightarrow> auth_kind" where
  "kind st = tok_kind (fst st)"

definition beside :: "gval \<Rightarrow> auth_error + 'a \<Rightarrow> auth_fail + 'a" where
  "beside v r = (case r of Inl e \<Rightarrow> Inl (e, v) | Inr x \<Rightarrow> Inr x)"

definition advance :: "gval \<Rightarrow> auth_state \<Rightarrow> auth_fail + auth_state" where
  "advance v st = beside v (next_token (snd st))"

text \<open>\<open>_ = parser.advance()\<close>: after an error the current token is still the operator, which no operand starts with.\<close>

definition advance_ignoring :: "auth_state \<Rightarrow> auth_state" where
  "advance_ignoring st = (case next_token (snd st) of Inl _ \<Rightarrow> st | Inr st' \<Rightarrow> st')"

definition mask :: "auth_error \<Rightarrow> auth_fail + 'a \<Rightarrow> auth_fail + 'a" where
  "mask e r = (case r of Inl f \<Rightarrow> if fst f = OutOfFuel then Inl f else failed e | Inr x \<Rightarrow> Inr x)"

definition parse_call :: "(auth_state \<Rightarrow> auth_result) \<Rightarrow> string \<Rightarrow> auth_state \<Rightarrow> auth_result" where
  "parse_call parse_or name st =
     (if name \<noteq> ''contains'' then failed (UnsupportedFunction name)
      else
        res_bind (advance VNil st) (\<lambda>st.
        res_bind (mask ContainsArguments (parse_or st)) (\<lambda>(collection, st).
        if kind st \<noteq> AComma then failed ContainsArguments
        else
          res_bind (advance VNil st) (\<lambda>st.
          res_bind (mask ContainsArguments (parse_or st)) (\<lambda>(needle, st).
          if kind st \<noteq> ARParen then failed ContainsArguments
          else
            res_bind (advance VNil st) (\<lambda>st.
            res_bind (beside VNil (auth_contains collection needle)) (\<lambda>v. Inr (v, st))))))))"

primrec list_loop :: "(auth_state \<Rightarrow> auth_result) \<Rightarrow> nat \<Rightarrow> gval list \<Rightarrow> auth_state \<Rightarrow> auth_result" where
  "list_loop parse_or 0 vs st = failed OutOfFuel"
| "list_loop parse_or (Suc n) vs st =
     res_bind (parse_or st) (\<lambda>(v, st).
       let vs = vs @ [v]; result = VSlice ''interface {}'' vs in
       if kind st = ARBracket then res_bind (advance result st) (\<lambda>st. Inr (result, st))
       else if kind st \<noteq> AComma then failed ListComma
       else res_bind (advance VNil st) (\<lambda>st. list_loop parse_or n vs st))"

definition parse_list :: "(auth_state \<Rightarrow> auth_result) \<Rightarrow> nat \<Rightarrow> auth_state \<Rightarrow> auth_result" where
  "parse_list parse_or n st =
     res_bind (advance VNil st) (\<lambda>st.
       if kind st = ARBracket
       then res_bind (advance (VSlice ''interface {}'' []) st) (\<lambda>st. Inr (VSlice ''interface {}'' [], st))
       else list_loop parse_or n [] st)"

definition parse_primary :: "auth_context \<Rightarrow> (auth_state \<Rightarrow> auth_result) \<Rightarrow> nat \<Rightarrow> auth_state \<Rightarrow> auth_result" where
  "parse_primary cx parse_or n st =
     (let t = tok_text (fst st) in
      if kind st = AString then
        res_bind (advance VNil st) (\<lambda>st. case unquote t of None \<Rightarrow> failed InvalidString | Some s \<Rightarrow> Inr (VString s, st))
      else if kind st = ANumber then
        res_bind (advance VNil st) (\<lambda>st. case rat_of_text t of None \<Rightarrow> failed (InvalidNumber t) | Some r \<Rightarrow> Inr (VRat r, st))
      else if kind st = AIdentifier then
        res_bind (advance VNil st) (\<lambda>st.
          if t = ''true'' then Inr (VBool True, st)
          else if t = ''false'' then Inr (VBool False, st)
          else if t = ''null'' then Inr (VNil, st)
          else if kind st = ALParen then parse_call parse_or t st
          else if cx_validate_only cx then Inr (VUnknown, st)
          else res_bind (beside VNil (resolve_variable (cx_variables cx) t)) (\<lambda>v. Inr (v, st)))
      else if kind st = ALParen then
        res_bind (advance VNil st) (\<lambda>st.
        res_bind (mask UnclosedParentheses (parse_or st)) (\<lambda>(v, st).
          if kind st \<noteq> ARParen then failed UnclosedParentheses
          else res_bind (advance v st) (\<lambda>st. Inr (v, st))))
      else if kind st = ALBracket then parse_list parse_or n st
      else failed (ExpectedValue t))"

fun parse_unary :: "auth_context \<Rightarrow> (auth_state \<Rightarrow> auth_result) \<Rightarrow> nat \<Rightarrow> nat \<Rightarrow> auth_state \<Rightarrow> auth_result" where
  "parse_unary cx parse_or f n st =
     (if kind st \<noteq> ANot then parse_primary cx parse_or f st
      else case n of
        0 \<Rightarrow> failed OutOfFuel
      | Suc m \<Rightarrow>
          res_bind (advance VNil st) (\<lambda>st.
            case parse_unary cx parse_or f m st of
              Inl (e, v) \<Rightarrow> if e = OutOfFuel \<or> v = VUnknown then Inl (e, v) else failed NotRequiresBool
            | Inr (v, st) \<Rightarrow>
                (case v of
                   VUnknown \<Rightarrow> Inr (VUnknown, st)
                 | VBool b \<Rightarrow> Inr (VBool (\<not> b), st)
                 | _ \<Rightarrow> failed NotRequiresBool)))"

declare parse_unary.simps [simp del]

definition parse_comparison :: "auth_context \<Rightarrow> (auth_state \<Rightarrow> auth_result) \<Rightarrow> nat \<Rightarrow> auth_state \<Rightarrow> auth_result" where
  "parse_comparison cx parse_or n st =
     res_bind (parse_unary cx parse_or n n st) (\<lambda>(left, st).
       let operator = kind st in
       if \<not> comparison_operator operator then Inr (left, st)
       else
         res_bind (advance VNil st) (\<lambda>st.
         res_bind (parse_unary cx parse_or n n st) (\<lambda>(right, st).
         res_bind (beside VNil (auth_compare left right operator)) (\<lambda>v. Inr (v, st)))))"

text \<open>
  The loops of \<open>parseAnd\<close> and \<open>parseOr\<close> over their operands: \<open>operand\<close> parses one, \<open>both\<close> selects
  the conjunction.
\<close>

fun operator_loop :: "(auth_state \<Rightarrow> auth_result) \<Rightarrow> bool \<Rightarrow> nat \<Rightarrow> gval \<Rightarrow> auth_state \<Rightarrow> auth_result" where
  "operator_loop operand both n left st =
     (if kind st \<noteq> (if both then AAnd else AOr) then Inr (left, st)
      else case n of
        0 \<Rightarrow> failed OutOfFuel
      | Suc m \<Rightarrow>
          res_bind (operand (advance_ignoring st)) (\<lambda>(right, st).
          res_bind (beside VNil (auth_logical left right both)) (\<lambda>left. operator_loop operand both m left st)))"

declare operator_loop.simps [simp del]

definition parse_and :: "auth_context \<Rightarrow> (auth_state \<Rightarrow> auth_result) \<Rightarrow> nat \<Rightarrow> auth_state \<Rightarrow> auth_result" where
  "parse_and cx parse_or n st =
     res_bind (parse_comparison cx parse_or n st) (\<lambda>(left, st).
       operator_loop (parse_comparison cx parse_or n) True n left st)"

primrec parse_or :: "auth_context \<Rightarrow> nat \<Rightarrow> auth_state \<Rightarrow> auth_result" where
  "parse_or cx 0 st = failed OutOfFuel"
| "parse_or cx (Suc n) st =
     res_bind (parse_and cx (parse_or cx n) n st) (\<lambda>(left, st).
       operator_loop (parse_and cx (parse_or cx n) n) False n left st)"

definition parse_expression :: "auth_context \<Rightarrow> string \<Rightarrow> auth_error + gval" where
  "parse_expression cx source =
     (let s = trim_space source in
      if s = [] then Inl EmptyExpression
      else res_bind (next_token s) (\<lambda>st.
        case parse_or cx (length s + 1) st of
          Inl f \<Rightarrow> Inl (fst f)
        | Inr (v, st) \<Rightarrow> if kind st \<noteq> AEof then Inl (UnexpectedToken (tok_text (fst st))) else Inr v))"

definition evaluate_rule :: "string \<Rightarrow> (string \<times> gval) list \<Rightarrow> auth_error + bool" where
  "evaluate_rule source variables =
     res_bind (parse_expression \<lparr>cx_variables = variables, cx_validate_only = False\<rparr> source) (\<lambda>v.
       case v of VBool b \<Rightarrow> Inr b | _ \<Rightarrow> Inl NotBool)"

definition validate_expression :: "string \<Rightarrow> auth_error + unit" where
  "validate_expression source =
     res_bind (parse_expression \<lparr>cx_variables = [], cx_validate_only = True\<rparr> source) (\<lambda>v.
       case v of VBool _ \<Rightarrow> Inr () | VUnknown \<Rightarrow> Inr () | _ \<Rightarrow> Inl NotBool)"

definition validate_expression_against :: "string \<Rightarrow> (string \<times> gval) list \<Rightarrow> auth_error + unit" where
  "validate_expression_against source variables =
     res_bind (parse_expression \<lparr>cx_variables = variables, cx_validate_only = False\<rparr> source) (\<lambda>v.
       case v of VBool _ \<Rightarrow> Inr () | _ \<Rightarrow> Inl NotBool)"

end
