(* ===== verification/AuthLaws.thy ===== *)
theory AuthLaws
  imports AuthExpr
begin

text \<open>
  The parser of authorization expressions always returns: every call consumes a token, so the length of the
  source bounds the recursion.
\<close>

section \<open>Tokens consume text\<close>

lemma scan_string_shorter: "scan_string esc s = Some (t, r) \<Longrightarrow> length r < length s"
proof (induction esc s arbitrary: t rule: scan_string.induct)
  case (2 esc c s)
  then show ?case by (auto split: if_splits)
qed simp

lemma consume_length: "consume c s = Some t \<Longrightarrow> length t < length s"
  by (auto simp: consume_def split: list.splits if_splits)

lemma pair_token_length:
  "pair_token c s k single d = Inr (t, r) \<Longrightarrow> length r \<le> length s \<and> (tok_kind t = k \<or> single = Inr (tok_kind t))"
  by (auto simp: pair_token_def split: option.splits sum.splits dest: consume_length)

lemma symbol_token_length:
  assumes "symbol_token c s = Inr (t, r)"
  shows "length r \<le> length s \<and> tok_kind t \<notin> {AEof, AIdentifier, AString, ANumber}"
  using assms
  by (auto simp: symbol_token_def dest: pair_token_length split: option.splits if_splits)

lemma next_token_length:
  assumes "next_token s = Inr (t, r)"
  shows "tok_kind t = AEof \<and> r = [] \<or> tok_kind t \<noteq> AEof \<and> length r < length s"
proof -
  have le: "length (dropWhile space_byte s) \<le> length s" by (rule length_dropWhile_le)
  show ?thesis
  proof (cases "dropWhile space_byte s")
    case Nil
    then show ?thesis using assms by (auto simp: next_token_def simp del: dropWhile_eq_Nil_conv)
  next
    case (Cons c u)
    have drop: "length (dropWhile P u) \<le> length u" for P by (rule length_dropWhile_le)
    have "tok_kind t \<noteq> AEof \<and> length r \<le> length u"
      using assms Cons drop scan_string_shorter [of False u] symbol_token_length [of c u t r]
      by (auto simp: next_token_def Let_def less_imp_le split: if_splits option.splits)
    then show ?thesis using Cons le by auto
  qed
qed

text \<open>The tokens left: no call can consume more.\<close>

definition left :: "auth_state \<Rightarrow> nat" where
  "left st = (if kind st = AEof then 0 else Suc (length (snd st)))"

lemma advance_left:
  assumes "advance v st = Inr st'" "kind st \<noteq> AEof"
  shows "left st' < left st"
  using assms next_token_length [of "snd st" "fst st'" "snd st'"]
  by (auto simp: advance_def beside_def left_def kind_def split: sum.splits)

lemma pair_token_fuel: "single \<noteq> Inl OutOfFuel \<Longrightarrow> pair_token c s k single d \<noteq> Inl OutOfFuel"
  by (auto simp: pair_token_def split: option.splits sum.splits)

lemma symbol_token_fuel: "symbol_token c s \<noteq> Inl OutOfFuel"
  using pair_token_fuel by (simp add: symbol_token_def split: option.split)

lemma next_token_fuel: "next_token s \<noteq> Inl OutOfFuel"
  by (simp add: next_token_def symbol_token_fuel Let_def split: list.split option.split)

section \<open>Enough fuel\<close>

text \<open>A result that consumed a token or is an error of the source.\<close>

definition returned :: "auth_state \<Rightarrow> auth_result \<Rightarrow> bool" where
  "returned st r = (case r of Inl f \<Rightarrow> fst f \<noteq> OutOfFuel | Inr (v, st') \<Rightarrow> left st' < left st)"

definition returns_below :: "nat \<Rightarrow> (auth_state \<Rightarrow> auth_result) \<Rightarrow> bool" where
  "returns_below m p \<longleftrightarrow> (\<forall>st. left st < m \<longrightarrow> returned st (p st))"

lemma returned_failed [simp]: "returned st (failed e) \<longleftrightarrow> e \<noteq> OutOfFuel" "returned st (Inl (e, v)) \<longleftrightarrow> e \<noteq> OutOfFuel"
  "returned st (Inr (v, st')) \<longleftrightarrow> left st' < left st"
  by (simp_all add: returned_def failed_def)

lemma returned_mono: "returned st' r \<Longrightarrow> left st' \<le> left st \<Longrightarrow> returned st r"
  by (auto simp: returned_def split: sum.splits)

lemma returned_advance:
  assumes "kind st1 \<noteq> AEof" "\<And>st'. left st' < left st1 \<Longrightarrow> returned st (k st')"
  shows "returned st (res_bind (advance v st1) k)"
proof (cases "next_token (snd st1)")
  case (Inl e)
  then show ?thesis using next_token_fuel [of "snd st1"] by (simp add: advance_def beside_def)
next
  case (Inr st')
  then show ?thesis using assms advance_left [of v st1 st'] by (simp add: advance_def beside_def)
qed

lemma returned_bind:
  assumes "returned st' p" "\<And>v st2. left st2 < left st' \<Longrightarrow> returned st (k (v, st2))"
  shows "returned st (res_bind p k)"
proof (cases p)
  case (Inl f)
  then show ?thesis using assms(1) by (cases f) simp
next
  case (Inr x)
  then show ?thesis using assms by (cases x) simp
qed

lemma returned_mask: "returned st p \<Longrightarrow> e \<noteq> OutOfFuel \<Longrightarrow> returned st (mask e p)"
  by (auto simp: returned_def mask_def failed_def split: sum.splits)

lemma returned_beside:
  assumes "r \<noteq> Inl OutOfFuel" "\<And>v. returned st (k v)"
  shows "returned st (res_bind (beside w r) k)"
  using assms by (cases r) (auto simp: beside_def)

lemma values_fuel:
  "auth_compare a b op \<noteq> Inl OutOfFuel" "auth_logical a b both \<noteq> Inl OutOfFuel"
  "contains_loop xs b \<noteq> Inl OutOfFuel" "auth_contains a b \<noteq> Inl OutOfFuel"
  "resolve_parts path ps a \<noteq> Inl OutOfFuel" "resolve_variable vars path \<noteq> Inl OutOfFuel"
proof -
  show "auth_compare a b op \<noteq> Inl OutOfFuel"
    by (cases "auth_order a b") (auto simp: auth_compare_def auth_order_def split: prod.splits option.splits gval.splits)
  show "auth_logical a b both \<noteq> Inl OutOfFuel" by (auto simp: auth_logical_def split: gval.splits)
  show loop: "contains_loop xs b \<noteq> Inl OutOfFuel" for xs by (induction xs) (auto split: prod.splits)
  show "auth_contains a b \<noteq> Inl OutOfFuel" using loop by (auto simp: auth_contains_def split: gval.splits)
  show parts: "resolve_parts path ps a \<noteq> Inl OutOfFuel" for ps a
    by (induction path ps a rule: resolve_parts.induct) (auto split: gval.splits option.splits)
  show "resolve_variable vars path \<noteq> Inl OutOfFuel"
    using parts by (auto simp: resolve_variable_def simp del: resolve_parts.simps split: list.splits option.splits)
qed

lemma returns_belowD: "returns_below m p \<Longrightarrow> left st < m \<Longrightarrow> returned st (p st)"
  by (simp add: returns_below_def del: split_paired_All)

lemma parse_call_returns:
  assumes "returns_below m p" "left st \<le> m" "kind st \<noteq> AEof"
  shows "returned st (parse_call p name st)"
proof (cases "name = ''contains''")
  case True
  show ?thesis
    unfolding parse_call_def True
    apply (simp, intro returned_advance [OF assms(3)] returned_bind [OF returned_mask [OF returns_belowD [OF assms(1)]]])
    using assms(2) by (auto intro!: returned_advance returned_bind [OF returned_mask [OF returns_belowD [OF assms(1)]]]
        returned_beside values_fuel)
qed (simp add: parse_call_def)

lemma list_loop_returns:
  assumes "returns_below m p" "left st < m" "left st < n" "left st < left st0"
  shows "returned st0 (list_loop p n vs st)"
  using assms(2-4)
proof (induction n arbitrary: vs st)
  case (Suc n)
  have "returned st0 (if kind st2 = ARBracket
      then res_bind (advance (VSlice ''interface {}'' (vs @ [v])) st2) (\<lambda>st. Inr (VSlice ''interface {}'' (vs @ [v]), st))
      else if kind st2 \<noteq> AComma then failed ListComma else res_bind (advance VNil st2) (list_loop p n (vs @ [v])))"
    if "left st2 < left st" for v st2
    using Suc.prems that by (auto intro!: returned_advance Suc.IH)
  then show ?case
    using returned_bind [OF returns_belowD [OF assms(1) Suc.prems(1)]] by (simp add: Let_def)
qed simp

lemma parse_list_returns:
  assumes "returns_below m p" "left st \<le> m" "left st \<le> n" "kind st \<noteq> AEof"
  shows "returned st (parse_list p n st)"
  unfolding parse_list_def
  using assms by (auto intro!: returned_advance list_loop_returns)

lemma parse_primary_returns:
  assumes "returns_below m p" "left st \<le> m" "left st \<le> n"
  shows "returned st (parse_primary cx p n st)"
proof -
  have call: "returned st (parse_call p t st')" if "left st' < left st" "kind st' = ALParen" for t st'
    using that assms(2) by (intro returned_mono [OF parse_call_returns [OF assms(1)]]) simp_all
  have inner: "returned st (res_bind (mask UnclosedParentheses (p st')) (\<lambda>(v, st). if kind st \<noteq> ARParen then failed UnclosedParentheses
      else res_bind (advance v st) (\<lambda>st. Inr (v, st))))" if "left st' < left st" for st'
    using that assms(2) by (intro returned_bind [OF returned_mask [OF returns_belowD [OF assms(1)]]]) (auto intro!: returned_advance)
  show ?thesis
    using call inner parse_list_returns [OF assms]
    by (auto simp: parse_primary_def Let_def intro!: returned_advance returned_beside values_fuel split: option.split)
qed

lemma parse_unary_returns:
  assumes "returns_below m p" "left st \<le> m" "left st \<le> f" "left st \<le> n"
  shows "returned st (parse_unary cx p f n st)"
  using assms(2-4)
proof (induction n arbitrary: st)
  case 0
  then show ?case
    using parse_primary_returns [OF assms(1), of st f cx] by (auto simp: parse_unary.simps left_def split: if_splits)
next
  case (Suc n)
  have "returned st (case parse_unary cx p f n st' of
      Inl (e, v) \<Rightarrow> if e = OutOfFuel \<or> v = VUnknown then Inl (e, v) else failed NotRequiresBool
    | Inr (v, st2) \<Rightarrow> (case v of VUnknown \<Rightarrow> Inr (VUnknown, st2) | VBool b \<Rightarrow> Inr (VBool (\<not> b), st2) | _ \<Rightarrow> failed NotRequiresBool))"
    if "left st' < left st" for st'
  proof -
    have "returned st' (parse_unary cx p f n st')" using that Suc.prems by (intro Suc.IH) simp_all
    then show ?thesis using that by (auto simp: returned_def failed_def split: sum.splits gval.splits)
  qed
  then show ?case
    using parse_primary_returns [OF assms(1), of st f cx] Suc.prems
    by (auto simp: parse_unary.simps [of cx p f "Suc n" st] intro!: returned_advance)
qed

lemma comparison_operator_not_eof: "comparison_operator k \<Longrightarrow> k \<noteq> AEof"
  by (auto simp: comparison_operator_def)

lemma parse_comparison_returns:
  assumes "returns_below m p" "left st \<le> m" "left st \<le> n"
  shows "returned st (parse_comparison cx p n st)"
proof -
  have right: "returned st (res_bind (parse_unary cx p n n st') (\<lambda>(right, st2). res_bind (beside VNil (auth_compare l right op)) (\<lambda>v. Inr (v, st2))))"
    if "left st' < left st" for st' l op
    using that assms by (intro returned_bind [OF parse_unary_returns [OF assms(1)]]) (auto intro!: returned_beside values_fuel)
  show ?thesis
    unfolding parse_comparison_def
    using assms right
    by (intro returned_bind [OF parse_unary_returns [OF assms(1)]])
      (auto simp: Let_def dest: comparison_operator_not_eof intro!: returned_advance)
qed

lemma operator_loop_returns:
  assumes "\<And>st. left st \<le> m \<Longrightarrow> returned st (operand st)" "left st \<le> m" "left st \<le> n" "left st < left st0"
  shows "returned st0 (operator_loop operand both n l st)"
  using assms(2-4)
proof (induction n arbitrary: l st)
  case 0
  then show ?case by (auto simp: operator_loop.simps left_def split: if_splits)
next
  case (Suc n)
  show ?case
  proof (cases "kind st = (if both then AAnd else AOr)")
    case True
    then have "left (advance_ignoring st) \<le> left st"
      using advance_left [of VNil st "advance_ignoring st"]
      by (auto simp: advance_ignoring_def advance_def beside_def split: sum.splits if_splits)
    then have "returned (advance_ignoring st) (operand (advance_ignoring st))" using Suc.prems by (intro assms(1)) simp
    moreover have "returned st0 (res_bind (beside VNil (auth_logical l v both)) (\<lambda>l. operator_loop operand both n l st2))"
      if "left st2 < left (advance_ignoring st)" for v st2
      using that Suc.prems \<open>left (advance_ignoring st) \<le> left st\<close> by (intro returned_beside values_fuel Suc.IH) simp_all
    ultimately show ?thesis
      using True returned_bind [of "advance_ignoring st" "operand (advance_ignoring st)"]
      by (subst operator_loop.simps) simp
  qed (use Suc.prems in \<open>simp add: operator_loop.simps\<close>)
qed

lemma parse_and_returns:
  assumes "returns_below m p" "left st \<le> m" "left st \<le> n" "m \<le> n"
  shows "returned st (parse_and cx p n st)"
  unfolding parse_and_def
  using assms
  by (intro returned_bind [OF parse_comparison_returns [OF assms(1)]])
    (auto intro!: operator_loop_returns [of m] parse_comparison_returns [OF assms(1)])

lemma parse_or_returns: "returns_below n (parse_or cx n)"
proof (induction n)
  case (Suc n)
  have "returned st (parse_or cx (Suc n) st)" if "left st < Suc n" for st
    using that
    by (simp, intro returned_bind [OF parse_and_returns [OF Suc]])
      (auto intro!: operator_loop_returns [of n] parse_and_returns [OF Suc])
  then show ?case by (simp add: returns_below_def del: parse_or.simps)
qed (simp add: returns_below_def)

lemma parse_expression_fuel: "parse_expression cx source \<noteq> Inl OutOfFuel"
proof (cases "next_token (trim_space source)")
  case (Inr st)
  then have "left st \<le> length (trim_space source)"
    using next_token_length [of "trim_space source" "fst st" "snd st"] by (auto simp: left_def kind_def)
  then have "returned st (parse_or cx (length (trim_space source) + 1) st)"
    using returns_belowD [OF parse_or_returns [of "length (trim_space source) + 1" cx]] by simp
  then show ?thesis
    using Inr by (auto simp: parse_expression_def Let_def returned_def simp del: parse_or.simps split: sum.splits)
qed (use next_token_fuel in \<open>auto simp: parse_expression_def Let_def\<close>)

end
