(* ===== verification/AuthGrammar.thy ===== *)
theory AuthGrammar
  imports AuthLaws
begin

text \<open>
  The language of authorization expressions: its abstract syntax with a compositional semantics, its
  grammar over tokens, and the proof that the one-pass parser computes exactly the value of the
  expression that the tokens spell.
\<close>

section \<open>Syntax and semantics\<close>

datatype expr =
    EString string
  | ENumber rat
  | EBool bool
  | ENull
  | EVar string
  | EContains expr expr
  | EList "expr list"
  | ENot expr
  | ECompare auth_kind expr expr
  | ELogical bool expr expr

definition eval_not :: "gval \<Rightarrow> auth_error + gval" where
  "eval_not v = (case v of VUnknown \<Rightarrow> Inr VUnknown | VBool b \<Rightarrow> Inr (VBool (\<not> b)) | _ \<Rightarrow> Inl NotRequiresBool)"

fun eval :: "(string \<Rightarrow> auth_error + gval) \<Rightarrow> expr \<Rightarrow> auth_error + gval"
  and eval_list :: "(string \<Rightarrow> auth_error + gval) \<Rightarrow> expr list \<Rightarrow> auth_error + gval list" where
  "eval env (EString s) = Inr (VString s)"
| "eval env (ENumber r) = Inr (VRat r)"
| "eval env (EBool b) = Inr (VBool b)"
| "eval env ENull = Inr VNil"
| "eval env (EVar x) = env x"
| "eval env (EContains a b) = res_bind (eval env a) (\<lambda>v. res_bind (eval env b) (\<lambda>w. auth_contains v w))"
| "eval env (EList es) = res_bind (eval_list env es) (\<lambda>vs. Inr (VSlice ''interface {}'' vs))"
| "eval env (ENot a) = res_bind (eval env a) eval_not"
| "eval env (ECompare op a b) = res_bind (eval env a) (\<lambda>v. res_bind (eval env b) (\<lambda>w. auth_compare v w op))"
| "eval env (ELogical both a b) = res_bind (eval env a) (\<lambda>v. res_bind (eval env b) (\<lambda>w. auth_logical v w both))"
| "eval_list env [] = Inr []"
| "eval_list env (e # es) = res_bind (eval env e) (\<lambda>v. res_bind (eval_list env es) (\<lambda>vs. Inr (v # vs)))"

definition resolver :: "auth_context \<Rightarrow> string \<Rightarrow> auth_error + gval" where
  "resolver cx path = (if cx_validate_only cx then Inr VUnknown else resolve_variable (cx_variables cx) path)"

section \<open>Grammar\<close>

abbreviation keywords_of :: "string set" where
  "keywords_of \<equiv> {''true'', ''false'', ''null''}"

inductive primary :: "expr \<Rightarrow> auth_token list \<Rightarrow> bool"
  and unary :: "expr \<Rightarrow> auth_token list \<Rightarrow> bool"
  and comparison :: "expr \<Rightarrow> auth_token list \<Rightarrow> bool"
  and conjunction :: "expr \<Rightarrow> auth_token list \<Rightarrow> bool"
  and disjunction :: "expr \<Rightarrow> auth_token list \<Rightarrow> bool"
  and items :: "expr list \<Rightarrow> auth_token list \<Rightarrow> bool" where
  p_string: "tok_kind t = AString \<Longrightarrow> unquote (tok_text t) = Some s \<Longrightarrow> primary (EString s) [t]"
| p_number: "tok_kind t = ANumber \<Longrightarrow> rat_of_text (tok_text t) = Some r \<Longrightarrow> primary (ENumber r) [t]"
| p_true: "tok_kind t = AIdentifier \<Longrightarrow> tok_text t = ''true'' \<Longrightarrow> primary (EBool True) [t]"
| p_false: "tok_kind t = AIdentifier \<Longrightarrow> tok_text t = ''false'' \<Longrightarrow> primary (EBool False) [t]"
| p_null: "tok_kind t = AIdentifier \<Longrightarrow> tok_text t = ''null'' \<Longrightarrow> primary ENull [t]"
| p_var: "tok_kind t = AIdentifier \<Longrightarrow> tok_text t \<notin> keywords_of \<Longrightarrow> primary (EVar (tok_text t)) [t]"
| p_call: "tok_kind f = AIdentifier \<Longrightarrow> tok_text f = ''contains'' \<Longrightarrow> tok_kind a = ALParen \<Longrightarrow> disjunction e1 ts1 \<Longrightarrow>
    tok_kind c = AComma \<Longrightarrow> disjunction e2 ts2 \<Longrightarrow> tok_kind z = ARParen \<Longrightarrow>
    primary (EContains e1 e2) (f # a # ts1 @ c # ts2 @ [z])"
| p_paren: "tok_kind a = ALParen \<Longrightarrow> disjunction e ts \<Longrightarrow> tok_kind z = ARParen \<Longrightarrow> primary e (a # ts @ [z])"
| p_empty: "tok_kind a = ALBracket \<Longrightarrow> tok_kind z = ARBracket \<Longrightarrow> primary (EList []) [a, z]"
| p_list: "tok_kind a = ALBracket \<Longrightarrow> items es ts \<Longrightarrow> tok_kind z = ARBracket \<Longrightarrow> primary (EList es) (a # ts @ [z])"
| u_primary: "primary e ts \<Longrightarrow> unary e ts"
| u_not: "tok_kind t = ANot \<Longrightarrow> unary e ts \<Longrightarrow> unary (ENot e) (t # ts)"
| c_unary: "unary e ts \<Longrightarrow> comparison e ts"
| c_binary: "unary e1 ts1 \<Longrightarrow> comparison_operator (tok_kind t) \<Longrightarrow> unary e2 ts2 \<Longrightarrow>
    comparison (ECompare (tok_kind t) e1 e2) (ts1 @ t # ts2)"
| a_comparison: "comparison e ts \<Longrightarrow> conjunction e ts"
| a_and: "conjunction e1 ts1 \<Longrightarrow> tok_kind t = AAnd \<Longrightarrow> comparison e2 ts2 \<Longrightarrow> conjunction (ELogical True e1 e2) (ts1 @ t # ts2)"
| o_conjunction: "conjunction e ts \<Longrightarrow> disjunction e ts"
| o_or: "disjunction e1 ts1 \<Longrightarrow> tok_kind t = AOr \<Longrightarrow> conjunction e2 ts2 \<Longrightarrow> disjunction (ELogical False e1 e2) (ts1 @ t # ts2)"
| i_one: "disjunction e ts \<Longrightarrow> items [e] ts"
| i_more: "disjunction e ts \<Longrightarrow> tok_kind c = AComma \<Longrightarrow> items es us \<Longrightarrow> items (e # es) (ts @ c # us)"

lemmas grammar_inducts = primary_unary_comparison_conjunction_disjunction_items.inducts
lemmas grammar_intros = primary_unary_comparison_conjunction_disjunction_items.intros

text \<open>Reading a list of tokens from one parser state to another.\<close>

fun consumes :: "auth_state \<Rightarrow> auth_token list \<Rightarrow> auth_state \<Rightarrow> bool" where
  "consumes st [] st' \<longleftrightarrow> st' = st"
| "consumes st (t # ts) st' \<longleftrightarrow> fst st = t \<and> (case next_token (snd st) of Inl _ \<Rightarrow> False | Inr st1 \<Rightarrow> consumes st1 ts st')"

lemma consumes_append: "consumes st (ts @ us) st' \<longleftrightarrow> (\<exists>st1. consumes st ts st1 \<and> consumes st1 us st')"
  by (induction st ts st' rule: consumes.induct) (auto split: sum.splits)

lemma consumes_ConsI: "next_token (snd st) = Inr st1 \<Longrightarrow> consumes st1 ts st' \<Longrightarrow> consumes st (fst st # ts) st'"
  by simp

lemma consumes_appendI: "consumes st ts st1 \<Longrightarrow> consumes st1 us st' \<Longrightarrow> consumes st (ts @ us) st'"
  using consumes_append by blast

lemma consumes_one: "next_token (snd st) = Inr st' \<Longrightarrow> consumes st [fst st] st'"
  by simp

lemma grammar_tokens:
  "primary e ts \<Longrightarrow> ts \<noteq> [] \<and> (\<forall>t\<in>set ts. tok_kind t \<noteq> AEof)" "unary e ts \<Longrightarrow> ts \<noteq> [] \<and> (\<forall>t\<in>set ts. tok_kind t \<noteq> AEof)"
  "comparison e ts \<Longrightarrow> ts \<noteq> [] \<and> (\<forall>t\<in>set ts. tok_kind t \<noteq> AEof)" "conjunction e ts \<Longrightarrow> ts \<noteq> [] \<and> (\<forall>t\<in>set ts. tok_kind t \<noteq> AEof)"
  "disjunction e ts \<Longrightarrow> ts \<noteq> [] \<and> (\<forall>t\<in>set ts. tok_kind t \<noteq> AEof)" "items es ts \<Longrightarrow> ts \<noteq> [] \<and> (\<forall>t\<in>set ts. tok_kind t \<noteq> AEof)"
  by (induction rule: grammar_inducts) (auto simp: comparison_operator_def)

lemma consumes_left:
  "consumes st ts st' \<Longrightarrow> \<forall>t\<in>set ts. tok_kind t \<noteq> AEof \<Longrightarrow> left st' + length ts \<le> left st"
proof (induction st ts st' rule: consumes.induct)
  case (2 st t ts st')
  then obtain st1 where "next_token (snd st) = Inr st1" "consumes st1 ts st'" "fst st = t" by (auto split: sum.splits)
  then have "left st' + length ts \<le> left st1" "left st1 < left st"
    using 2 advance_left [of VNil st st1] by (auto simp: advance_def beside_def kind_def)
  then show ?case by simp
qed simp

section \<open>Every value the parser returns is the value of an expression\<close>

definition sound :: "auth_context \<Rightarrow> (expr \<Rightarrow> auth_token list \<Rightarrow> bool) \<Rightarrow> (auth_state \<Rightarrow> auth_result) \<Rightarrow> bool" where
  "sound cx level p \<longleftrightarrow>
     (\<forall>st v st'. p st = Inr (v, st') \<longrightarrow> (\<exists>e ts. consumes st ts st' \<and> level e ts \<and> eval (resolver cx) e = Inr v))"

lemma soundE:
  assumes "sound cx level p" "p st = Inr (v, st')"
  obtains e ts where "consumes st ts st'" "level e ts" "eval (resolver cx) e = Inr v"
  using assms unfolding sound_def by blast

lemma advance_Inr: "advance v st = Inr st1 \<longleftrightarrow> next_token (snd st) = Inr st1"
  by (auto simp: advance_def beside_def split: sum.splits)

lemma mask_Inr: "mask e p = Inr x \<longleftrightarrow> p = Inr x"
  by (auto simp: mask_def failed_def split: sum.splits if_splits)

lemma beside_Inr: "beside v p = Inr x \<longleftrightarrow> p = Inr x"
  by (auto simp: beside_def split: sum.splits)

lemmas bind_Inr = res_bind_Inr_iff

lemmas parser_steps = advance_Inr mask_Inr beside_Inr bind_Inr

lemma failed_not_Inr [simp]: "failed e \<noteq> Inr r" "Inr r \<noteq> failed e"
  by (simp_all add: failed_def)

lemma parse_call_sound:
  assumes "sound cx disjunction p" "parse_call p name st = Inr (v, st')" "tok_kind f = AIdentifier" "tok_text f = name" "kind st = ALParen"
  shows "\<exists>e ts. consumes st ts st' \<and> primary e (f # ts) \<and> eval (resolver cx) e = Inr v"
proof -
  have name: "name = ''contains''" using assms(2) by (auto simp: parse_call_def split: if_splits)
  obtain st1 c st2 st3 n st4 where steps: "next_token (snd st) = Inr st1" "p st1 = Inr (c, st2)" "kind st2 = AComma"
    "next_token (snd st2) = Inr st3" "p st3 = Inr (n, st4)" "kind st4 = ARParen" "next_token (snd st4) = Inr st'"
    "auth_contains c n = Inr v"
    using assms(2) by (auto simp: parse_call_def name parser_steps split: if_splits)
  obtain e1 ts1 where 1: "consumes st1 ts1 st2" "disjunction e1 ts1" "eval (resolver cx) e1 = Inr c"
    using soundE [OF assms(1) steps(2)] by blast
  obtain e2 ts2 where 2: "consumes st3 ts2 st4" "disjunction e2 ts2" "eval (resolver cx) e2 = Inr n"
    using soundE [OF assms(1) steps(5)] by blast
  have "consumes st (fst st # ts1 @ fst st2 # ts2 @ [fst st4]) st'"
    by (rule consumes_ConsI [OF steps(1) consumes_appendI [OF 1(1) consumes_ConsI [OF steps(4)
          consumes_appendI [OF 2(1) consumes_one [OF steps(7)]]]]])
  moreover have "primary (EContains e1 e2) (f # fst st # ts1 @ fst st2 # ts2 @ [fst st4])"
    using assms(3-5) name steps 1(2) 2(2) by (intro p_call) (simp_all add: kind_def)
  moreover have "eval (resolver cx) (EContains e1 e2) = Inr v" using 1(3) 2(3) steps(8) by simp
  ultimately show ?thesis by blast
qed

lemma list_loop_sound:
  assumes "sound cx disjunction p" "list_loop p n vs st = Inr (v, st')"
  shows "\<exists>es ts ws st2. consumes st ts st2 \<and> items es ts \<and> eval_list (resolver cx) es = Inr ws \<and> v = VSlice ''interface {}'' (vs @ ws)
    \<and> kind st2 = ARBracket \<and> next_token (snd st2) = Inr st'"
  using assms(2)
proof (induction n arbitrary: vs st)
  case (Suc n)
  then obtain x st1 where x: "p st = Inr (x, st1)" by (auto simp: parser_steps)
  obtain e ts where e: "consumes st ts st1" "disjunction e ts" "eval (resolver cx) e = Inr x"
    using soundE [OF assms(1) x] by blast
  show ?case
  proof (cases "kind st1 = ARBracket")
    case True
    then have "v = VSlice ''interface {}'' (vs @ [x])" "next_token (snd st1) = Inr st'"
      using Suc.prems x by (auto simp: parser_steps Let_def)
    moreover have "eval_list (resolver cx) [e] = Inr [x]" using e(3) by simp
    ultimately show ?thesis using e(1) i_one [OF e(2)] True by blast
  next
    case False
    then obtain st2 where st2: "kind st1 = AComma" "next_token (snd st1) = Inr st2" "list_loop p n (vs @ [x]) st2 = Inr (v, st')"
      using Suc.prems x by (auto simp: parser_steps Let_def split: if_splits)
    obtain es us ws st3 where r: "consumes st2 us st3" "items es us" "eval_list (resolver cx) es = Inr ws"
      "v = VSlice ''interface {}'' ((vs @ [x]) @ ws)" "kind st3 = ARBracket" "next_token (snd st3) = Inr st'"
      using Suc.IH [OF st2(3)] by blast
    have "consumes st (ts @ fst st1 # us) st3" by (rule consumes_appendI [OF e(1) consumes_ConsI [OF st2(2) r(1)]])
    moreover have "items (e # es) (ts @ fst st1 # us)" using e(2) r(2) st2(1) by (intro i_more) (simp_all add: kind_def)
    moreover have "eval_list (resolver cx) (e # es) = Inr (x # ws)" "v = VSlice ''interface {}'' (vs @ x # ws)"
      using e(3) r by simp_all
    ultimately show ?thesis using r(5,6) by blast
  qed
qed simp

lemma parse_list_sound:
  assumes "sound cx disjunction p" "parse_list p n st = Inr (v, st')" "kind st = ALBracket"
  shows "\<exists>e ts. consumes st ts st' \<and> primary e ts \<and> eval (resolver cx) e = Inr v"
proof -
  obtain st1 where st1: "next_token (snd st) = Inr st1" using assms(2) by (auto simp: parse_list_def parser_steps)
  show ?thesis
  proof (cases "kind st1 = ARBracket")
    case True
    then have "v = VSlice ''interface {}'' []" "next_token (snd st1) = Inr st'"
      using assms(2) st1 by (auto simp: parse_list_def parser_steps)
    then have "consumes st [fst st, fst st1] st'" "eval (resolver cx) (EList []) = Inr v" using st1 by simp_all
    moreover have "primary (EList []) [fst st, fst st1]" using True assms(3) by (intro p_empty) (simp_all add: kind_def)
    ultimately show ?thesis by blast
  next
    case False
    then have "list_loop p n [] st1 = Inr (v, st')" using assms(2) st1 by (auto simp: parse_list_def parser_steps)
    then obtain es ts ws st2 where r: "consumes st1 ts st2" "items es ts" "eval_list (resolver cx) es = Inr ws"
      "v = VSlice ''interface {}'' ws" "kind st2 = ARBracket" "next_token (snd st2) = Inr st'"
      using list_loop_sound [OF assms(1)] by (metis append_Nil)
    have "consumes st (fst st # ts @ [fst st2]) st'" by (rule consumes_ConsI [OF st1 consumes_appendI [OF r(1) consumes_one [OF r(6)]]])
    moreover have "primary (EList es) (fst st # ts @ [fst st2])"
      using assms(3) r(2,5) by (intro p_list) (simp_all add: kind_def)
    moreover have "eval (resolver cx) (EList es) = Inr v" using r(3,4) by simp
    ultimately show ?thesis by blast
  qed
qed

lemma parse_identifier_sound:
  assumes "sound cx disjunction p" "parse_primary cx p n st = Inr (v, st')" "kind st = AIdentifier"
  shows "\<exists>e ts. consumes st ts st' \<and> primary e ts \<and> eval (resolver cx) e = Inr v"
proof -
  let ?t = "tok_text (fst st)"
  have t: "tok_kind (fst st) = AIdentifier" using assms(3) by (simp add: kind_def)
  obtain st1 where st1: "next_token (snd st) = Inr st1" and rest: "(if ?t = ''true'' then Inr (VBool True, st1)
      else if ?t = ''false'' then Inr (VBool False, st1) else if ?t = ''null'' then Inr (VNil, st1)
      else if kind st1 = ALParen then parse_call p ?t st1 else if cx_validate_only cx then Inr (VUnknown, st1)
      else res_bind (beside VNil (resolve_variable (cx_variables cx) ?t)) (\<lambda>v. Inr (v, st1))) = Inr (v, st')"
    using assms(2,3) by (auto simp: parse_primary_def Let_def parser_steps)
  have one: "consumes st [fst st] st1" using st1 by simp
  consider "?t \<in> keywords_of" | "?t \<notin> keywords_of" "kind st1 = ALParen" | "?t \<notin> keywords_of" "kind st1 \<noteq> ALParen" by blast
  then show ?thesis
  proof cases
    case 1
    then have "\<exists>e. primary e [fst st] \<and> eval (resolver cx) e = Inr v"
      using rest t p_true [of "fst st"] p_false [of "fst st"] p_null [of "fst st"] by auto
    moreover have "st' = st1" using 1 rest by (auto split: if_splits)
    ultimately show ?thesis using one by blast
  next
    case 2
    then have "parse_call p ?t st1 = Inr (v, st')" using rest by (auto split: if_splits)
    then obtain e ts where "consumes st1 ts st'" "primary e (fst st # ts)" "eval (resolver cx) e = Inr v"
      using parse_call_sound [OF assms(1) _ t refl 2(2)] by blast
    then show ?thesis using consumes_ConsI [OF st1] by blast
  next
    case 3
    then have "eval (resolver cx) (EVar ?t) = Inr v" "st' = st1"
      using rest by (auto simp: resolver_def parser_steps split: if_splits)
    then show ?thesis using p_var [OF t 3(1)] one by blast
  qed
qed

lemma parse_primary_sound:
  assumes "sound cx disjunction p"
  shows "sound cx primary (parse_primary cx p n)"
  unfolding sound_def
proof (intro allI impI)
  fix st v st' assume run: "parse_primary cx p n st = Inr (v, st')"
  consider "kind st = AString" | "kind st = ANumber" | "kind st = AIdentifier" | "kind st = ALParen" | "kind st = ALBracket"
    using run by (auto simp: parse_primary_def Let_def split: if_splits)
  then show "\<exists>e ts. consumes st ts st' \<and> primary e ts \<and> eval (resolver cx) e = Inr v"
  proof cases
    case 1
    then obtain s where "next_token (snd st) = Inr st'" "unquote (tok_text (fst st)) = Some s" "v = VString s"
      using run by (auto simp: parse_primary_def Let_def parser_steps split: option.splits)
    then have "consumes st [fst st] st'" "primary (EString s) [fst st]" "eval (resolver cx) (EString s) = Inr v"
      using 1 p_string by (simp_all add: kind_def)
    then show ?thesis by blast
  next
    case 2
    then obtain r where "next_token (snd st) = Inr st'" "rat_of_text (tok_text (fst st)) = Some r" "v = VRat r"
      using run by (auto simp: parse_primary_def Let_def parser_steps split: option.splits)
    then have "consumes st [fst st] st'" "primary (ENumber r) [fst st]" "eval (resolver cx) (ENumber r) = Inr v"
      using 2 p_number by (simp_all add: kind_def)
    then show ?thesis by blast
  next
    case 3
    then show ?thesis using parse_identifier_sound [OF assms run] by blast
  next
    case 4
    then obtain st1 st2 where steps: "next_token (snd st) = Inr st1" "p st1 = Inr (v, st2)" "kind st2 = ARParen" "next_token (snd st2) = Inr st'"
      using run by (auto simp: parse_primary_def Let_def parser_steps split: if_splits)
    obtain e ts where e: "consumes st1 ts st2" "disjunction e ts" "eval (resolver cx) e = Inr v"
      using soundE [OF assms steps(2)] by blast
    have "consumes st (fst st # ts @ [fst st2]) st'"
      by (rule consumes_ConsI [OF steps(1) consumes_appendI [OF e(1) consumes_one [OF steps(4)]]])
    moreover have "primary e (fst st # ts @ [fst st2])" using 4 steps(3) e(2) by (intro p_paren) (simp_all add: kind_def)
    ultimately show ?thesis using e(3) by blast
  next
    case 5
    then have "parse_list p n st = Inr (v, st')" using run by (simp add: parse_primary_def Let_def)
    then show ?thesis using parse_list_sound [OF assms _ 5] by blast
  qed
qed

lemma not_result_Inr:
  "(case r of
      Inl (e, v) \<Rightarrow> if e = OutOfFuel \<or> v = VUnknown then Inl (e, v) else failed NotRequiresBool
    | Inr (v, st) \<Rightarrow> (case v of VUnknown \<Rightarrow> Inr (VUnknown, st) | VBool b \<Rightarrow> Inr (VBool (\<not> b), st) | _ \<Rightarrow> failed NotRequiresBool))
     = Inr (x, st') \<longleftrightarrow> (\<exists>w. r = Inr (w, st') \<and> eval_not w = Inr x)"
proof (cases r)
  case (Inl f)
  then show ?thesis by (cases f) simp
next
  case (Inr y)
  obtain w st2 where "y = (w, st2)" by (cases y)
  with Inr show ?thesis by (cases w) (auto simp: eval_not_def)
qed

lemma parse_unary_sound:
  assumes "sound cx disjunction p"
  shows "sound cx unary (parse_unary cx p f n)"
proof (induction n)
  case 0
  show ?case
    unfolding sound_def
    by (auto simp: parse_unary.simps split: if_splits elim!: soundE [OF parse_primary_sound [OF assms]] intro: u_primary)
next
  case (Suc n)
  show ?case
    unfolding sound_def
  proof (intro allI impI)
    fix st v st' assume run: "parse_unary cx p f (Suc n) st = Inr (v, st')"
    show "\<exists>e ts. consumes st ts st' \<and> unary e ts \<and> eval (resolver cx) e = Inr v"
    proof (cases "kind st = ANot")
      case True
      then obtain st1 w where st1: "next_token (snd st) = Inr st1" "parse_unary cx p f n st1 = Inr (w, st')" "eval_not w = Inr v"
        using run unfolding parse_unary.simps [of cx p f "Suc n" st] by (auto simp: parser_steps not_result_Inr)
      obtain e ts where "consumes st1 ts st'" "unary e ts" "eval (resolver cx) e = Inr w"
        using soundE [OF Suc st1(2)] by blast
      then have "consumes st (fst st # ts) st'" "unary (ENot e) (fst st # ts)" "eval (resolver cx) (ENot e) = Inr v"
        using st1 True u_not by (simp_all add: kind_def)
      then show ?thesis by blast
    next
      case False
      then have "parse_primary cx p f st = Inr (v, st')" using run by (simp add: parse_unary.simps)
      then show ?thesis using soundE [OF parse_primary_sound [OF assms]] u_primary by metis
    qed
  qed
qed

lemma parse_comparison_sound:
  assumes "sound cx disjunction p"
  shows "sound cx comparison (parse_comparison cx p n)"
  unfolding sound_def
proof (intro allI impI)
  fix st v st' assume run: "parse_comparison cx p n st = Inr (v, st')"
  note unary = parse_unary_sound [OF assms]
  obtain l st1 where 1: "parse_unary cx p n n st = Inr (l, st1)" using run by (auto simp: parse_comparison_def parser_steps)
  obtain e ts where e: "consumes st ts st1" "unary e ts" "eval (resolver cx) e = Inr l" using soundE [OF unary 1] by blast
  show "\<exists>e ts. consumes st ts st' \<and> comparison e ts \<and> eval (resolver cx) e = Inr v"
  proof (cases "comparison_operator (kind st1)")
    case True
    then obtain st2 r where 2: "next_token (snd st1) = Inr st2" "parse_unary cx p n n st2 = Inr (r, st')"
      "auth_compare l r (kind st1) = Inr v"
      using run 1 by (auto simp: parse_comparison_def parser_steps Let_def)
    obtain e2 us where e2: "consumes st2 us st'" "unary e2 us" "eval (resolver cx) e2 = Inr r" using soundE [OF unary 2(2)] by blast
    have "consumes st (ts @ fst st1 # us) st'" by (rule consumes_appendI [OF e(1) consumes_ConsI [OF 2(1) e2(1)]])
    moreover have "comparison (ECompare (kind st1) e e2) (ts @ fst st1 # us)"
      using c_binary [OF e(2) _ e2(2), of "fst st1"] True by (simp add: kind_def)
    moreover have "eval (resolver cx) (ECompare (kind st1) e e2) = Inr v" using e(3) e2(3) 2(3) by simp
    ultimately show ?thesis by blast
  next
    case False
    then have "v = l" "st' = st1" using run 1 by (simp_all add: parse_comparison_def Let_def)
    then show ?thesis using e c_unary by blast
  qed
qed

text \<open>The loops extend the expression read so far to the left.\<close>

lemma operator_loop_sound:
  assumes operand: "sound cx Q operand" "\<And>e ts. Q e ts \<Longrightarrow> ts \<noteq> []"
    and level: "\<And>e1 ts1 t e2 ts2. P e1 ts1 \<Longrightarrow> tok_kind t = (if both then AAnd else AOr) \<Longrightarrow> Q e2 ts2 \<Longrightarrow>
      P (ELogical both e1 e2) (ts1 @ t # ts2)"
    and "operator_loop operand both n l st = Inr (v, st')"
    and "consumes st0 ts st" "P e ts" "eval (resolver cx) e = Inr l"
  shows "\<exists>e ts. consumes st0 ts st' \<and> P e ts \<and> eval (resolver cx) e = Inr v"
  using assms(4-)
proof (induction n arbitrary: l st e ts)
  case 0
  then show ?case by (auto simp: operator_loop.simps split: if_splits)
next
  case (Suc n)
  show ?case
  proof (cases "kind st = (if both then AAnd else AOr)")
    case True
    obtain r st2 w where 2: "operand (advance_ignoring st) = Inr (r, st2)" "auth_logical l r both = Inr w"
      "operator_loop operand both n w st2 = Inr (v, st')"
      using Suc.prems(1) True unfolding operator_loop.simps [of operand both "Suc n" l st] by (auto simp: parser_steps)
    obtain e2 us where e2: "consumes (advance_ignoring st) us st2" "Q e2 us" "eval (resolver cx) e2 = Inr r"
      using soundE [OF operand(1) 2(1)] by blast
    obtain st1 where st1: "next_token (snd st) = Inr st1"
      using e2(1) operand(2) [OF e2(2)] by (cases us) (auto simp: advance_ignoring_def split: sum.splits)
    then have "consumes st (fst st # us) st2" using e2(1) by (simp add: advance_ignoring_def)
    then have "consumes st0 (ts @ fst st # us) st2" by (rule consumes_appendI [OF Suc.prems(2)])
    moreover have "P (ELogical both e e2) (ts @ fst st # us)" using level Suc.prems(3) True e2(2) by (simp add: kind_def)
    moreover have "eval (resolver cx) (ELogical both e e2) = Inr w" using Suc.prems(4) e2(3) 2(2) by simp
    ultimately show ?thesis using Suc.IH [OF 2(3)] by blast
  next
    case False
    then have "v = l" "st' = st" using Suc.prems(1) by (simp_all add: operator_loop.simps)
    then show ?thesis using Suc.prems by blast
  qed
qed

lemma parse_and_sound:
  assumes "sound cx disjunction p"
  shows "sound cx conjunction (parse_and cx p n)"
  unfolding sound_def
proof (intro allI impI)
  fix st v st' assume run: "parse_and cx p n st = Inr (v, st')"
  note cmp = parse_comparison_sound [OF assms, of n]
  obtain l st1 where 1: "parse_comparison cx p n st = Inr (l, st1)"
    "operator_loop (parse_comparison cx p n) True n l st1 = Inr (v, st')"
    using run by (auto simp: parse_and_def parser_steps)
  obtain e ts where e: "consumes st ts st1" "comparison e ts" "eval (resolver cx) e = Inr l" using soundE [OF cmp 1(1)] by blast
  show "\<exists>e ts. consumes st ts st' \<and> conjunction e ts \<and> eval (resolver cx) e = Inr v"
    by (rule operator_loop_sound [where P = conjunction, OF cmp _ _ 1(2) e(1) a_comparison [OF e(2)] e(3)])
      (auto dest: grammar_tokens intro: a_and)
qed

lemma parse_or_sound: "sound cx disjunction (parse_or cx n)"
proof (induction n)
  case (Suc n)
  note conj = parse_and_sound [OF Suc, of n]
  show ?case
    unfolding sound_def
  proof (intro allI impI)
    fix st v st' assume run: "parse_or cx (Suc n) st = Inr (v, st')"
    obtain l st1 where 1: "parse_and cx (parse_or cx n) n st = Inr (l, st1)"
      "operator_loop (parse_and cx (parse_or cx n) n) False n l st1 = Inr (v, st')"
      using run by (auto simp: parser_steps)
    obtain e ts where e: "consumes st ts st1" "conjunction e ts" "eval (resolver cx) e = Inr l" using soundE [OF conj 1(1)] by blast
    show "\<exists>e ts. consumes st ts st' \<and> disjunction e ts \<and> eval (resolver cx) e = Inr v"
      by (rule operator_loop_sound [where P = disjunction, OF conj _ _ 1(2) e(1) o_conjunction [OF e(2)] e(3)])
        (auto dest: grammar_tokens intro: o_or)
  qed
qed (simp add: sound_def)

end
