(* ===== verification/AuthComplete.thy ===== *)
theory AuthComplete
  imports AuthGrammar
begin

text \<open>
  The converse of the soundness of the parser: whatever the grammar spells and the semantics gives a value, the
  parser accepts with that value.
\<close>

definition follow_or :: "auth_kind set" where
  "follow_or = {AEof, ARParen, ARBracket, AComma}"

definition follow_and :: "auth_kind set" where
  "follow_and = insert AOr follow_or"

definition follow_comparison :: "auth_kind set" where
  "follow_comparison = insert AAnd follow_and"

definition follow_unary :: "auth_kind set" where
  "follow_unary = follow_comparison \<union> Collect comparison_operator"

lemmas follow_defs = follow_or_def follow_and_def follow_comparison_def follow_unary_def comparison_operator_def

text \<open>What each level of the parser does on the tokens of an expression with a value.\<close>

definition reads_primary :: "auth_context \<Rightarrow> expr \<Rightarrow> auth_token list \<Rightarrow> bool" where
  "reads_primary cx e ts \<longleftrightarrow>
     (\<forall>st st' v m. consumes st ts st' \<longrightarrow> eval (resolver cx) e = Inr v \<longrightarrow> kind st' \<in> follow_unary \<longrightarrow> left st \<le> m \<longrightarrow>
        parse_primary cx (parse_or cx m) m st = Inr (v, st'))"

definition reads_unary :: "auth_context \<Rightarrow> expr \<Rightarrow> auth_token list \<Rightarrow> bool" where
  "reads_unary cx e ts \<longleftrightarrow>
     (\<forall>st st' v m n. consumes st ts st' \<longrightarrow> eval (resolver cx) e = Inr v \<longrightarrow> kind st' \<in> follow_unary \<longrightarrow> left st \<le> m \<longrightarrow> left st \<le> n \<longrightarrow>
        parse_unary cx (parse_or cx m) m n st = Inr (v, st'))"

definition reads_comparison :: "auth_context \<Rightarrow> expr \<Rightarrow> auth_token list \<Rightarrow> bool" where
  "reads_comparison cx e ts \<longleftrightarrow>
     (\<forall>st st' v m. consumes st ts st' \<longrightarrow> eval (resolver cx) e = Inr v \<longrightarrow> kind st' \<in> follow_comparison \<longrightarrow> left st \<le> m \<longrightarrow>
        parse_comparison cx (parse_or cx m) m st = Inr (v, st'))"

definition reads_conjunction :: "auth_context \<Rightarrow> expr \<Rightarrow> auth_token list \<Rightarrow> bool" where
  "reads_conjunction cx e ts \<longleftrightarrow>
     (\<forall>st st' v m. consumes st ts st' \<longrightarrow> eval (resolver cx) e = Inr v \<longrightarrow> kind st' \<in> follow_comparison \<longrightarrow> left st \<le> m \<longrightarrow>
        (\<exists>k. parse_and cx (parse_or cx m) m st = operator_loop (parse_comparison cx (parse_or cx m) m) True k v st' \<and> left st' \<le> k))"

definition reads_disjunction :: "auth_context \<Rightarrow> expr \<Rightarrow> auth_token list \<Rightarrow> bool" where
  "reads_disjunction cx e ts \<longleftrightarrow>
     (\<forall>st st' v m. consumes st ts st' \<longrightarrow> eval (resolver cx) e = Inr v \<longrightarrow> kind st' \<in> follow_and \<longrightarrow> left st \<le> m \<longrightarrow>
        (\<exists>k. parse_or cx (Suc m) st = operator_loop (parse_and cx (parse_or cx m) m) False k v st' \<and> left st' \<le> k))"

definition reads_items :: "auth_context \<Rightarrow> expr list \<Rightarrow> auth_token list \<Rightarrow> bool" where
  "reads_items cx es ts \<longleftrightarrow>
     (\<forall>st st' st2 vs ws m n. consumes st ts st' \<longrightarrow> eval_list (resolver cx) es = Inr ws \<longrightarrow> kind st' = ARBracket \<longrightarrow>
        next_token (snd st') = Inr st2 \<longrightarrow> left st < m \<longrightarrow> left st < n \<longrightarrow>
        list_loop (parse_or cx m) n vs st = Inr (VSlice ''interface {}'' (vs @ ws), st2))"

lemma reads_itemsD:
  assumes "reads_items cx es ts" "consumes st ts st'" "eval_list (resolver cx) es = Inr ws" "kind st' = ARBracket"
    "next_token (snd st') = Inr st2" "left st < m" "left st < n"
  shows "list_loop (parse_or cx m) n vs st = Inr (VSlice ''interface {}'' (vs @ ws), st2)"
  using assms unfolding reads_items_def by blast

lemma reads_unaryD:
  assumes "reads_unary cx e ts" "consumes st ts st'" "eval (resolver cx) e = Inr v" "kind st' \<in> follow_unary"
    "left st \<le> m" "left st \<le> n"
  shows "parse_unary cx (parse_or cx m) m n st = Inr (v, st')"
  using assms unfolding reads_unary_def by blast

lemma reads_conjunctionD:
  assumes "reads_conjunction cx e ts" "consumes st ts st'" "eval (resolver cx) e = Inr v" "kind st' \<in> follow_and" "left st \<le> m"
  shows "parse_and cx (parse_or cx m) m st = Inr (v, st')"
proof -
  have "kind st' \<in> follow_comparison" "kind st' \<noteq> AAnd" using assms(4) by (auto simp: follow_defs)
  then obtain k where "parse_and cx (parse_or cx m) m st = operator_loop (parse_comparison cx (parse_or cx m) m) True k v st'"
    using assms unfolding reads_conjunction_def by blast
  then show ?thesis using \<open>kind st' \<noteq> AAnd\<close> by (simp add: operator_loop.simps)
qed

lemma reads_disjunctionD:
  assumes "reads_disjunction cx e ts" "consumes st ts st'" "eval (resolver cx) e = Inr v" "kind st' \<in> follow_or" "left st < m"
  shows "parse_or cx m st = Inr (v, st')"
proof -
  obtain n where m: "m = Suc n" "left st \<le> n" using assms(5) by (cases m) auto
  have "kind st' \<in> follow_and" "kind st' \<noteq> AOr" using assms(4) by (auto simp: follow_defs)
  then obtain k where "parse_or cx (Suc n) st = operator_loop (parse_and cx (parse_or cx n) n) False k v st'"
    using assms m unfolding reads_disjunction_def by blast
  then show ?thesis using \<open>kind st' \<noteq> AOr\<close> m by (simp add: operator_loop.simps del: parse_or.simps)
qed

text \<open>One more round of a loop.\<close>

lemma operator_loop_step:
  assumes "consumes st (t # us) st2" "tok_kind t = (if both then AAnd else AOr)" "left st \<le> k" "left st2 < left st"
    "\<And>st1. next_token (snd st) = Inr st1 \<Longrightarrow> consumes st1 us st2 \<Longrightarrow> operand st1 = Inr (r, st2)" "auth_logical l r both = Inr w"
  shows "\<exists>j. operator_loop operand both k l st = operator_loop operand both j w st2 \<and> left st2 \<le> j"
proof -
  obtain st1 where st1: "next_token (snd st) = Inr st1" "consumes st1 us st2" using assms(1) by (auto split: sum.splits)
  obtain j where j: "k = Suc j" using assms(3,4) by (cases k) auto
  have "kind st = (if both then AAnd else AOr)" using assms(1,2) by (simp add: kind_def)
  then have "operator_loop operand both k l st = operator_loop operand both j w st2"
    unfolding j operator_loop.simps [of operand both "Suc j" l st]
    using st1 assms(5) [OF st1] assms(6) by (simp add: advance_ignoring_def beside_def)
  then show ?thesis using assms(3,4) j by auto
qed

lemma consumes_split:
  assumes "consumes st (ts @ t # us) st'"
  obtains st1 where "consumes st ts st1" "consumes st1 (t # us) st'" "kind st1 = tok_kind t"
  using assms by (auto simp: consumes_append kind_def simp del: split_paired_Ex)

lemma consumes_Cons:
  assumes "consumes st (t # us) st'"
  obtains st1 where "next_token (snd st) = Inr st1" "consumes st1 us st'" "kind st = tok_kind t" "fst st = t"
  using assms by (auto simp: kind_def split: sum.splits)

lemma consumes_left_Cons:
  assumes "consumes st (t # us) st'" "tok_kind t \<noteq> AEof" "next_token (snd st) = Inr st1"
  shows "left st1 < left st"
  using assms advance_left [of VNil st st1] by (simp add: advance_Inr kind_def)

lemma grammar_starts:
  "primary e ts \<Longrightarrow> tok_kind (hd ts) \<noteq> ARBracket \<and> tok_kind (hd ts) \<noteq> ANot" "unary e ts \<Longrightarrow> tok_kind (hd ts) \<noteq> ARBracket"
  "comparison e ts \<Longrightarrow> tok_kind (hd ts) \<noteq> ARBracket" "conjunction e ts \<Longrightarrow> tok_kind (hd ts) \<noteq> ARBracket"
  "disjunction e ts \<Longrightarrow> tok_kind (hd ts) \<noteq> ARBracket" "items es ts \<Longrightarrow> tok_kind (hd ts) \<noteq> ARBracket"
  by (induction rule: grammar_inducts) (auto simp: grammar_tokens hd_append)

section \<open>The rules\<close>

lemma reads_atom:
  assumes "\<And>st st' m. fst st = t \<Longrightarrow> next_token (snd st) = Inr st' \<Longrightarrow> kind st' \<in> follow_unary \<Longrightarrow>
    parse_primary cx (parse_or cx m) m st = beside VNil (res_bind (eval (resolver cx) e) (\<lambda>v. Inr (v, st')))"
  shows "reads_primary cx e [t]"
  using assms unfolding reads_primary_def by (auto simp: beside_def split: sum.splits)

lemma reads_call:
  assumes "tok_kind f = AIdentifier" "tok_text f = ''contains''" "tok_kind a = ALParen" "tok_kind c = AComma" "tok_kind z = ARParen"
    "disjunction e1 ts1" "disjunction e2 ts2" "reads_disjunction cx e1 ts1" "reads_disjunction cx e2 ts2"
  shows "reads_primary cx (EContains e1 e2) (f # a # ts1 @ c # ts2 @ [z])"
  unfolding reads_primary_def
proof (intro allI impI)
  fix st st' v m
  assume c: "consumes st (f # a # ts1 @ c # ts2 @ [z]) st'" and ev: "eval (resolver cx) (EContains e1 e2) = Inr v"
    and m: "left st \<le> m"
  obtain st1 where 1: "next_token (snd st) = Inr st1" "consumes st1 (a # ts1 @ c # ts2 @ [z]) st'" "kind st = AIdentifier" "fst st = f"
    using consumes_Cons [OF c] assms(1) by metis
  obtain st2 where 2: "next_token (snd st1) = Inr st2" "consumes st2 (ts1 @ c # ts2 @ [z]) st'" "kind st1 = ALParen"
    using consumes_Cons [OF 1(2)] assms(3) by metis
  obtain st3 where 3: "consumes st2 ts1 st3" "consumes st3 (c # ts2 @ [z]) st'" "kind st3 = AComma"
    using consumes_split [OF 2(2)] assms(4) by metis
  obtain st4 where 4: "next_token (snd st3) = Inr st4" "consumes st4 (ts2 @ z # []) st'" using consumes_Cons [OF 3(2)] by metis
  obtain st5 where 5: "consumes st4 ts2 st5" "consumes st5 [z] st'" "kind st5 = ARParen"
    using consumes_split [OF 4(2)] assms(5) by metis
  obtain w1 w2 where w: "eval (resolver cx) e1 = Inr w1" "eval (resolver cx) e2 = Inr w2" "auth_contains w1 w2 = Inr v"
    using ev by (auto simp: bind_Inr)
  have lt: "left st1 < left st" "left st2 < left st1" "left st3 \<le> left st2" "left st4 < left st3"
    using consumes_left_Cons [OF c _ 1(1)] consumes_left_Cons [OF 1(2) _ 2(1)] consumes_left_Cons [OF 3(2) _ 4(1)]
      consumes_left [OF 3(1)] grammar_tokens(5) [OF assms(6)] assms(1,3,4) by auto
  have "parse_or cx m st2 = Inr (w1, st3)" "parse_or cx m st4 = Inr (w2, st5)"
    using reads_disjunctionD [OF assms(8) 3(1) w(1), of m] reads_disjunctionD [OF assms(9) 5(1) w(2), of m] lt m 3(3) 5(3)
    by (auto simp: follow_or_def)
  then have "parse_call (parse_or cx m) ''contains'' st1 = Inr (v, st')"
    using 2 3 4 5 w(3) by (auto simp: parse_call_def advance_def beside_def mask_def split: sum.splits)
  then show "parse_primary cx (parse_or cx m) m st = Inr (v, st')"
    using 1 2 assms(2) by (simp add: parse_primary_def advance_def beside_def)
qed

lemma reads_paren:
  assumes "tok_kind a = ALParen" "tok_kind z = ARParen" "disjunction e ts" "reads_disjunction cx e ts"
  shows "reads_primary cx e (a # ts @ [z])"
  unfolding reads_primary_def
proof (intro allI impI)
  fix st st' v m
  assume c: "consumes st (a # ts @ [z]) st'" and ev: "eval (resolver cx) e = Inr v" and m: "left st \<le> m"
  obtain st1 where 1: "next_token (snd st) = Inr st1" "consumes st1 (ts @ z # []) st'" "kind st = ALParen" "fst st = a"
    using consumes_Cons [OF c] assms(1) by metis
  obtain st2 where 2: "consumes st1 ts st2" "consumes st2 [z] st'" "kind st2 = ARParen" using consumes_split [OF 1(2)] assms(2) by metis
  have "left st1 < left st" using consumes_left_Cons [OF c _ 1(1)] assms(1) by simp
  then have "parse_or cx m st1 = Inr (v, st2)"
    using reads_disjunctionD [OF assms(4) 2(1) ev, of m] m 2(3) by (simp add: follow_or_def)
  then show "parse_primary cx (parse_or cx m) m st = Inr (v, st')"
    using 1 2 by (auto simp: parse_primary_def advance_def beside_def mask_def split: sum.splits)
qed

lemma reads_empty: "tok_kind a = ALBracket \<Longrightarrow> tok_kind z = ARBracket \<Longrightarrow> reads_primary cx (EList []) [a, z]"
  unfolding reads_primary_def
proof (intro allI impI)
  fix st st' v m
  assume "tok_kind a = ALBracket" "tok_kind z = ARBracket" and c: "consumes st [a, z] st'" and "eval (resolver cx) (EList []) = Inr v"
  then have v: "v = VSlice ''interface {}'' []" and k: "kind st = ALBracket" by (simp_all add: kind_def)
  obtain st1 where 1: "next_token (snd st) = Inr st1" "consumes st1 [z] st'" using consumes_Cons [OF c] by metis
  then obtain "next_token (snd st1) = Inr st'" "kind st1 = ARBracket"
    using \<open>tok_kind z = ARBracket\<close> by (auto simp: kind_def split: sum.splits)
  then show "parse_primary cx (parse_or cx m) m st = Inr (v, st')"
    using v k 1(1) by (simp add: parse_primary_def parse_list_def advance_def beside_def)
qed

lemma reads_list:
  assumes "tok_kind a = ALBracket" "tok_kind z = ARBracket" "items es ts" "reads_items cx es ts"
  shows "reads_primary cx (EList es) (a # ts @ [z])"
  unfolding reads_primary_def
proof (intro allI impI)
  fix st st' v m
  assume c: "consumes st (a # ts @ [z]) st'" and ev: "eval (resolver cx) (EList es) = Inr v" and m: "left st \<le> m"
  obtain st1 where 1: "next_token (snd st) = Inr st1" "consumes st1 (ts @ z # []) st'" "kind st = ALBracket" "fst st = a"
    using consumes_Cons [OF c] assms(1) by metis
  obtain st2 where 2: "consumes st1 ts st2" "consumes st2 [z] st'" "kind st2 = ARBracket" using consumes_split [OF 1(2)] assms(2) by metis
  obtain ws where ws: "eval_list (resolver cx) es = Inr ws" "v = VSlice ''interface {}'' ws" using ev by (auto simp: bind_Inr)
  have "left st1 < left st" using consumes_left_Cons [OF c _ 1(1)] assms(1) by simp
  moreover have "next_token (snd st2) = Inr st'" using 2(2) by (auto split: sum.splits)
  ultimately have "list_loop (parse_or cx m) m [] st1 = Inr (v, st')"
    using reads_itemsD [OF assms(4) 2(1) ws(1) 2(3), of st' m m "[]"] ws(2) m by simp
  moreover have "kind st1 \<noteq> ARBracket"
    using 2(1) grammar_tokens(6) [OF assms(3)] grammar_starts(6) [OF assms(3)] by (cases ts) (auto simp: kind_def)
  ultimately show "parse_primary cx (parse_or cx m) m st = Inr (v, st')"
    using 1 by (simp add: parse_primary_def parse_list_def advance_def beside_def)
qed

lemma reads_u_primary:
  assumes "primary e ts" "reads_primary cx e ts"
  shows "reads_unary cx e ts"
  unfolding reads_unary_def
proof (intro allI impI)
  fix st st' v m n
  assume c: "consumes st ts st'" and "eval (resolver cx) e = Inr v" "kind st' \<in> follow_unary" "left st \<le> m"
  then have "parse_primary cx (parse_or cx m) m st = Inr (v, st')" using assms(2) unfolding reads_primary_def by blast
  moreover have "kind st \<noteq> ANot"
    using c grammar_tokens(1) [OF assms(1)] grammar_starts(1) [OF assms(1)] by (cases ts) (auto simp: kind_def)
  ultimately show "parse_unary cx (parse_or cx m) m n st = Inr (v, st')" by (simp add: parse_unary.simps)
qed

lemma reads_not:
  assumes "tok_kind t = ANot" "reads_unary cx e ts"
  shows "reads_unary cx (ENot e) (t # ts)"
  unfolding reads_unary_def
proof (intro allI impI)
  fix st st' v m n
  assume c: "consumes st (t # ts) st'" and ev: "eval (resolver cx) (ENot e) = Inr v" and f: "kind st' \<in> follow_unary"
    and m: "left st \<le> m" "left st \<le> n"
  obtain st1 where 1: "next_token (snd st) = Inr st1" "consumes st1 ts st'" "kind st = ANot" using consumes_Cons [OF c] assms(1) by metis
  obtain w where w: "eval (resolver cx) e = Inr w" "eval_not w = Inr v" using ev by (auto simp: bind_Inr)
  have lt: "left st1 < left st" using consumes_left_Cons [OF c _ 1(1)] assms(1) by simp
  obtain k where k: "n = Suc k" using lt m(2) by (cases n) auto
  have "parse_unary cx (parse_or cx m) m k st1 = Inr (w, st')"
    using reads_unaryD [OF assms(2) 1(2) w(1) f, of m k] lt m k by simp
  then have "\<exists>w. parse_unary cx (parse_or cx m) m k st1 = Inr (w, st') \<and> eval_not w = Inr v" using w(2) by blast
  note res = not_result_Inr [THEN iffD2, OF this]
  show "parse_unary cx (parse_or cx m) m n st = Inr (v, st')"
    unfolding k parse_unary.simps [of cx _ m "Suc k" st] using 1 res by (simp add: advance_def beside_def)
qed

lemma reads_c_unary: "reads_unary cx e ts \<Longrightarrow> reads_comparison cx e ts"
  unfolding reads_comparison_def
proof (intro allI impI)
  fix st st' v m
  assume r: "reads_unary cx e ts" and c: "consumes st ts st'" "eval (resolver cx) e = Inr v" and f: "kind st' \<in> follow_comparison"
    and m: "left st \<le> m"
  have "parse_unary cx (parse_or cx m) m m st = Inr (v, st')"
    using reads_unaryD [OF r c, of m m] m f by (simp add: follow_unary_def)
  moreover have "\<not> comparison_operator (kind st')" using f by (auto simp: follow_defs)
  ultimately show "parse_comparison cx (parse_or cx m) m st = Inr (v, st')" by (simp add: parse_comparison_def)
qed

lemma reads_c_binary:
  assumes "unary e1 ts1" "comparison_operator (tok_kind t)" "reads_unary cx e1 ts1" "reads_unary cx e2 ts2"
  shows "reads_comparison cx (ECompare (tok_kind t) e1 e2) (ts1 @ t # ts2)"
  unfolding reads_comparison_def
proof (intro allI impI)
  fix st st' v m
  assume c: "consumes st (ts1 @ t # ts2) st'" and ev: "eval (resolver cx) (ECompare (tok_kind t) e1 e2) = Inr v"
    and f: "kind st' \<in> follow_comparison" and m: "left st \<le> m"
  obtain st1 where 1: "consumes st ts1 st1" "consumes st1 (t # ts2) st'" "kind st1 = tok_kind t" using consumes_split [OF c] by metis
  obtain st2 where 2: "next_token (snd st1) = Inr st2" "consumes st2 ts2 st'" using consumes_Cons [OF 1(2)] by metis
  obtain w1 w2 where w: "eval (resolver cx) e1 = Inr w1" "eval (resolver cx) e2 = Inr w2" "auth_compare w1 w2 (tok_kind t) = Inr v"
    using ev by (auto simp: bind_Inr)
  have lt: "left st1 \<le> left st" "left st2 < left st1"
    using consumes_left [OF 1(1)] grammar_tokens(2) [OF assms(1)] consumes_left_Cons [OF 1(2) comparison_operator_not_eof [OF assms(2)] 2(1)]
    by auto
  have "kind st1 \<in> follow_unary" "kind st' \<in> follow_unary" using assms(2) 1(3) f by (auto simp: follow_unary_def)
  then have "parse_unary cx (parse_or cx m) m m st = Inr (w1, st1)" "parse_unary cx (parse_or cx m) m m st2 = Inr (w2, st')"
    using reads_unaryD [OF assms(3) 1(1) w(1), of m m] reads_unaryD [OF assms(4) 2(2) w(2), of m m] lt m by simp_all
  then show "parse_comparison cx (parse_or cx m) m st = Inr (v, st')"
    using assms(2) 1(3) 2(1) w(3) by (simp add: parse_comparison_def advance_def beside_def)
qed

lemma reads_a_comparison: "comparison e ts \<Longrightarrow> reads_comparison cx e ts \<Longrightarrow> reads_conjunction cx e ts"
  unfolding reads_conjunction_def
proof (intro allI impI)
  fix st st' v m
  assume g: "comparison e ts" and r: "reads_comparison cx e ts" and c: "consumes st ts st'" "eval (resolver cx) e = Inr v"
    "kind st' \<in> follow_comparison" and m: "left st \<le> m"
  have "parse_comparison cx (parse_or cx m) m st = Inr (v, st')" using r c m unfolding reads_comparison_def by blast
  moreover have "left st' \<le> m" using consumes_left [OF c(1)] grammar_tokens(3) [OF g] m by auto
  ultimately show "\<exists>k. parse_and cx (parse_or cx m) m st = operator_loop (parse_comparison cx (parse_or cx m) m) True k v st' \<and> left st' \<le> k"
    by (auto simp: parse_and_def)
qed

lemma reads_o_conjunction: "conjunction e ts \<Longrightarrow> reads_conjunction cx e ts \<Longrightarrow> reads_disjunction cx e ts"
  unfolding reads_disjunction_def
proof (intro allI impI)
  fix st st' v m
  assume g: "conjunction e ts" and r: "reads_conjunction cx e ts" and c: "consumes st ts st'" "eval (resolver cx) e = Inr v"
    "kind st' \<in> follow_and" and m: "left st \<le> m"
  have "parse_and cx (parse_or cx m) m st = Inr (v, st')" by (rule reads_conjunctionD [OF r c m])
  moreover have "left st' \<le> m" using consumes_left [OF c(1)] grammar_tokens(4) [OF g] m by auto
  ultimately show "\<exists>k. parse_or cx (Suc m) st = operator_loop (parse_and cx (parse_or cx m) m) False k v st' \<and> left st' \<le> k"
    by auto
qed

lemma reads_and:
  assumes "tok_kind t = AAnd" "conjunction e1 ts1" "comparison e2 ts2" "reads_conjunction cx e1 ts1" "reads_comparison cx e2 ts2"
  shows "reads_conjunction cx (ELogical True e1 e2) (ts1 @ t # ts2)"
  unfolding reads_conjunction_def
proof (intro allI impI)
  fix st st' v m
  assume c: "consumes st (ts1 @ t # ts2) st'" and ev: "eval (resolver cx) (ELogical True e1 e2) = Inr v"
    and f: "kind st' \<in> follow_comparison" and m: "left st \<le> m"
  obtain st1 where 1: "consumes st ts1 st1" "consumes st1 (t # ts2) st'" "kind st1 = AAnd" using consumes_split [OF c] assms(1) by metis
  obtain w1 w2 where w: "eval (resolver cx) e1 = Inr w1" "eval (resolver cx) e2 = Inr w2" "auth_logical w1 w2 True = Inr v"
    using ev by (auto simp: bind_Inr)
  obtain k where k: "parse_and cx (parse_or cx m) m st = operator_loop (parse_comparison cx (parse_or cx m) m) True k w1 st1" "left st1 \<le> k"
    using assms(4) 1(1,3) w(1) m unfolding reads_conjunction_def follow_comparison_def by blast
  have lt: "left st1 \<le> left st" "left st' < left st1"
    using consumes_left [OF 1(1)] grammar_tokens(4) [OF assms(2)] consumes_left [OF 1(2)] grammar_tokens(3) [OF assms(3)] assms(1) by auto
  have operand: "parse_comparison cx (parse_or cx m) m st2 = Inr (w2, st')"
    if "next_token (snd st1) = Inr st2" "consumes st2 ts2 st'" for st2
  proof -
    have "left st2 \<le> m" using consumes_left_Cons [OF 1(2) _ that(1)] assms(1) lt m by simp
    then show ?thesis using assms(5) that(2) w(2) f unfolding reads_comparison_def by blast
  qed
  obtain j where "operator_loop (parse_comparison cx (parse_or cx m) m) True k w1 st1
      = operator_loop (parse_comparison cx (parse_or cx m) m) True j v st'" "left st' \<le> j"
    using operator_loop_step [where both = True and operand = "parse_comparison cx (parse_or cx m) m", OF 1(2) _ k(2) lt(2) operand w(3)] assms(1) by auto
  then show "\<exists>k. parse_and cx (parse_or cx m) m st = operator_loop (parse_comparison cx (parse_or cx m) m) True k v st' \<and> left st' \<le> k"
    using k(1) by auto
qed

lemma reads_or:
  assumes "tok_kind t = AOr" "disjunction e1 ts1" "conjunction e2 ts2" "reads_disjunction cx e1 ts1" "reads_conjunction cx e2 ts2"
  shows "reads_disjunction cx (ELogical False e1 e2) (ts1 @ t # ts2)"
  unfolding reads_disjunction_def
proof (intro allI impI)
  fix st st' v m
  assume c: "consumes st (ts1 @ t # ts2) st'" and ev: "eval (resolver cx) (ELogical False e1 e2) = Inr v"
    and f: "kind st' \<in> follow_and" and m: "left st \<le> m"
  obtain st1 where 1: "consumes st ts1 st1" "consumes st1 (t # ts2) st'" "kind st1 = AOr" using consumes_split [OF c] assms(1) by metis
  obtain w1 w2 where w: "eval (resolver cx) e1 = Inr w1" "eval (resolver cx) e2 = Inr w2" "auth_logical w1 w2 False = Inr v"
    using ev by (auto simp: bind_Inr)
  obtain k where k: "parse_or cx (Suc m) st = operator_loop (parse_and cx (parse_or cx m) m) False k w1 st1" "left st1 \<le> k"
    using assms(4) 1(1,3) w(1) m unfolding reads_disjunction_def follow_and_def by blast
  have lt: "left st1 \<le> left st" "left st' < left st1"
    using consumes_left [OF 1(1)] grammar_tokens(5) [OF assms(2)] consumes_left [OF 1(2)] grammar_tokens(4) [OF assms(3)] assms(1) by auto
  have operand: "parse_and cx (parse_or cx m) m st2 = Inr (w2, st')"
    if "next_token (snd st1) = Inr st2" "consumes st2 ts2 st'" for st2
    using reads_conjunctionD [OF assms(5) that(2) w(2) f] consumes_left_Cons [OF 1(2) _ that(1)] assms(1) lt m by simp
  obtain j where "operator_loop (parse_and cx (parse_or cx m) m) False k w1 st1
      = operator_loop (parse_and cx (parse_or cx m) m) False j v st'" "left st' \<le> j"
    using operator_loop_step [where both = False and operand = "parse_and cx (parse_or cx m) m", OF 1(2) _ k(2) lt(2) operand w(3)] assms(1) by auto
  then show "\<exists>k. parse_or cx (Suc m) st = operator_loop (parse_and cx (parse_or cx m) m) False k v st' \<and> left st' \<le> k"
    using k(1) by auto
qed

lemma reads_one:
  assumes "reads_disjunction cx e ts"
  shows "reads_items cx [e] ts"
  unfolding reads_items_def
proof (intro allI impI)
  fix st st' st2 vs ws m n
  assume c: "consumes st ts st'" and ev: "eval_list (resolver cx) [e] = Inr ws" and k: "kind st' = ARBracket"
    and nt: "next_token (snd st') = Inr st2" and m: "left st < m" "left st < n"
  obtain w where w: "eval (resolver cx) e = Inr w" "ws = [w]" using ev by (auto simp: bind_Inr)
  have "parse_or cx m st = Inr (w, st')" using reads_disjunctionD [OF assms c w(1) _ m(1)] k by (simp add: follow_or_def)
  then show "list_loop (parse_or cx m) n vs st = Inr (VSlice ''interface {}'' (vs @ ws), st2)"
    using m(2) k nt w(2) by (cases n) (simp_all add: advance_def beside_def)
qed

lemma reads_more:
  assumes "disjunction e ts" "tok_kind c = AComma" "reads_disjunction cx e ts" "reads_items cx es us"
  shows "reads_items cx (e # es) (ts @ c # us)"
  unfolding reads_items_def
proof (intro allI impI)
  fix st st' st2 vs ws m n
  assume c: "consumes st (ts @ c # us) st'" and ev: "eval_list (resolver cx) (e # es) = Inr ws" and k: "kind st' = ARBracket"
    and nt: "next_token (snd st') = Inr st2" and m: "left st < m" "left st < n"
  obtain st1 where 1: "consumes st ts st1" "consumes st1 (c # us) st'" "kind st1 = AComma" using consumes_split [OF c] assms(2) by metis
  obtain st3 where 3: "next_token (snd st1) = Inr st3" "consumes st3 us st'" using consumes_Cons [OF 1(2)] by metis
  obtain w ws' where w: "eval (resolver cx) e = Inr w" "eval_list (resolver cx) es = Inr ws'" "ws = w # ws'"
    using ev by (auto simp: bind_Inr)
  have "parse_or cx m st = Inr (w, st1)" using reads_disjunctionD [OF assms(3) 1(1) w(1) _ m(1)] 1(3) by (simp add: follow_or_def)
  moreover have "left st3 < left st1" "left st1 \<le> left st"
    using consumes_left_Cons [OF 1(2) _ 3(1)] assms(2) consumes_left [OF 1(1)] grammar_tokens(5) [OF assms(1)] by auto
  moreover obtain n' where "n = Suc n'" using m(2) by (cases n) auto
  moreover have "list_loop (parse_or cx m) n' (vs @ [w]) st3 = Inr (VSlice ''interface {}'' ((vs @ [w]) @ ws'), st2)"
    using calculation(2-) m by (intro reads_itemsD [OF assms(4) 3(2) w(2) k nt]) simp_all
  ultimately show "list_loop (parse_or cx m) n vs st = Inr (VSlice ''interface {}'' (vs @ ws), st2)"
    using 1(3) 3(1) w(3) by (simp add: advance_def beside_def)
qed

lemma not_paren: "kind st \<in> follow_unary \<Longrightarrow> kind st \<noteq> ALParen"
  by (auto simp: follow_defs)

lemma reads_all:
  "primary e ts \<Longrightarrow> reads_primary cx e ts" "unary e ts \<Longrightarrow> reads_unary cx e ts" "comparison e ts \<Longrightarrow> reads_comparison cx e ts"
  "conjunction e ts \<Longrightarrow> reads_conjunction cx e ts" "disjunction e ts \<Longrightarrow> reads_disjunction cx e ts" "items es ts \<Longrightarrow> reads_items cx es ts"
proof (induction rule: grammar_inducts)
  case (p_string t s)
  then show ?case by (intro reads_atom) (simp add: parse_primary_def kind_def advance_def beside_def)
next
  case (p_number t r)
  then show ?case by (intro reads_atom) (simp add: parse_primary_def kind_def advance_def beside_def)
next
  case (p_true t)
  then show ?case by (intro reads_atom) (simp add: parse_primary_def kind_def advance_def beside_def)
next
  case (p_false t)
  then show ?case by (intro reads_atom) (simp add: parse_primary_def kind_def advance_def beside_def)
next
  case (p_null t)
  then show ?case by (intro reads_atom) (simp add: parse_primary_def kind_def advance_def beside_def)
next
  case (p_var t)
  show ?case
  proof (rule reads_atom)
    fix st st' m
    assume "fst st = t" "next_token (snd st) = Inr st'" "kind st' \<in> follow_unary"
    then show "parse_primary cx (parse_or cx m) m st = beside VNil (res_bind (eval (resolver cx) (EVar (tok_text t))) (\<lambda>v. Inr (v, st')))"
      using p_var not_paren [of st'] kind_def [of st]
      by (cases "resolver cx (tok_text t)") (auto simp: parse_primary_def Let_def advance_def beside_def resolver_def split: if_splits)
  qed
qed (auto intro: reads_call reads_paren reads_empty reads_list reads_u_primary reads_not reads_c_unary reads_c_binary
    reads_a_comparison reads_o_conjunction reads_and reads_or reads_one reads_more)

section \<open>The parser and the language\<close>

text \<open>The tokens of a source text, and the expressions they spell.\<close>

definition lexes :: "string \<Rightarrow> auth_token list \<Rightarrow> bool" where
  "lexes source ts \<longleftrightarrow> trim_space source \<noteq> [] \<and> (\<forall>t\<in>set ts. tok_kind t \<noteq> AEof)
     \<and> (\<exists>st st'. next_token (trim_space source) = Inr st \<and> consumes st ts st' \<and> kind st' = AEof)"

definition spells :: "string \<Rightarrow> expr \<Rightarrow> bool" where
  "spells source e \<longleftrightarrow> (\<exists>ts. lexes source ts \<and> disjunction e ts)"

lemma consumes_eof_unique:
  "consumes st ts st1 \<Longrightarrow> kind st1 = AEof \<Longrightarrow> \<forall>t\<in>set ts. tok_kind t \<noteq> AEof \<Longrightarrow>
   consumes st us st2 \<Longrightarrow> kind st2 = AEof \<Longrightarrow> \<forall>t\<in>set us. tok_kind t \<noteq> AEof \<Longrightarrow> ts = us"
proof (induction st ts st1 arbitrary: us rule: consumes.induct)
  case (1 st st1)
  then show ?case by (cases us) (auto simp: kind_def)
next
  case (2 st t ts st1)
  then show ?case by (cases us) (auto simp: kind_def split: sum.splits)
qed

lemma lexes_unique: "lexes source ts \<Longrightarrow> lexes source us \<Longrightarrow> ts = us"
  unfolding lexes_def using consumes_eof_unique by (metis Inr_inject)

lemma parse_expression_iff:
  "parse_expression cx source = Inr v \<longleftrightarrow> (\<exists>e. spells source e \<and> eval (resolver cx) e = Inr v)"
proof
  assume run: "parse_expression cx source = Inr v"
  then obtain st where st0: "trim_space source \<noteq> []" "next_token (trim_space source) = Inr st"
    by (auto simp: parse_expression_def Let_def bind_Inr split: if_splits)
  obtain st' where st: "parse_or cx (length (trim_space source) + 1) st = Inr (v, st')" "kind st' = AEof"
    using run st0 by (cases "parse_or cx (length (trim_space source) + 1) st")
      (auto simp: parse_expression_def Let_def simp del: parse_or.simps split: if_splits)
  obtain e ts where "consumes st ts st'" "disjunction e ts" "eval (resolver cx) e = Inr v"
    using soundE [OF parse_or_sound st(1)] by blast
  then show "\<exists>e. spells source e \<and> eval (resolver cx) e = Inr v"
    using st0 st grammar_tokens(5) [of e ts] unfolding spells_def lexes_def by blast
next
  assume "\<exists>e. spells source e \<and> eval (resolver cx) e = Inr v"
  then obtain e ts st st' where e: "trim_space source \<noteq> []" "next_token (trim_space source) = Inr st" "consumes st ts st'"
    "kind st' = AEof" "disjunction e ts" "eval (resolver cx) e = Inr v"
    unfolding spells_def lexes_def by blast
  have "left st \<le> length (trim_space source)"
    using next_token_length [of "trim_space source" "fst st" "snd st"] e(2) by (auto simp: left_def kind_def)
  then have "parse_or cx (length (trim_space source) + 1) st = Inr (v, st')"
    using reads_disjunctionD [OF reads_all(5) [OF e(5)] e(3,6)] e(4) by (simp add: follow_or_def del: parse_or.simps)
  then show "parse_expression cx source = Inr v"
    using e(1,2,4) by (simp add: parse_expression_def Let_def del: parse_or.simps)
qed

text \<open>The variables of an expression are among the identifiers of its tokens, and a value needs all of them.\<close>

fun variables_of :: "expr \<Rightarrow> string set" where
  "variables_of (EVar x) = {x}"
| "variables_of (EContains a b) = variables_of a \<union> variables_of b"
| "variables_of (EList es) = (\<Union>e\<in>set es. variables_of e)"
| "variables_of (ENot a) = variables_of a"
| "variables_of (ECompare op a b) = variables_of a \<union> variables_of b"
| "variables_of (ELogical both a b) = variables_of a \<union> variables_of b"
| "variables_of e = {}"

lemma identifiers_are_variables:
  "primary e ts \<Longrightarrow> t \<in> set ts \<Longrightarrow> tok_kind t = AIdentifier \<Longrightarrow> tok_text t \<in> insert ''contains'' keywords_of \<union> variables_of e"
  "unary e ts \<Longrightarrow> t \<in> set ts \<Longrightarrow> tok_kind t = AIdentifier \<Longrightarrow> tok_text t \<in> insert ''contains'' keywords_of \<union> variables_of e"
  "comparison e ts \<Longrightarrow> t \<in> set ts \<Longrightarrow> tok_kind t = AIdentifier \<Longrightarrow> tok_text t \<in> insert ''contains'' keywords_of \<union> variables_of e"
  "conjunction e ts \<Longrightarrow> t \<in> set ts \<Longrightarrow> tok_kind t = AIdentifier \<Longrightarrow> tok_text t \<in> insert ''contains'' keywords_of \<union> variables_of e"
  "disjunction e ts \<Longrightarrow> t \<in> set ts \<Longrightarrow> tok_kind t = AIdentifier \<Longrightarrow> tok_text t \<in> insert ''contains'' keywords_of \<union> variables_of e"
  "items es ts \<Longrightarrow> t \<in> set ts \<Longrightarrow> tok_kind t = AIdentifier \<Longrightarrow>
     tok_text t \<in> insert ''contains'' keywords_of \<union> (\<Union>e\<in>set es. variables_of e)"
  by (induction rule: grammar_inducts) (auto simp: comparison_operator_def)

lemma eval_needs_variables:
  "eval env e = Inr v \<Longrightarrow> x \<in> variables_of e \<Longrightarrow> \<exists>w. env x = Inr w"
  "eval_list env es = Inr vs \<Longrightarrow> x \<in> (\<Union>e\<in>set es. variables_of e) \<Longrightarrow> \<exists>w. env x = Inr w"
  by (induction env e and env es arbitrary: v and vs rule: eval_eval_list.induct) (auto simp: bind_Inr)

end
