(* ===== verification/AuthTypes.thy ===== *)
theory AuthTypes
  imports AuthComplete
begin

text \<open>
  What the two static checks of authorization rules are worth: the check against representative
  values predicts that evaluation succeeds on every values of the same types, and the check without
  values accepts every rule without list literals that evaluates for some values.
\<close>

section \<open>Values of the same type\<close>

inductive same :: "gval \<Rightarrow> gval \<Rightarrow> bool" where
  same_nil: "same VNil VNil"
| same_bool: "same (VBool a) (VBool b)"
| same_string: "same (VString s) (VString t)"
| same_number: "number_value v = Some a \<Longrightarrow> number_value w = Some b \<Longrightarrow> same v w"
| same_empty: "same (VSlice t []) (VSlice t [])"
| same_slice: "xs \<noteq> [] \<Longrightarrow> (\<forall>x\<in>set xs. \<forall>y\<in>set ys. same x y) \<Longrightarrow> same (VSlice t xs) (VSlice t ys)"
| same_map: "(\<forall>k v. map_of m k = Some v \<longrightarrow> (\<exists>w. map_of n k = Some w \<and> same v w)) \<Longrightarrow> same (VMap m) (VMap n)"

lemma number_value_other [simp]:
  "number_value VNil = None" "number_value (VBool a) = None" "number_value (VString s) = None"
  "number_value (VSlice t xs) = None" "number_value (VMap m) = None" "number_value VUnknown = None"
  by (simp_all add: number_value_def)

inductive_simps same_simps:
  "same VNil w" "same (VBool a) w" "same (VString a) w" "same VUnknown w" "same v VUnknown" "same (VMap m) w" "same (VSlice t xs) w"

lemma same_number_value: "same v w \<Longrightarrow> (number_value v = None) = (number_value w = None)"
  by (cases rule: same.cases) auto

lemma same_type_of: "same v w \<Longrightarrow> number_value v = None \<Longrightarrow> type_of v = type_of w"
  by (cases rule: same.cases) (auto simp: type_of_def)

lemma same_is_nil: "same v w \<Longrightarrow> v = VNil \<longleftrightarrow> w = VNil"
  by (cases rule: same.cases) auto

lemma same_trans: "same u v \<Longrightarrow> same v w \<Longrightarrow> same u w"
proof (induction arbitrary: w rule: same.induct)
  case (same_number v a w' b)
  then show ?case using same_number_value [OF same_number(3)] same.same_number by (metis not_Some_eq)
next
  case (same_slice xs ys t)
  then obtain zs where zs: "w = VSlice t zs" "ys = [] \<and> zs = [] \<or> ys \<noteq> [] \<and> (\<forall>y\<in>set ys. \<forall>z\<in>set zs. same y z)"
    by (auto simp: same_simps)
  have "same x z" if xz: "x \<in> set xs" "z \<in> set zs" for x z
  proof -
    obtain y where "y \<in> set ys" using zs(2) xz(2) by (cases ys) auto
    then show ?thesis using same_slice.IH zs(2) xz by auto
  qed
  then show ?case using zs(1) same_slice.hyps same.same_slice by blast
next
  case (same_map m n)
  then obtain n' where n': "w = VMap n'" "\<forall>k v. map_of n k = Some v \<longrightarrow> (\<exists>w. map_of n' k = Some w \<and> same v w)"
    by (auto simp: same_simps)
  then show ?case using same_map.IH by (auto intro!: same.same_map) (metis)
qed (auto simp: same_simps)

section \<open>Operations on values of the same type\<close>

definition comparable :: "gval \<Rightarrow> gval \<Rightarrow> bool" where
  "comparable a b = snd (equal_values a b)"

lemma comparable_iff:
  "comparable a b \<longleftrightarrow> number_value a \<noteq> None \<and> number_value b \<noteq> None \<or> a = VNil \<or> b = VNil \<or> type_of a = type_of b"
  by (auto simp: comparable_def equal_values_def split: option.splits)

text \<open>A value that has a type and is not a number has no number type.\<close>

lemma type_of_number: "number_value v \<noteq> None \<Longrightarrow> type_of v \<in> {''*big.Rat'', ''json.Number'', ''int'', ''int64'', ''uint64'', ''float64''}"
  by (cases v) (auto simp: type_of_def)

lemma type_of_other:
  "same v w \<Longrightarrow> number_value v = None \<Longrightarrow> type_of v \<notin> {''*big.Rat'', ''json.Number'', ''int'', ''int64'', ''uint64'', ''float64''}"
  by (cases rule: same.cases) (auto simp: type_of_def)

lemma comparable_same:
  assumes "same a a'" "same b b'" "comparable a b"
  shows "comparable a' b'"
proof -
  consider "number_value a \<noteq> None" "number_value b \<noteq> None" | "number_value a = None" "number_value b = None"
    | "number_value a \<noteq> None" "number_value b = None" | "number_value a = None" "number_value b \<noteq> None" by blast
  then show ?thesis
  proof cases
    case 1
    then show ?thesis using same_number_value assms by (simp add: comparable_iff)
  next
    case 2
    then show ?thesis using assms same_type_of same_is_nil by (auto simp: comparable_iff)
  next
    case 3
    then have "b = VNil" using assms type_of_number type_of_other by (auto simp: comparable_iff) (metis)+
    then show ?thesis using assms(2) same_is_nil by (simp add: comparable_iff)
  next
    case 4
    then have "a = VNil" using assms type_of_number type_of_other by (auto simp: comparable_iff) (metis)+
    then show ?thesis using assms(1) same_is_nil by (simp add: comparable_iff)
  qed
qed

lemma auth_order_same:
  assumes "same a a'" "same b b'" "auth_order a b = Inr i"
  shows "\<exists>j. auth_order a' b' = Inr j"
proof (cases "number_value a \<noteq> None \<and> number_value b \<noteq> None")
  case True
  then obtain x y where "number_value a' = Some x" "number_value b' = Some y"
    using same_number_value [OF assms(1)] same_number_value [OF assms(2)] by auto
  then show ?thesis by (simp add: auth_order_def)
next
  case False
  then obtain s t where "a = VString s" "b = VString t"
    using assms(3) by (auto simp: auth_order_def split: option.splits gval.splits)
  then show ?thesis using assms(1,2) by (auto simp: same_simps auth_order_def)
qed

lemma auth_compare_same:
  assumes "same a a'" "same b b'" "auth_compare a b op = Inr v"
  shows "\<exists>w. auth_compare a' b' op = Inr w \<and> same v w"
proof -
  have unknown: "a \<noteq> VUnknown" "b \<noteq> VUnknown" "a' \<noteq> VUnknown" "b' \<noteq> VUnknown" using assms(1,2) by (auto simp: same_simps)
  then have cmp: "comparable a b" using assms(3) by (auto simp: auth_compare_def comparable_def split: prod.splits if_splits)
  then have cmp': "comparable a' b'" using comparable_same assms by blast
  have order: "\<exists>j. auth_order a' b' = Inr j" if ord: "op \<noteq> AEqual" "op \<noteq> ANotEqual"
    using assms(3) unknown ord auth_order_same [OF assms(1,2)]
    by (cases "auth_order a b") (auto simp: auth_compare_def split: prod.splits if_splits)
  have "\<exists>c. v = VBool c"
    using assms(3) unknown by (cases "auth_order a b") (auto simp: auth_compare_def split: prod.splits if_splits)
  moreover have "\<exists>d. auth_compare a' b' op = Inr (VBool d)"
    using unknown cmp' order by (auto simp: auth_compare_def comparable_def split: prod.splits)
  ultimately show ?thesis by (auto simp: same_simps)
qed

lemma contains_loop_comparable: "\<forall>x\<in>set xs. comparable x n \<Longrightarrow> \<exists>b. contains_loop xs n = Inr (VBool b)"
  by (induction xs) (auto simp: comparable_def split: prod.splits)

lemma contains_loop_bool: "contains_loop xs n = Inr v \<Longrightarrow> \<exists>b. v = VBool b"
  by (induction xs) (auto split: prod.splits if_splits)

lemma auth_contains_same:
  assumes "same c c'" "same n n'" "auth_contains c n = Inr v"
  shows "\<exists>w. auth_contains c' n' = Inr w \<and> same v w"
proof -
  obtain t xs where c: "c = VSlice t xs" "contains_loop xs n = Inr v"
    using assms(1,3) by (auto simp: auth_contains_def same_simps split: gval.splits)
  obtain ys where ys: "c' = VSlice t ys" "xs = [] \<and> ys = [] \<or> xs \<noteq> [] \<and> (\<forall>x\<in>set xs. \<forall>y\<in>set ys. same x y)"
    using assms(1) c(1) by (auto simp: same_simps)
  have "\<forall>y\<in>set ys. comparable y n'"
  proof (cases xs)
    case (Cons x xs')
    then have "comparable x n" using c(2) by (auto simp: comparable_def split: prod.splits if_splits)
    then show ?thesis using ys(2) Cons comparable_same [OF _ assms(2)] by auto
  qed (use ys in simp)
  then obtain b where "contains_loop ys n' = Inr (VBool b)" using contains_loop_comparable by blast
  then show ?thesis using contains_loop_bool [OF c(2)] ys(1) by (auto simp: auth_contains_def same_simps)
qed

lemma auth_logical_same:
  assumes "same a a'" "same b b'" "auth_logical a b both = Inr v"
  shows "\<exists>w. auth_logical a' b' both = Inr w \<and> same v w"
proof -
  obtain x y where "a = VBool x" "b = VBool y" "\<exists>c. v = VBool c"
    using assms by (auto simp: auth_logical_def same_simps split: gval.splits if_splits)
  then show ?thesis using assms(1,2) by (auto simp: auth_logical_def same_simps)
qed

lemma eval_not_same:
  assumes "same a a'" "eval_not a = Inr v"
  shows "\<exists>w. eval_not a' = Inr w \<and> same v w"
proof -
  obtain x where "a = VBool x" using assms by (cases a rule: gval.exhaust) (auto simp: eval_not_def same_simps)
  then show ?thesis using assms by (auto simp: eval_not_def same_simps)
qed

section \<open>The check against representative values\<close>

text \<open>Every list literal of an expression has elements of one type.\<close>

fun uniform_lists :: "(string \<Rightarrow> auth_error + gval) \<Rightarrow> expr \<Rightarrow> bool" where
  "uniform_lists env (EContains a b) \<longleftrightarrow> uniform_lists env a \<and> uniform_lists env b"
| "uniform_lists env (EList es) \<longleftrightarrow> (\<forall>e\<in>set es. uniform_lists env e) \<and>
     (\<forall>vs. eval_list env es = Inr vs \<longrightarrow> (\<forall>x\<in>set vs. \<forall>y\<in>set vs. same x y))"
| "uniform_lists env (ENot a) \<longleftrightarrow> uniform_lists env a"
| "uniform_lists env (ECompare op a b) \<longleftrightarrow> uniform_lists env a \<and> uniform_lists env b"
| "uniform_lists env (ELogical both a b) \<longleftrightarrow> uniform_lists env a \<and> uniform_lists env b"
| "uniform_lists env e \<longleftrightarrow> True"

lemma same_cross:
  assumes "list_all2 same vs ws" "\<forall>x\<in>set vs. \<forall>y\<in>set vs. same x y"
  shows "same (VSlice t vs) (VSlice t ws)"
proof (cases "vs = []")
  case True
  then show ?thesis using assms(1) by (simp add: same_simps)
next
  case False
  have "same x w" if xw: "x \<in> set vs" "w \<in> set ws" for x w
  proof -
    obtain i where "i < length ws" "w = ws ! i" using xw(2) by (auto simp: in_set_conv_nth)
    then have "vs ! i \<in> set vs" "same (vs ! i) w" using assms(1) by (auto simp: list_all2_conv_all_nth)
    then show ?thesis using same_trans assms(2) xw(1) by blast
  qed
  then show ?thesis using False same.same_slice by blast
qed

lemma eval_list_same:
  assumes "\<And>e v. e \<in> set es \<Longrightarrow> eval env e = Inr v \<Longrightarrow> \<exists>w. eval env' e = Inr w \<and> same v w" "eval_list env es = Inr vs"
  shows "\<exists>ws. eval_list env' es = Inr ws \<and> list_all2 same vs ws"
  using assms
proof (induction es arbitrary: vs)
  case (Cons e es)
  then obtain v vs' where v: "eval env e = Inr v" "eval_list env es = Inr vs'" "vs = v # vs'" by (auto simp: bind_Inr)
  moreover obtain w where "eval env' e = Inr w" "same v w" using Cons.prems(1) [of e v] v(1) by auto
  moreover obtain ws where "eval_list env' es = Inr ws" "list_all2 same vs' ws" using Cons v(2) by auto
  ultimately show ?case by (auto simp: bind_Inr)
qed simp

lemma eval_same:
  assumes env: "\<And>x v. env x = Inr v \<Longrightarrow> \<exists>w. env' x = Inr w \<and> same v w"
  shows "eval env e = Inr v \<Longrightarrow> uniform_lists env e \<Longrightarrow> \<exists>w. eval env' e = Inr w \<and> same v w"
proof (induction e arbitrary: v)
  case (ENumber r)
  then show ?case using same_number [of "VRat r" r "VRat r" r] by (auto simp: number_value_def)
next
  case (EVar x)
  then show ?case using env by simp
next
  case (EContains a b)
  then obtain x y where "eval env a = Inr x" "eval env b = Inr y" "auth_contains x y = Inr v" by (auto simp: bind_Inr)
  moreover from this EContains obtain x' y' where "eval env' a = Inr x'" "same x x'" "eval env' b = Inr y'" "same y y'" by auto
  ultimately show ?case using auth_contains_same [of x x' y y' v] by simp
next
  case (EList es)
  then obtain vs where vs: "eval_list env es = Inr vs" "v = VSlice ''interface {}'' vs" by (auto simp: bind_Inr)
  then obtain ws where "eval_list env' es = Inr ws" "list_all2 same vs ws"
    using eval_list_same [of es env env' vs] EList by auto
  then show ?case using vs EList.prems(2) same_cross by auto
next
  case (ENot a)
  then obtain x where "eval env a = Inr x" "eval_not x = Inr v" by (auto simp: bind_Inr)
  moreover from this ENot obtain x' where "eval env' a = Inr x'" "same x x'" by auto
  ultimately show ?case using eval_not_same [of x x' v] by simp
next
  case (ECompare op a b)
  then obtain x y where "eval env a = Inr x" "eval env b = Inr y" "auth_compare x y op = Inr v" by (auto simp: bind_Inr)
  moreover from this ECompare obtain x' y' where "eval env' a = Inr x'" "same x x'" "eval env' b = Inr y'" "same y y'" by auto
  ultimately show ?case using auth_compare_same [of x x' y y' op v] by simp
next
  case (ELogical both a b)
  then obtain x y where "eval env a = Inr x" "eval env b = Inr y" "auth_logical x y both = Inr v" by (auto simp: bind_Inr)
  moreover from this ELogical obtain x' y' where "eval env' a = Inr x'" "same x x'" "eval env' b = Inr y'" "same y y'" by auto
  ultimately show ?case using auth_logical_same [of x x' y y' both v] by simp
qed (auto simp: same_simps)

lemma resolve_parts_same:
  "same v v' \<Longrightarrow> resolve_parts path ps v = Inr u \<Longrightarrow> \<exists>w. resolve_parts path ps v' = Inr w \<and> same u w"
proof (induction path ps v arbitrary: v' rule: resolve_parts.induct)
  case (2 path p ps v)
  then obtain m x where m: "v = VMap m" "map_of m p = Some x" "resolve_parts path ps x = Inr u"
    by (auto split: gval.splits option.splits)
  then obtain n where n: "v' = VMap n" "\<forall>k v. map_of m k = Some v \<longrightarrow> (\<exists>w. map_of n k = Some w \<and> same v w)"
    using 2(2) by (auto simp: same_simps)
  then obtain y where "map_of n p = Some y" "same x y" using m(2) by blast
  then show ?case using 2(1) [of m x y] m n(1) by simp
qed simp

lemma resolve_variable_same:
  assumes "same (VMap vars) (VMap vars')" "resolve_variable vars x = Inr v"
  shows "\<exists>w. resolve_variable vars' x = Inr w \<and> same v w"
proof -
  obtain r p ps u where x: "split_on CHR ''.'' x = r # p # ps" "map_of vars r = Some u" "resolve_parts x (p # ps) u = Inr v"
    using assms(2) by (auto simp: resolve_variable_def simp del: resolve_parts.simps split: list.splits option.splits)
  then obtain u' where "map_of vars' r = Some u'" "same u u'" using assms(1) by (auto simp: same_simps)
  then show ?thesis using x resolve_parts_same [of u u'] by (simp add: resolve_variable_def del: resolve_parts.simps)
qed

section \<open>The check without values\<close>

fun list_free :: "expr \<Rightarrow> bool" where
  "list_free (EContains a b) \<longleftrightarrow> list_free a \<and> list_free b"
| "list_free (EList es) \<longleftrightarrow> False"
| "list_free (ENot a) \<longleftrightarrow> list_free a"
| "list_free (ECompare op a b) \<longleftrightarrow> list_free a \<and> list_free b"
| "list_free (ELogical both a b) \<longleftrightarrow> list_free a \<and> list_free b"
| "list_free e \<longleftrightarrow> True"

lemma no_bracket_list_free:
  "primary e ts \<Longrightarrow> \<forall>t\<in>set ts. tok_kind t \<noteq> ALBracket \<Longrightarrow> list_free e"
  "unary e ts \<Longrightarrow> \<forall>t\<in>set ts. tok_kind t \<noteq> ALBracket \<Longrightarrow> list_free e"
  "comparison e ts \<Longrightarrow> \<forall>t\<in>set ts. tok_kind t \<noteq> ALBracket \<Longrightarrow> list_free e"
  "conjunction e ts \<Longrightarrow> \<forall>t\<in>set ts. tok_kind t \<noteq> ALBracket \<Longrightarrow> list_free e"
  "disjunction e ts \<Longrightarrow> \<forall>t\<in>set ts. tok_kind t \<noteq> ALBracket \<Longrightarrow> list_free e"
  "items es ts \<Longrightarrow> \<forall>t\<in>set ts. tok_kind t \<noteq> ALBracket \<Longrightarrow> \<forall>e\<in>set es. list_free e"
  by (induction rule: grammar_inducts) auto

lemma list_free_uniform: "list_free e \<Longrightarrow> uniform_lists env e"
  by (induction e) auto

text \<open>The value computed without values is unknown or the value itself, and never a list.\<close>

definition approximates :: "gval \<Rightarrow> gval \<Rightarrow> bool" where
  "approximates a v \<longleftrightarrow> a = VUnknown \<or> a = v \<and> (\<forall>t xs. a \<noteq> VSlice t xs)"

lemma approximates_bool: "approximates a (VBool b) \<longleftrightarrow> a = VUnknown \<or> a = VBool b"
  by (auto simp: approximates_def)

lemma auth_compare_bool: "auth_compare a b op = Inr v \<Longrightarrow> v = VUnknown \<or> (\<exists>c. v = VBool c)"
  by (cases "auth_order a b") (auto simp: auth_compare_def split: prod.splits if_splits)

lemma auth_logical_bool: "auth_logical a b both = Inr v \<Longrightarrow> v = VUnknown \<or> (\<exists>c. v = VBool c)"
  by (auto simp: auth_logical_def split: gval.splits if_splits)

lemma auth_contains_bool: "auth_contains a b = Inr v \<Longrightarrow> v = VUnknown \<or> (\<exists>c. v = VBool c)"
  using contains_loop_bool by (auto simp: auth_contains_def split: gval.splits)

lemma eval_abstract:
  "list_free e \<Longrightarrow> eval env e = Inr v \<Longrightarrow> \<exists>a. eval (\<lambda>_. Inr VUnknown) e = Inr a \<and> approximates a v"
proof (induction e arbitrary: v)
  case (EContains a b)
  then obtain x y where xy: "eval env a = Inr x" "eval env b = Inr y" "auth_contains x y = Inr v" by (auto simp: bind_Inr)
  moreover from this EContains obtain x' y' where x': "eval (\<lambda>_. Inr VUnknown) a = Inr x'" "approximates x' x"
    "eval (\<lambda>_. Inr VUnknown) b = Inr y'" by force
  moreover have "x' = VUnknown"
    using xy(3) x'(2) by (auto simp: auth_contains_def approximates_def split: gval.splits)
  ultimately show ?case by (simp add: auth_contains_def approximates_def)
next
  case (ENot a)
  then obtain x where "eval env a = Inr x" "eval_not x = Inr v" by (auto simp: bind_Inr)
  moreover from this ENot obtain x' where "eval (\<lambda>_. Inr VUnknown) a = Inr x'" "approximates x' x" by force
  ultimately show ?case by (auto simp: eval_not_def approximates_def split: gval.splits)
next
  case (ECompare op a b)
  then obtain x y where xy: "eval env a = Inr x" "eval env b = Inr y" "auth_compare x y op = Inr v" by (auto simp: bind_Inr)
  moreover from this ECompare obtain x' y' where "eval (\<lambda>_. Inr VUnknown) a = Inr x'" "approximates x' x"
    "eval (\<lambda>_. Inr VUnknown) b = Inr y'" "approximates y' y" by force
  ultimately show ?case
    using auth_compare_bool [OF xy(3)] by (auto simp: auth_compare_def [of VUnknown] auth_compare_def [of _ VUnknown] approximates_def)
next
  case (ELogical both a b)
  then obtain x y where xy: "eval env a = Inr x" "eval env b = Inr y" "auth_logical x y both = Inr v" by (auto simp: bind_Inr)
  moreover from this ELogical obtain x' y' where "eval (\<lambda>_. Inr VUnknown) a = Inr x'" "approximates x' x"
    "eval (\<lambda>_. Inr VUnknown) b = Inr y'" "approximates y' y" by force
  ultimately show ?case
    using auth_logical_bool [OF xy(3)] by (auto simp: auth_logical_def [of VUnknown] auth_logical_def [of _ VUnknown] approximates_def)
qed (auto simp: approximates_def)

end
