(* ===== verification/AuthPolicy.thy ===== *)
theory AuthPolicy
  imports AuthTypes
begin

text \<open>
  The authorization of contract invocations in the runtime: the variables of the rules
  (\<open>src/runtime/contract_authorization.go\<close>), the decision over the rules of a policy, the validation of a
  policy (\<open>src/runtime/contract_policy_validation.go\<close>), the invocation pipeline
  (\<open>src/runtime/contract_pipeline.go\<close>) and the workload identities (\<open>src/runtime/contract_identity.go\<close>).

  A Go value that the runtime encodes as JSON is given by its JSON value, with numbers as their texts; strings are UTF-8.
\<close>

section \<open>JSON numbers as floats\<close>

function int_log2 :: "int \<Rightarrow> int" where
  "int_log2 n = (if n \<le> 1 then 0 else 1 + int_log2 (n div 2))"
  by pat_completeness auto
termination
  by (relation "measure nat") auto

declare int_log2.simps [simp del]

definition power2 :: "int \<Rightarrow> rat" where
  "power2 k = (if 0 \<le> k then of_int (2 ^ nat k) else 1 / of_int (2 ^ nat (- k)))"

definition binary_exponent :: "rat \<Rightarrow> int" where
  "binary_exponent r =
     (case quotient_of r of (n, d) \<Rightarrow> let e = int_log2 n - int_log2 d in if power2 e \<le> r then e else e - 1)"

definition round_half_even :: "rat \<Rightarrow> int" where
  "round_half_even r =
     (let f = \<lfloor>r\<rfloor>; rest = r - of_int f in
      if rest < 1 / 2 then f else if 1 / 2 < rest then f + 1 else if even f then f else f + 1)"

text \<open>\<open>strconv.ParseFloat(s, 64)\<close> on the exact value: 53 significant bits, ties to even; None when it overflows.\<close>

definition float64 :: "rat \<Rightarrow> rat option" where
  "float64 r =
     (if r = 0 then Some 0
      else
        (let q = power2 (max (binary_exponent \<bar>r\<bar>) (- 1022) - 52);
             v = of_int (round_half_even (\<bar>r\<bar> / q)) * q
         in if power2 1024 \<le> v then None else Some (if r < 0 then - v else v)))"

text \<open>\<open>json.Unmarshal(json.Marshal(v))\<close> into a variable of type \<open>any\<close>; a number that overflows is left nil.\<close>

fun through_json :: "gval \<Rightarrow> gval" where
  "through_json (VSlice t xs) = VSlice ''interface {}'' (map through_json xs)"
| "through_json (VMap m) = VMap (map (\<lambda>(k, v). (k, through_json v)) m)"
| "through_json v =
     (case number_value v of
        None \<Rightarrow> v
      | Some r \<Rightarrow> (case float64 r of None \<Rightarrow> VNil | Some f \<Rightarrow> VFloat64 f))"

text \<open>Evaluation of number texts over integers.\<close>

definition int_number :: "string \<Rightarrow> int" where
  "int_number s = foldl (\<lambda>n c. 10 * n + int (digit_value c)) 0 s"

lemma int_number: "int_number s = int (number_of s)"
  by (induction s rule: rev_induct) (simp_all add: int_number_def)

lemmas rat_of_text_code [code] = rat_of_text_def [folded int_number]

section \<open>Policies\<close>

record auth_rule =
  ru_name :: string
  ru_effect :: string
  ru_expression :: string

record http_policy =
  po_binding :: string
  po_strategy :: string
  po_rule_count :: int
  po_rules :: "auth_rule list"
  po_steps :: "string list"
  po_guarantee :: string

text \<open>
  \<open>AuthInfo.Data\<close>: nil, a \<open>map[string]any\<close> that is not nil, or any other value by its JSON encoding (\<open>Inl\<close> if it has
  none). A nil map of that type encodes as JSON null and is \<open>DataOther (Inr VNil)\<close>.
\<close>

datatype auth_data = DataNil | DataMap "(string \<times> gval) list" | DataOther "unit + gval"

record auth_info =
  au_uid :: string
  au_data :: auth_data

record request_info =
  rq_method :: string
  rq_path :: string

datatype authz_error = Denied string | ContextEncoding | NilMapPanic

section \<open>Variables\<close>

definition set_key :: "string \<Rightarrow> 'a \<Rightarrow> (string \<times> 'a) list \<Rightarrow> (string \<times> 'a) list" where
  "set_key k v m = (k, v) # filter (\<lambda>(x, _). x \<noteq> k) m"

text \<open>
  The principal decoded from the data. JSON null makes the map nil, and the assignment to it panics; the
  error of decoding a value that is no object is ignored and the map stays empty.
\<close>

definition principal_data :: "auth_data \<Rightarrow> authz_error + (string \<times> gval) list" where
  "principal_data d =
     (case d of
        DataNil \<Rightarrow> Inr []
      | DataMap m \<Rightarrow> Inr (map (\<lambda>(k, v). (k, through_json v)) m)
      | DataOther (Inl _) \<Rightarrow> Inl ContextEncoding
      | DataOther (Inr j) \<Rightarrow>
          (case j of
             VMap m \<Rightarrow> Inr (map (\<lambda>(k, v). (k, through_json v)) m)
           | VNil \<Rightarrow> Inl NilMapPanic
           | _ \<Rightarrow> Inr []))"

definition principal_value :: "auth_info option \<Rightarrow> authz_error + (string \<times> gval) list" where
  "principal_value auth =
     (case auth of
        None \<Rightarrow> Inr [(''id'', VString []), (''uid'', VString []), (''authenticated'', VBool False)]
      | Some a \<Rightarrow>
          res_bind (principal_data (au_data a)) (\<lambda>m.
            Inr (set_key ''authenticated'' (VBool (au_uid a \<noteq> [])) (set_key ''uid'' (VString (au_uid a))
              (set_key ''id'' (VString (au_uid a)) m)))))"

definition context_value :: "http_policy \<Rightarrow> request_info option \<Rightarrow> (string \<times> gval) list \<Rightarrow> (string \<times> gval) list" where
  "context_value policy request who =
     (let c = [(''caller_binding'', VString (po_binding policy))];
          c = (case request of None \<Rightarrow> c
               | Some r \<Rightarrow> set_key ''path'' (VString (rq_path r)) (set_key ''method'' (VString (rq_method r)) c))
      in case map_of who ''tenant_id'' of None \<Rightarrow> c | Some tenant \<Rightarrow> set_key ''tenant_id'' tenant c)"

text \<open>The input is given by its JSON value; \<open>UseNumber\<close> keeps its numbers as texts.\<close>

definition authorization_variables ::
  "http_policy \<Rightarrow> auth_info option \<Rightarrow> request_info option \<Rightarrow> unit + gval \<Rightarrow> authz_error + (string \<times> gval) list" where
  "authorization_variables policy auth request input =
     res_bind (principal_value auth) (\<lambda>principal.
       case input of
         Inl _ \<Rightarrow> Inl ContextEncoding
       | Inr v \<Rightarrow>
           Inr [(''principal'', VMap principal), (''context'', VMap (context_value policy request principal)), (''input'', v)])"

section \<open>The decision\<close>

fun rule_loop :: "(string \<times> gval) list \<Rightarrow> auth_rule list \<Rightarrow> bool list \<Rightarrow> authz_error + bool list" where
  "rule_loop vars [] allowed = Inr allowed"
| "rule_loop vars (r # rs) allowed =
     (case evaluate_rule (ru_expression r) vars of
        Inl _ \<Rightarrow> Inl (Denied ''authorization rule evaluation failed'')
      | Inr v \<Rightarrow>
          if ru_effect r = ''deny'' then
            (if v then Inl (Denied ''authorization deny rule matched'') else rule_loop vars rs allowed)
          else rule_loop vars rs (allowed @ [v]))"

definition combine :: "string \<Rightarrow> bool list \<Rightarrow> authz_error + unit" where
  "combine strategy allowed =
     (let denied = Inl (Denied ''authorization policy denied invocation'') in
      if allowed = [] then Inl (Denied ''authorization policy did not allow invocation'')
      else if strategy \<in> {''deny_unless_allowed'', ''any_allow'', ''allow_if_any''} then
        (if list_ex (\<lambda>v. v) allowed then Inr () else denied)
      else if strategy \<in> {''all_must_allow'', ''allow_if_all''} then
        (if list_ex Not allowed then denied else Inr ())
      else if strategy = ''first_applicable'' then (if hd allowed then Inr () else denied)
      else Inl (Denied ''unknown authorization strategy''))"

definition local_developer :: "auth_info option \<Rightarrow> bool" where
  "local_developer auth =
     (case auth of
        None \<Rightarrow> False
      | Some a \<Rightarrow> au_uid a \<noteq> [] \<and> (case au_data a of DataMap m \<Rightarrow> map_of m ''local_developer'' = Some (VBool True) | _ \<Rightarrow> False))"

definition authorize_invocation ::
  "http_policy option \<Rightarrow> auth_info option \<Rightarrow> request_info option \<Rightarrow> unit + gval \<Rightarrow> authz_error + unit" where
  "authorize_invocation policy auth request input =
     (case policy of
        None \<Rightarrow> Inr ()
      | Some p \<Rightarrow>
          if po_strategy p = ''public'' then Inr ()
          else if po_strategy p = ''local_developer'' then
            (if local_developer auth then Inr () else Inl (Denied ''local developer authorization is required''))
          else if po_strategy p = ''none'' \<or> po_rules p = [] then Inl (Denied ''authorization policy did not allow invocation'')
          else
            (case authorization_variables p auth request input of
               Inl NilMapPanic \<Rightarrow> Inl NilMapPanic
             | Inl _ \<Rightarrow> Inl (Denied ''authorization context is unavailable'')
             | Inr vars \<Rightarrow> res_bind (rule_loop vars (po_rules p) []) (\<lambda>allowed. combine (po_strategy p) allowed)))"

section \<open>Validation of policies\<close>

datatype policy_error =
    GuaranteeInvalid
  | RuleCountMismatch int nat
  | UnsupportedStrategy string
  | UnsupportedStep string
  | DuplicateStep string
  | RuleNameRequired
  | RuleInvalid string auth_error

definition known_strategies :: "string list" where
  "known_strategies =
     [''public'', ''none'', ''local_developer'', ''deny_unless_allowed'', ''any_allow'', ''allow_if_any'', ''all_must_allow'',
      ''allow_if_all'', ''first_applicable'']"

definition known_steps :: "string list" where
  "known_steps = [''std.middleware.request_id'', ''std.middleware.trace'', ''std.middleware.recover'']"

fun validate_steps :: "string list \<Rightarrow> string list \<Rightarrow> policy_error + unit" where
  "validate_steps seen [] = Inr ()"
| "validate_steps seen (s # ss) =
     (if s \<notin> set known_steps then Inl (UnsupportedStep s)
      else if s \<in> set seen then Inl (DuplicateStep s)
      else validate_steps (s # seen) ss)"

fun validate_rules :: "auth_rule list \<Rightarrow> policy_error + unit" where
  "validate_rules [] = Inr ()"
| "validate_rules (r # rs) =
     (if ru_name r = [] then Inl RuleNameRequired
      else case validate_expression (ru_expression r) of
        Inl e \<Rightarrow> Inl (RuleInvalid (ru_name r) e)
      | Inr _ \<Rightarrow> validate_rules rs)"

definition validate_policy :: "http_policy option \<Rightarrow> policy_error + unit" where
  "validate_policy policy =
     (case policy of
        None \<Rightarrow> Inr ()
      | Some p \<Rightarrow>
          if po_guarantee p \<noteq> [] \<and> po_guarantee p \<noteq> ''framework_enforced'' then Inl GuaranteeInvalid
          else if po_rule_count p \<noteq> int (length (po_rules p)) then Inl (RuleCountMismatch (po_rule_count p) (length (po_rules p)))
          else if po_strategy p \<notin> set known_strategies then Inl (UnsupportedStrategy (po_strategy p))
          else res_bind (validate_steps [] (po_steps p)) (\<lambda>_. validate_rules (po_rules p)))"

section \<open>Invocation\<close>

text \<open>The outcome of a call: a value, an error, or a panic.\<close>

datatype call_error = PolicyInvalid policy_error | NotAuthorized authz_error | SystemError | StepUnsupported string | CallFailed string
datatype 'a call = Returned 'a | Raised call_error | Panicked

fun wrap_step :: "string \<Rightarrow> 'a call \<Rightarrow> call_error + 'a call" where
  "wrap_step step c =
     (if step = ''std.middleware.request_id'' \<or> step = ''std.middleware.trace'' then Inr c
      else if step = ''std.middleware.recover'' then Inr (case c of Panicked \<Rightarrow> Raised SystemError | _ \<Rightarrow> c)
      else Inl (StepUnsupported step))"

fun wrap_steps :: "string list \<Rightarrow> 'a call \<Rightarrow> call_error + 'a call" where
  "wrap_steps [] c = Inr c"
| "wrap_steps (s # ss) c = res_bind (wrap_step s c) (wrap_steps ss)"

text \<open>The steps wrap the invocation from the last to the first.\<close>

definition invoke_pipeline :: "http_policy option \<Rightarrow> 'a call \<Rightarrow> 'a call" where
  "invoke_pipeline policy invoke =
     (case wrap_steps (rev (case policy of None \<Rightarrow> [] | Some p \<Rightarrow> po_steps p)) invoke of
        Inl e \<Rightarrow> Raised e
      | Inr c \<Rightarrow> c)"

definition invoke_policy ::
  "http_policy option \<Rightarrow> auth_info option \<Rightarrow> request_info option \<Rightarrow> unit + gval \<Rightarrow> 'a call \<Rightarrow> 'a call" where
  "invoke_policy policy auth request input invoke =
     (case validate_policy policy of
        Inl e \<Rightarrow> Raised (PolicyInvalid e)
      | Inr _ \<Rightarrow>
          (case authorize_invocation policy auth request input of
             Inl NilMapPanic \<Rightarrow> Panicked
           | Inl e \<Rightarrow> Raised (NotAuthorized e)
           | Inr _ \<Rightarrow> invoke_pipeline policy invoke))"

section \<open>Workload identities\<close>

record workload_identity =
  wl_address :: string
  wl_issuer :: string
  wl_principal_type :: string
  wl_claims :: "(unit + gval) option"

datatype identity_error =
    IdentityIncomplete
  | IssuerUnavailable string
  | PrincipalTypeUnavailable string
  | ClaimsInvalid
  | ClaimsNotObject
  | ClaimReserved string

text \<open>
  The claims are given by what the decoder makes of \<open>ClaimsJSON\<close>: None if the text is blank, \<open>Inl\<close> if it is not one
  JSON value. A value that is no object cannot be decoded into a map, and null makes the map nil.
\<close>

definition decode_claims :: "(unit + gval) option \<Rightarrow> identity_error + (string \<times> gval) list" where
  "decode_claims claims =
     (case claims of
        None \<Rightarrow> Inr []
      | Some (Inl _) \<Rightarrow> Inl ClaimsInvalid
      | Some (Inr v) \<Rightarrow> (case v of VMap m \<Rightarrow> Inr m | VNil \<Rightarrow> Inl ClaimsNotObject | _ \<Rightarrow> Inl ClaimsInvalid))"

definition reserved_claims :: "string list" where
  "reserved_claims = [''issuer'', ''principal_type'', ''workload_identity'']"

definition mint :: "workload_identity \<Rightarrow> identity_error + auth_info" where
  "mint identity =
     (let address = trim_space (wl_address identity); issuer = trim_space (wl_issuer identity);
          ptype = trim_space (wl_principal_type identity)
      in if address = [] \<or> issuer = [] \<or> ptype = [] then Inl IdentityIncomplete
         else if issuer \<noteq> ''std.identity_issuer.runtime'' then Inl (IssuerUnavailable issuer)
         else if ptype \<noteq> ''std.type.workload_principal'' then Inl (PrincipalTypeUnavailable ptype)
         else res_bind (decode_claims (wl_claims identity)) (\<lambda>claims.
           case find (\<lambda>k. map_of claims k \<noteq> None) reserved_claims of
             Some k \<Rightarrow> Inl (ClaimReserved k)
           | None \<Rightarrow>
               Inr \<lparr>au_uid = ''workload:'' @ address,
                 au_data = DataMap (set_key ''workload_identity'' (VString address)
                   (set_key ''principal_type'' (VString ptype) (set_key ''issuer'' (VString issuer) claims)))\<rparr>))"

section \<open>Properties\<close>

lemma resolver_live [simp]: "resolver \<lparr>cx_variables = vars, cx_validate_only = False\<rparr> = resolve_variable vars"
  by (auto simp: resolver_def)

lemma resolver_unknown [simp]: "resolver \<lparr>cx_variables = vars, cx_validate_only = True\<rparr> = (\<lambda>_. Inr VUnknown)"
  by (auto simp: resolver_def)

lemma bool_result:
  "(case v of VBool b \<Rightarrow> Inr b | _ \<Rightarrow> Inl NotBool) = Inr c \<longleftrightarrow> v = VBool c"
  "(case v of VBool b \<Rightarrow> Inr () | _ \<Rightarrow> Inl NotBool) = Inr () \<longleftrightarrow> (\<exists>c. v = VBool c)"
  by (cases v; simp)+

lemma evaluate_rule_iff:
  "evaluate_rule source vars = Inr b \<longleftrightarrow> parse_expression \<lparr>cx_variables = vars, cx_validate_only = False\<rparr> source = Inr (VBool b)"
  by (auto simp: evaluate_rule_def bind_Inr bool_result)

lemma bind_expression_fuel:
  assumes "\<And>v. k v \<noteq> Inl OutOfFuel"
  shows "res_bind (parse_expression cx source) k \<noteq> Inl OutOfFuel"
  using assms parse_expression_fuel [of cx source] by (cases "parse_expression cx source") auto

text \<open>
  C2. The parser that evaluates while it reads computes the compositional semantics of the
  language: a rule evaluates to a boolean exactly if the tokens of its text spell an expression, by the grammar, whose value
  over the variables is that boolean.
\<close>

theorem rule_evaluation_meets_semantics:
  "evaluate_rule source vars = Inr b \<longleftrightarrow> (\<exists>e. spells source e \<and> eval (resolve_variable vars) e = Inr (VBool b))"
  unfolding evaluate_rule_iff parse_expression_iff by simp

text \<open>
  C14. The evaluation and both checks of a rule return for every text: the recursion is bounded by the length of the text,
  so the fuel of the model never runs out.
\<close>

theorem rule_evaluation_returns:
  "evaluate_rule source vars \<noteq> Inl OutOfFuel \<and> validate_expression source \<noteq> Inl OutOfFuel
    \<and> validate_expression_against source vars \<noteq> Inl OutOfFuel"
  unfolding evaluate_rule_def validate_expression_def validate_expression_against_def
  by (intro conjI bind_expression_fuel) (simp_all split: gval.split)

text \<open>
  C11. No rule decides around a value it does not have: if a rule evaluates at all, every identifier in its text other than
  the keywords and the function name resolves to a value, also in operands that the boolean operators would not need.
\<close>

theorem rule_needs_every_variable:
  assumes "evaluate_rule source vars = Inr b" "lexes source ts"
  shows "\<forall>t\<in>set ts. tok_kind t = AIdentifier \<longrightarrow> tok_text t \<in> {''true'', ''false'', ''null'', ''contains''}
    \<or> (\<exists>v. resolve_variable vars (tok_text t) = Inr v)"
proof (intro ballI impI)
  fix t assume t: "t \<in> set ts" "tok_kind t = AIdentifier"
  obtain e us where e: "lexes source us" "disjunction e us" "eval (resolve_variable vars) e = Inr (VBool b)"
    using assms(1) unfolding evaluate_rule_iff parse_expression_iff spells_def by auto
  then have "tok_text t \<in> insert ''contains'' keywords_of \<union> variables_of e"
    using identifiers_are_variables(5) [OF e(2)] t lexes_unique [OF e(1) assms(2)] by blast
  then show "tok_text t \<in> {''true'', ''false'', ''null'', ''contains''} \<or> (\<exists>v. resolve_variable vars (tok_text t) = Inr v)"
    using eval_needs_variables(1) [OF e(3)] by blast
qed

text \<open>
  C7. The compiler's check against representative values is a type check: a rule that passes it for one set of
  values evaluates without an error for every set of values of the same types, provided that its list literals are of one type.
\<close>

theorem representative_check_sound:
  assumes "validate_expression_against source sample = Inr ()" "same (VMap sample) (VMap vars)"
    "\<And>e. spells source e \<Longrightarrow> uniform_lists (resolve_variable sample) e"
  shows "\<exists>b. evaluate_rule source vars = Inr b"
proof -
  obtain c where "parse_expression \<lparr>cx_variables = sample, cx_validate_only = False\<rparr> source = Inr (VBool c)"
    using assms(1) by (auto simp: validate_expression_against_def bind_Inr bool_result)
  then obtain e where e: "spells source e" "eval (resolve_variable sample) e = Inr (VBool c)"
    unfolding parse_expression_iff by auto
  then obtain w where "eval (resolve_variable vars) e = Inr w" "same (VBool c) w"
    using eval_same [where env = "resolve_variable sample" and env' = "resolve_variable vars", OF resolve_variable_same [OF assms(2)]]
      assms(3) by blast
  then show ?thesis using e(1) unfolding evaluate_rule_iff parse_expression_iff by (auto simp: same_simps)
qed

text \<open>
  C26. The check without values rejects no rule that works: a rule without list literals that evaluates to a
  boolean for some values passes it.
\<close>

theorem validation_accepts_working_rules:
  assumes "evaluate_rule source vars = Inr b" "lexes source ts" "\<forall>t\<in>set ts. tok_kind t \<noteq> ALBracket"
  shows "validate_expression source = Inr ()"
proof -
  obtain e us where e: "lexes source us" "disjunction e us" "eval (resolve_variable vars) e = Inr (VBool b)"
    using assms(1) unfolding evaluate_rule_iff parse_expression_iff spells_def by auto
  then have "list_free e" using no_bracket_list_free(5) [OF e(2)] lexes_unique [OF e(1) assms(2)] assms(3) by blast
  then obtain a where "eval (\<lambda>_. Inr VUnknown) e = Inr a" "a = VUnknown \<or> a = VBool b"
    using eval_abstract [OF _ e(3)] approximates_bool by blast
  moreover have "spells source e" using e(1,2) unfolding spells_def by blast
  ultimately have "parse_expression \<lparr>cx_variables = [], cx_validate_only = True\<rparr> source = Inr a"
    unfolding parse_expression_iff by auto
  then show ?thesis using \<open>a = VUnknown \<or> a = VBool b\<close> by (auto simp: validate_expression_def)
qed

text \<open>The decision of a policy over its rules, without an order of evaluation.\<close>

definition permits :: "string \<Rightarrow> auth_rule list \<Rightarrow> (string \<times> gval) list \<Rightarrow> bool" where
  "permits strategy rules vars \<longleftrightarrow>
     (let allow = filter (\<lambda>r. ru_effect r \<noteq> ''deny'') rules; holds = (\<lambda>b r. evaluate_rule (ru_expression r) vars = Inr b) in
      (\<forall>r\<in>set rules. if ru_effect r = ''deny'' then holds False r else \<exists>b. holds b r) \<and> allow \<noteq> []
      \<and> (if strategy \<in> {''deny_unless_allowed'', ''any_allow'', ''allow_if_any''} then \<exists>r\<in>set allow. holds True r
         else if strategy \<in> {''all_must_allow'', ''allow_if_all''} then \<forall>r\<in>set allow. holds True r
         else strategy = ''first_applicable'' \<and> holds True (hd allow)))"

lemma rule_loop_Inr:
  "rule_loop vars rs acc = Inr bs \<longleftrightarrow>
     (\<forall>r\<in>set rs. if ru_effect r = ''deny'' then evaluate_rule (ru_expression r) vars = Inr False
        else \<exists>b. evaluate_rule (ru_expression r) vars = Inr b)
     \<and> bs = acc @ map (\<lambda>r. evaluate_rule (ru_expression r) vars = Inr True) (filter (\<lambda>r. ru_effect r \<noteq> ''deny'') rs)"
proof (induction rs arbitrary: acc)
  case (Cons r rs)
  then show ?case by (cases "evaluate_rule (ru_expression r) vars") auto
qed auto

lemma combine_Inr:
  "combine strategy allowed = Inr () \<longleftrightarrow> allowed \<noteq> [] \<and>
     (if strategy \<in> {''deny_unless_allowed'', ''any_allow'', ''allow_if_any''} then True \<in> set allowed
      else if strategy \<in> {''all_must_allow'', ''allow_if_all''} then False \<notin> set allowed
      else strategy = ''first_applicable'' \<and> hd allowed)"
proof -
  have "list_ex (\<lambda>v. v) allowed \<longleftrightarrow> True \<in> set allowed" "list_ex Not allowed \<longleftrightarrow> False \<in> set allowed"
    by (auto simp: list_ex_iff)
  then show ?thesis by (simp add: combine_def Let_def del: insert_iff)
qed

lemma decide_rules:
  "res_bind (rule_loop vars rules []) (combine strategy) = Inr () \<longleftrightarrow> permits strategy rules vars"
proof -
  let ?allow = "filter (\<lambda>r. ru_effect r \<noteq> ''deny'') rules"
  let ?holds = "\<lambda>r. evaluate_rule (ru_expression r) vars = Inr True"
  have hd: "hd (map ?holds ?allow) = ?holds (hd ?allow)" if "?allow \<noteq> []" using that by (rule hd_map)
  have ex: "True \<in> set (map ?holds ?allow) \<longleftrightarrow> (\<exists>r\<in>set ?allow. ?holds r)" by (auto simp del: set_filter)
  have all: "False \<notin> set (map ?holds ?allow) \<longleftrightarrow> (\<forall>r\<in>set ?allow. ?holds r)" by (auto simp del: set_filter)
  have "res_bind (rule_loop vars rules []) (combine strategy) = Inr () \<longleftrightarrow>
      (\<forall>r\<in>set rules. if ru_effect r = ''deny'' then evaluate_rule (ru_expression r) vars = Inr False
        else \<exists>b. evaluate_rule (ru_expression r) vars = Inr b) \<and> combine strategy (map ?holds ?allow) = Inr ()"
    unfolding bind_Inr rule_loop_Inr by auto
  then show ?thesis
    unfolding permits_def Let_def combine_Inr ex all map_is_Nil_conv using hd by (simp del: insert_iff cong: conj_cong)
qed

text \<open>
  C5. What an authorization policy means, whatever order its rules are written in: an invocation passes a policy with
  rules exactly if every rule evaluates, no deny rule holds, and the allow rules combine to true by the strategy; an
  unknown strategy, a missing context and a policy without allow rules deny.
\<close>

theorem authorization_decision:
  "authorize_invocation (Some p) auth request input = Inr () \<longleftrightarrow>
     po_strategy p = ''public'' \<or> po_strategy p = ''local_developer'' \<and> local_developer auth
     \<or> po_strategy p \<notin> {''public'', ''local_developer'', ''none''}
       \<and> (\<exists>vars. authorization_variables p auth request input = Inr vars \<and> permits (po_strategy p) (po_rules p) vars)"
proof (cases "po_rules p = [] \<or> po_strategy p \<in> {''public'', ''local_developer'', ''none''}")
  case True
  then show ?thesis by (auto simp: authorize_invocation_def permits_def)
next
  case False
  then show ?thesis
    using decide_rules [of _ "po_rules p" "po_strategy p"]
    by (cases "authorization_variables p auth request input") (auto simp: authorize_invocation_def split: authz_error.splits)
qed

text \<open>Lookups in the variables.\<close>

lemma map_of_set_key: "map_of (set_key k v m) x = (if x = k then Some v else map_of m x)"
proof -
  have "map_of (filter (\<lambda>(y, _). y \<noteq> k) m) x = map_of m x" if "x \<noteq> k" using that by (induction m) auto
  then show ?thesis by (simp add: set_key_def)
qed

lemma map_of_through_json: "map_of (map (\<lambda>(k, v). (k, through_json v)) m) x = map_option through_json (map_of m x)"
  by (induction m) auto

lemma resolve_principal:
  assumes "authorization_variables p auth request input = Inr vars" "CHR ''.'' \<notin> set field"
  obtains m where "principal_value auth = Inr m"
    "resolve_variable vars (''principal.'' @ field) =
       (case map_of m field of None \<Rightarrow> Inl (PathUnavailable (''principal.'' @ field)) | Some v \<Rightarrow> Inr v)"
proof -
  obtain m where m: "principal_value auth = Inr m" and vars: "map_of vars ''principal'' = Some (VMap m)"
    using assms(1) by (cases input) (auto simp: authorization_variables_def bind_Inr)
  have "split_on CHR ''.'' (''principal'' @ CHR ''.'' # field) = [''principal'', field]"
    using assms(2) by (subst split_on_append_sep) (auto simp: split_on_single)
  then show ?thesis using that [OF m] vars by (simp add: resolve_variable_def split: option.split)
qed

text \<open>
  C20. Rules cannot be misled about who calls: whatever the authentication data contains, the identifier and the
  authentication flag of the principal that the rules see are those of the authenticated caller.
\<close>

theorem principal_identity_trusted:
  assumes "authorization_variables p auth request input = Inr vars"
  shows "resolve_variable vars ''principal.id'' = Inr (VString (case auth of None \<Rightarrow> [] | Some a \<Rightarrow> au_uid a))
    \<and> resolve_variable vars ''principal.uid'' = Inr (VString (case auth of None \<Rightarrow> [] | Some a \<Rightarrow> au_uid a))
    \<and> resolve_variable vars ''principal.authenticated'' = Inr (VBool (case auth of None \<Rightarrow> False | Some a \<Rightarrow> au_uid a \<noteq> []))"
proof -
  have look: "map_of m ''id'' = Some (VString (case auth of None \<Rightarrow> [] | Some a \<Rightarrow> au_uid a))
      \<and> map_of m ''uid'' = Some (VString (case auth of None \<Rightarrow> [] | Some a \<Rightarrow> au_uid a))
      \<and> map_of m ''authenticated'' = Some (VBool (case auth of None \<Rightarrow> False | Some a \<Rightarrow> au_uid a \<noteq> []))"
    if "principal_value auth = Inr m" for m
    using that by (cases auth) (auto simp: principal_value_def map_of_set_key bind_Inr)
  show ?thesis
    using resolve_principal [OF assms, of "''id''"] resolve_principal [OF assms, of "''uid''"]
      resolve_principal [OF assms, of "''authenticated''"] look by (force simp: append_Cons)
qed

text \<open>
  C27. A workload identity cannot be forged by its claims: a minted identity shows the rules the address it was minted for and
  the runtime's issuer, and claims of these names are refused.
\<close>

theorem workload_identity_trusted:
  assumes "mint identity = Inr a" "authorization_variables p (Some a) request input = Inr vars"
  shows "resolve_variable vars ''principal.workload_identity'' = Inr (VString (trim_space (wl_address identity)))
    \<and> resolve_variable vars ''principal.issuer'' = Inr (VString ''std.identity_issuer.runtime'')
    \<and> resolve_variable vars ''principal.id'' = Inr (VString (''workload:'' @ trim_space (wl_address identity)))"
proof -
  obtain claims where a: "a = \<lparr>au_uid = ''workload:'' @ trim_space (wl_address identity),
      au_data = DataMap (set_key ''workload_identity'' (VString (trim_space (wl_address identity)))
        (set_key ''principal_type'' (VString ''std.type.workload_principal'')
          (set_key ''issuer'' (VString ''std.identity_issuer.runtime'') claims)))\<rparr>"
    using assms(1) by (auto simp: mint_def Let_def bind_Inr split: if_splits option.splits)
  have look: "map_of m ''workload_identity'' = Some (VString (trim_space (wl_address identity)))
      \<and> map_of m ''issuer'' = Some (VString ''std.identity_issuer.runtime'')
      \<and> map_of m ''id'' = Some (VString (''workload:'' @ trim_space (wl_address identity)))"
    if "principal_value (Some a) = Inr m" for m
    using that by (auto simp: a principal_value_def principal_data_def map_of_set_key map_of_through_json)
  show ?thesis
    using resolve_principal [OF assms(2), of "''workload_identity''"] resolve_principal [OF assms(2), of "''issuer''"]
      resolve_principal [OF assms(2), of "''id''"] look by (force simp: append_Cons)
qed

section \<open>Divergences\<close>

definition spec_rule :: string where
  "spec_rule = ''principal.tenant_id == context.tenant_id && contains(['' @ [CHR 0x22] @ ''owner'' @ [CHR 0x22] @ '', ''
     @ [CHR 0x22] @ ''member'' @ [CHR 0x22] @ ''], principal.membership)''"

definition spec_variables :: "(string \<times> gval) list" where
  "spec_variables =
     [(''principal'', VMap [(''tenant_id'', VString ''tenant''), (''membership'', VString ''member'')]),
      (''context'', VMap [(''tenant_id'', VString ''tenant'')])]"

text \<open>
  The rule of the specification, section 13.3, evaluates as intended and passes the check against
  representative values, but the check without values rejects it: membership in a list literal of a value that is
  not known yet is reported as a type error.
\<close>

theorem specified_rule_rejected:
  "evaluate_rule spec_rule spec_variables = Inr True \<and> validate_expression_against spec_rule spec_variables = Inr ()
    \<and> validate_expression spec_rule = Inl ContainsTypes"
  by code_simp

definition account_policy :: http_policy where
  "account_policy = \<lparr>po_binding = ''app/binding/pay'', po_strategy = ''deny_unless_allowed'', po_rule_count = 1,
     po_rules = [\<lparr>ru_name = ''own_account'', ru_effect = ''allow'', ru_expression = ''principal.account == input.account''\<rparr>],
     po_steps = [''std.middleware.recover''], po_guarantee = ''framework_enforced''\<rparr>"

text \<open>The expression of the rule, and its value over any variables.\<close>

definition account_expr :: expr where
  "account_expr = ECompare AEqual (EVar ''principal.account'') (EVar ''input.account'')"

lemma account_rule_spells: "spells ''principal.account == input.account'' account_expr"
proof -
  let ?p = "\<lparr>tok_kind = AIdentifier, tok_text = ''principal.account''\<rparr>"
    and ?o = "\<lparr>tok_kind = AEqual, tok_text = ''==''\<rparr>"
    and ?i = "\<lparr>tok_kind = AIdentifier, tok_text = ''input.account''\<rparr>" and ?z = "\<lparr>tok_kind = AEof, tok_text = []\<rparr>"
  have "trim_space ''principal.account == input.account'' = ''principal.account == input.account''"
      "next_token ''principal.account == input.account'' = Inr (?p, '' == input.account'')"
      "next_token '' == input.account'' = Inr (?o, '' input.account'')" "next_token '' input.account'' = Inr (?i, [])"
      "next_token [] = Inr (?z, [])"
    by code_simp+
  then have "lexes ''principal.account == input.account'' [?p, ?o, ?i]"
    by (auto simp: lexes_def kind_def)
  moreover have "primary (EVar ''principal.account'') [?p]" "primary (EVar ''input.account'') [?i]"
    using p_var [of ?p] p_var [of ?i] by simp_all
  then have "comparison (ECompare AEqual (EVar ''principal.account'') (EVar ''input.account'')) ([?p] @ ?o # [?i])"
    using c_binary [of "EVar ''principal.account''" "[?p]" ?o "EVar ''input.account''" "[?i]"]
    by (simp add: u_primary comparison_operator_def)
  then have "disjunction account_expr [?p, ?o, ?i]"
    unfolding account_expr_def by (intro o_conjunction a_comparison) simp
  ultimately show ?thesis unfolding spells_def by blast
qed

text \<open>
  C36. Numbers of the principal are rounded to floats before the rules see them, and numbers of the input are not: the
  rule \<open>principal.account == input.account\<close> lets a caller through exactly if the float nearest to the account
  of the caller is the account in the input. A caller whose account is no float is kept from that
  account and let through for the one it is rounded to.
\<close>

theorem principal_numbers_rounded:
  assumes "map_of m ''account'' = Some (VJsonNumber a)" "map_of n ''account'' = Some (VJsonNumber b)"
    and "rat_of_text a = Some mine" "rat_of_text b = Some wanted" "float64 mine = Some rounded"
  shows "authorize_invocation (Some account_policy) (Some \<lparr>au_uid = u, au_data = DataMap m\<rparr>) request (Inr (VMap n)) = Inr ()
    \<longleftrightarrow> rounded = wanted"
proof -
  obtain vars where vars: "authorization_variables account_policy (Some \<lparr>au_uid = u, au_data = DataMap m\<rparr>) request (Inr (VMap n)) = Inr vars"
      "map_of vars ''input'' = Some (VMap n)"
    by (auto simp: authorization_variables_def principal_value_def principal_data_def)
  obtain who where who: "principal_value (Some \<lparr>au_uid = u, au_data = DataMap m\<rparr>) = Inr who"
      "resolve_variable vars (''principal.'' @ ''account'') =
         (case map_of who ''account'' of None \<Rightarrow> Inl (PathUnavailable (''principal.'' @ ''account'')) | Some v \<Rightarrow> Inr v)"
    by (rule resolve_principal [OF vars(1), of "''account''"]) simp_all
  have "map_of who ''account'' = Some (VFloat64 rounded)"
    using who(1) assms by (auto simp: principal_value_def principal_data_def map_of_set_key map_of_through_json number_value_def)
  with who(2) have "resolve_variable vars ''principal.account'' = Inr (VFloat64 rounded)" by simp
  moreover have "split_on CHR ''.'' ''input.account'' = [''input'', ''account'']" by code_simp
  then have "resolve_variable vars ''input.account'' = Inr (VJsonNumber b)"
    using vars(2) assms(2) by (simp add: resolve_variable_def)
  ultimately have "eval (resolve_variable vars) account_expr = Inr (VBool (rounded = wanted))"
    using assms(4) by (simp add: account_expr_def auth_compare_def equal_values_def number_value_def)
  then have "evaluate_rule ''principal.account == input.account'' vars = Inr (rounded = wanted)"
    unfolding evaluate_rule_iff parse_expression_iff using account_rule_spells by auto
  then show ?thesis
    using vars(1) by (simp add: authorize_invocation_def account_policy_def combine_def)
qed

end
