(* ===== verification/AuthExamples.thy ===== *)
theory AuthExamples
  imports AuthPolicy
begin

text \<open>The properties of authorization on concrete rules.\<close>

fun lex_all :: "nat \<Rightarrow> auth_state \<Rightarrow> auth_token list option" where
  "lex_all 0 st = None"
| "lex_all (Suc n) st =
     (if kind st = AEof then Some []
      else case next_token (snd st) of Inl _ \<Rightarrow> None | Inr st1 \<Rightarrow> map_option ((#) (fst st)) (lex_all n st1))"

definition lex_source :: "string \<Rightarrow> auth_token list option" where
  "lex_source source =
     (if trim_space source = [] then None
      else case next_token (trim_space source) of Inl _ \<Rightarrow> None | Inr st \<Rightarrow> lex_all (length source + 2) st)"

lemma lex_all_consumes: "lex_all n st = Some ts \<Longrightarrow> \<exists>st'. consumes st ts st' \<and> kind st' = AEof \<and> (\<forall>t\<in>set ts. tok_kind t \<noteq> AEof)"
proof (induction n arbitrary: st ts)
  case (Suc n)
  show ?case
  proof (cases "kind st = AEof")
    case False
    then obtain st1 us where us: "next_token (snd st) = Inr st1" "lex_all n st1 = Some us" "ts = fst st # us"
      using Suc.prems by (auto split: sum.splits)
    then obtain st' where "consumes st1 us st'" "kind st' = AEof" "\<forall>t\<in>set us. tok_kind t \<noteq> AEof" using Suc.IH by blast
    then have "consumes st ts st'" "\<forall>t\<in>set ts. tok_kind t \<noteq> AEof" using us False by (simp_all add: kind_def)
    then show ?thesis using \<open>kind st' = AEof\<close> by blast
  qed (use Suc.prems in simp)
qed simp

lemma lex_source_lexes: "lex_source source = Some ts \<Longrightarrow> lexes source ts"
proof -
  assume "lex_source source = Some ts"
  then obtain st where "trim_space source \<noteq> []" "next_token (trim_space source) = Inr st" "lex_all (length source + 2) st = Some ts"
    by (auto simp: lex_source_def simp del: lex_all.simps split: if_splits sum.splits)
  then show ?thesis unfolding lexes_def using lex_all_consumes by blast
qed

lemma spells_uniform:
  assumes "lexes source ts" "\<forall>t\<in>set ts. tok_kind t \<noteq> ALBracket" "spells source e"
  shows "uniform_lists env e"
  using assms lexes_unique no_bracket_list_free(5) list_free_uniform unfolding spells_def by metis

definition limit_rule :: string where
  "limit_rule = ''input.amount <= 100''"

definition limit_tokens :: "auth_token list" where
  "limit_tokens =
     [\<lparr>tok_kind = AIdentifier, tok_text = ''input.amount''\<rparr>, \<lparr>tok_kind = ALessEqual, tok_text = ''<=''\<rparr>,
      \<lparr>tok_kind = ANumber, tok_text = ''100''\<rparr>]"

definition amount :: "string \<Rightarrow> (string \<times> gval) list" where
  "amount n = [(''input'', VMap [(''amount'', VJsonNumber n)])]"

lemma limit_lexes: "lexes limit_rule limit_tokens"
proof (rule lex_source_lexes)
  show "lex_source limit_rule = Some limit_tokens" by code_simp
qed

lemma limit_evaluates: "evaluate_rule limit_rule (amount ''25'') = Inr True"
  by code_simp

lemma limit_no_bracket: "\<forall>t\<in>set limit_tokens. tok_kind t \<noteq> ALBracket"
  by (simp add: limit_tokens_def)

theorem rule_needs_every_variable_example:
  "evaluate_rule limit_rule (amount ''25'') = Inr True \<and> (\<exists>v. resolve_variable (amount ''25'') ''input.amount'' = Inr v)"
  using rule_needs_every_variable [OF limit_evaluates limit_lexes] limit_evaluates by (simp add: limit_tokens_def)

lemma amount_same:
  assumes "rat_of_text m = Some a" "rat_of_text n = Some b"
  shows "same (VMap (amount m)) (VMap (amount n))"
proof -
  have "same (VJsonNumber m) (VJsonNumber n)" using assms by (intro same_number) (simp_all add: number_value_def)
  then have "same (VMap [(''amount'', VJsonNumber m)]) (VMap [(''amount'', VJsonNumber n)])" by (intro same_map) simp
  then show ?thesis unfolding amount_def by (intro same_map) simp
qed

theorem representative_check_sound_example:
  "validate_expression_against limit_rule (amount ''1'') = Inr () \<and> (\<exists>b. evaluate_rule limit_rule (amount ''250'') = Inr b)"
proof -
  have check: "validate_expression_against limit_rule (amount ''1'') = Inr ()" by code_simp
  have "rat_of_text ''1'' = Some 1" "rat_of_text ''250'' = Some 250" by code_simp+
  then show ?thesis
    using representative_check_sound [OF check amount_same spells_uniform [OF limit_lexes limit_no_bracket]] check by blast
qed

theorem validation_accepts_working_rules_example:
  "evaluate_rule limit_rule (amount ''25'') = Inr True \<and> validate_expression limit_rule = Inr ()"
  using validation_accepts_working_rules [OF limit_evaluates limit_lexes limit_no_bracket] limit_evaluates by blast

definition forged_caller :: auth_info where
  "forged_caller = \<lparr>au_uid = ''u1'', au_data = DataMap [(''id'', VString ''admin''), (''authenticated'', VBool True)]\<rparr>"

definition forged_variables :: "(string \<times> gval) list" where
  "forged_variables =
     (case authorization_variables account_policy (Some forged_caller) None (Inr VNil) of Inr vars \<Rightarrow> vars | Inl _ \<Rightarrow> [])"

theorem principal_identity_trusted_example:
  "authorization_variables account_policy (Some forged_caller) None (Inr VNil) = Inr forged_variables
    \<and> resolve_variable forged_variables ''principal.id'' = Inr (VString ''u1'')"
proof -
  have v: "authorization_variables account_policy (Some forged_caller) None (Inr VNil) = Inr forged_variables" by code_simp
  show ?thesis using principal_identity_trusted [OF v] v by (simp add: forged_caller_def)
qed

definition worker :: workload_identity where
  "worker = \<lparr>wl_address = ''app/worker/mail'', wl_issuer = ''std.identity_issuer.runtime'',
     wl_principal_type = ''std.type.workload_principal'', wl_claims = Some (Inr (VMap [(''team'', VString ''mail'')]))\<rparr>"

definition worker_auth :: auth_info where
  "worker_auth = (case mint worker of Inr a \<Rightarrow> a | Inl _ \<Rightarrow> forged_caller)"

definition worker_variables :: "(string \<times> gval) list" where
  "worker_variables =
     (case authorization_variables account_policy (Some worker_auth) None (Inr VNil) of Inr vars \<Rightarrow> vars | Inl _ \<Rightarrow> [])"

theorem workload_identity_trusted_example:
  "mint worker = Inr worker_auth \<and> resolve_variable worker_variables ''principal.issuer'' = Inr (VString ''std.identity_issuer.runtime'')"
proof -
  have m: "mint worker = Inr worker_auth" by code_simp
  have v: "authorization_variables account_policy (Some worker_auth) None (Inr VNil) = Inr worker_variables" by code_simp
  show ?thesis using workload_identity_trusted [OF m v] m by simp
qed

text \<open>Witness: account 9007199254740993, which is rounded to 9007199254740992.\<close>

theorem principal_numbers_rounded_example:
  "authorize_invocation (Some account_policy)
     (Some \<lparr>au_uid = ''u1'', au_data = DataMap [(''account'', VJsonNumber ''9007199254740993'')]\<rparr>) None
     (Inr (VMap [(''account'', VJsonNumber ''9007199254740992'')])) = Inr ()
   \<and> authorize_invocation (Some account_policy)
     (Some \<lparr>au_uid = ''u1'', au_data = DataMap [(''account'', VJsonNumber ''9007199254740993'')]\<rparr>) None
     (Inr (VMap [(''account'', VJsonNumber ''9007199254740993'')])) \<noteq> Inr ()"
proof -
  have num: "rat_of_text ''9007199254740993'' = Some 9007199254740993" "rat_of_text ''9007199254740992'' = Some 9007199254740992"
      "float64 9007199254740993 = Some 9007199254740992"
    by code_simp+
  show ?thesis
    using principal_numbers_rounded [OF _ _ num(1,2,3), of "[(''account'', VJsonNumber ''9007199254740993'')]"
        "[(''account'', VJsonNumber ''9007199254740992'')]" "''u1''" None]
      principal_numbers_rounded [OF _ _ num(1,1,3), of "[(''account'', VJsonNumber ''9007199254740993'')]"
        "[(''account'', VJsonNumber ''9007199254740993'')]" "''u1''" None] by simp
qed

end
