(* ===== verification/CronTime.thy ===== *)
theory CronTime
  imports Prelude
begin

text \<open>
  The part of package \<open>time\<close> that the schedules use. An instant (\<open>time.Time\<close>) is the number of
  nanoseconds since 1970-01-01T00:00:00Z, without bound; a location (\<open>*time.Location\<close>) is the
  offset of the local clock, in seconds, at every Unix second. The proleptic Gregorian calendar
  is computed on day numbers, and day numbers and dates are shown to determine each other.
\<close>

type_synonym instant = int

type_synonym zone = "int \<Rightarrow> int"

definition utc :: zone where
  "utc = (\<lambda>_. 0)"

definition second :: int where
  "second = 1000000000"

definition minute :: int where
  "minute = 60 * second"

definition day :: int where
  "day = 24 * 60 * minute"

text \<open>\<open>time.Time{}\<close>, which \<open>IsZero\<close> recognises: 0001-01-01T00:00:00Z.\<close>

definition zero_time :: instant where
  "zero_time = - 62135596800 * second"

definition unix :: "instant \<Rightarrow> int" where
  "unix t = t div second"

text \<open>\<open>Truncate(time.Minute)\<close> counts from the zero time, which is a whole number of minutes before 1970.\<close>

definition truncate_minute :: "instant \<Rightarrow> instant" where
  "truncate_minute t = t - t mod minute"

section \<open>The calendar\<close>

definition leap :: "int \<Rightarrow> bool" where
  "leap y \<longleftrightarrow> y mod 4 = 0 \<and> (y mod 100 \<noteq> 0 \<or> y mod 400 = 0)"

text \<open>The day number of the first of January.\<close>

definition year_start :: "int \<Rightarrow> int" where
  "year_start y = 365 * (y - 1970) + ((y - 1) div 4 - 492) - ((y - 1) div 100 - 19) + ((y - 1) div 400 - 4)"

text \<open>The year of a day: 400 years have 146097 days, and the quotient is off by at most one.\<close>

definition year_of :: "int \<Rightarrow> int" where
  "year_of d =
     (let y = 1970 + (400 * d) div 146097 in
      if d < year_start y then y - 1 else if year_start (y + 1) \<le> d then y + 1 else y)"

definition month_days :: "int list" where
  "month_days = [0, 31, 59, 90, 120, 151, 181, 212, 243, 273, 304, 334, 365]"

definition month_start :: "bool \<Rightarrow> nat \<Rightarrow> int" where
  "month_start l m = month_days ! (m - 1) + (if l \<and> 2 < m then 1 else 0)"

definition month_of :: "int \<Rightarrow> nat" where
  "month_of d =
     (let y = year_of d in length (filter (\<lambda>m. month_start (leap y) m \<le> d - year_start y) [1..<13]))"

definition day_of :: "int \<Rightarrow> int" where
  "day_of d = (let y = year_of d in d - year_start y - month_start (leap y) (month_of d) + 1)"

definition weekday_of :: "int \<Rightarrow> int" where
  "weekday_of d = (d + 4) mod 7"

definition day_number :: "int \<Rightarrow> nat \<Rightarrow> int \<Rightarrow> int" where
  "day_number y m d = year_start y + month_start (leap y) m + d - 1"

section \<open>Clock readings\<close>

definition local_seconds :: "zone \<Rightarrow> instant \<Rightarrow> int" where
  "local_seconds z t = unix t + z (unix t)"

definition local_day :: "zone \<Rightarrow> instant \<Rightarrow> int" where
  "local_day z t = local_seconds z t div 86400"

definition clock_hour :: "zone \<Rightarrow> instant \<Rightarrow> int" where
  "clock_hour z t = local_seconds z t mod 86400 div 3600"

definition clock_minute :: "zone \<Rightarrow> instant \<Rightarrow> int" where
  "clock_minute z t = local_seconds z t mod 3600 div 60"

text \<open>
  \<open>time.Date(y, m, d, 0, 0, 0, 0, loc)\<close>: the offset is looked up at the local reading and, where it
  is not zero, again at the instant which that offset gives.
\<close>

definition midnight :: "zone \<Rightarrow> int \<Rightarrow> nat \<Rightarrow> int \<Rightarrow> instant" where
  "midnight z y m d =
     (let s = 86400 * day_number y m d; off = z s in
      second * (if off = 0 then s else s - z (s - off)))"

section \<open>Days and dates\<close>

lemma div_sandwich: "0 < k \<Longrightarrow> k * (x div k) \<le> x \<and> x < k * (x div k) + k" for x :: int
  using mult_div_mod_eq [of k x] pos_mod_bound [of k x] pos_mod_sign [of k x] by linarith

lemma div_step:
  fixes y k :: int
  assumes "0 < k"
  shows "y div k = (y - 1) div k + (if y mod k = 0 then 1 else 0)"
proof -
  define q r where "q = (y - 1) div k" and "r = (y - 1) mod k"
  have y: "y = k * q + (r + 1)" and r: "0 \<le> r" "r < k"
    using assms mult_div_mod_eq [of k "y - 1"] by (simp_all add: q_def r_def)
  show ?thesis
  proof (cases "r + 1 = k")
    case True
    then have "y = k * (q + 1)" using y by (simp add: algebra_simps)
    then have "y div k = q + 1" "y mod k = 0"
      using assms nonzero_mult_div_cancel_left [of k "q + 1"] by auto
    then show ?thesis by (simp add: q_def)
  next
    case False
    then have "y div k = q" "y mod k = r + 1"
      using y r int_div_pos_eq [of y k q "r + 1"] int_mod_pos_eq [of y k q "r + 1"] by auto
    then show ?thesis using r by (simp add: q_def)
  qed
qed

lemma year_start_arith:
  fixes a b c y :: int
  assumes "a' = a + (if p then 1 else 0)" "b' = b + (if q then 1 else 0)" "c' = c + (if r then 1 else 0)"
    and "q \<Longrightarrow> p" "r \<Longrightarrow> q"
  shows "365 * (y + 1 - 1970) + (a' - 492) - (b' - 19) + (c' - 4)
    = 365 * (y - 1970) + (a - 492) - (b - 19) + (c - 4) + (if p \<and> (\<not> q \<or> r) then 366 else 365)"
  using assms by (cases p; cases q; cases r) simp_all

lemma year_start_step: "year_start (y + 1) = year_start y + (if leap y then 366 else 365)"
proof -
  have "y mod 100 = 0 \<Longrightarrow> y mod 4 = 0" "y mod 400 = 0 \<Longrightarrow> y mod 100 = 0"
    using dvd_trans [of 4 100 y] dvd_trans [of 100 400 y] by (auto simp: mod_eq_0_iff_dvd)
  from year_start_arith [OF div_step div_step div_step this] show ?thesis
    unfolding year_start_def leap_def by (simp only: add_diff_cancel_right' zero_less_numeral)
qed

lemma year_start_mono: "x \<le> y \<Longrightarrow> year_start x \<le> year_start y"
proof -
  have "year_start x \<le> year_start (x + int n)" for n
    by (induction n) (auto simp: add.assoc [symmetric] add.commute [of 1] year_start_step)
  moreover assume "x \<le> y"
  ultimately show ?thesis using zle_iff_zadd by metis
qed

lemma year_start_strict: "x < y \<Longrightarrow> year_start x + 365 \<le> year_start y"
  using year_start_mono [of "x + 1" y] year_start_step [of x] by (auto split: if_splits)

text \<open>Every day lies in its year, and in no other.\<close>

lemma year_of_bounds: "year_start (year_of d) \<le> d \<and> d < year_start (year_of d + 1)"
proof -
  define y where "y = 1970 + (400 * d) div 146097"
  have near: "year_start (y - 1) \<le> d" "d < year_start (y + 2)"
    using div_sandwich [of 146097 "400 * d"] div_sandwich [of 4 "y - 2"] div_sandwich [of 100 "y - 2"]
      div_sandwich [of 400 "y - 2"] div_sandwich [of 4 "y + 1"] div_sandwich [of 100 "y + 1"]
      div_sandwich [of 400 "y + 1"] y_def
    unfolding year_start_def by simp_all
  show ?thesis
    using near unfolding year_of_def Let_def y_def [symmetric] by (auto simp: algebra_simps)
qed

lemma year_of_iff: "year_of d = y \<longleftrightarrow> year_start y \<le> d \<and> d < year_start (y + 1)"
proof
  assume "year_start y \<le> d \<and> d < year_start (y + 1)"
  then show "year_of d = y"
    using year_of_bounds [of d] year_start_mono [of "year_of d + 1" y] year_start_mono [of "y + 1" "year_of d"]
    by (cases "year_of d" y rule: linorder_cases) auto
qed (use year_of_bounds [of d] in auto)

text \<open>Every day of a year lies in one of its months.\<close>

lemma month_start_simps [simp]:
  "month_start l 1 = 0" "month_start l (Suc 0) = 0" "month_start l 2 = 31" "month_start l (Suc (Suc 0)) = 31"
  "month_start l 3 = 59 + of_bool l" "month_start l 4 = 90 + of_bool l"
  "month_start l 5 = 120 + of_bool l" "month_start l 6 = 151 + of_bool l" "month_start l 7 = 181 + of_bool l"
  "month_start l 8 = 212 + of_bool l" "month_start l 9 = 243 + of_bool l" "month_start l 10 = 273 + of_bool l"
  "month_start l 11 = 304 + of_bool l" "month_start l 12 = 334 + of_bool l" "month_start l 13 = 365 + of_bool l"
  by (simp_all add: month_start_def month_days_def)

lemma bracket:
  fixes f :: "nat \<Rightarrow> int"
  shows "f a \<le> n \<Longrightarrow> n < f (a + k) \<Longrightarrow> \<exists>m. a \<le> m \<and> m < a + k \<and> f m \<le> n \<and> n < f (m + 1)"
proof (induction k)
  case (Suc k)
  show ?case
  proof (cases "n < f (a + k)")
    case True
    then obtain m where "a \<le> m" "m < a + k" "f m \<le> n" "n < f (m + 1)" using Suc by blast
    then show ?thesis by (intro exI [of _ m]) simp
  qed (use Suc.prems in \<open>auto intro: exI [of _ "a + k"]\<close>)
qed simp

lemma month_cases:
  assumes "0 \<le> n" "n < 365 + of_bool l"
  obtains m where "m \<in> {1..12}" "month_start l m \<le> n" "n < month_start l (m + 1)"
proof -
  from assms obtain m where "1 \<le> m" "m < 1 + 12" "month_start l m \<le> n" "n < month_start l (m + 1)"
    using bracket [of "month_start l" 1 n 12] by auto
  then show ?thesis by (intro that [of m]) auto
qed

lemma month_start_mono: "m \<in> {1..13} \<Longrightarrow> k \<in> {1..13} \<Longrightarrow> m < k \<Longrightarrow> month_start l m < month_start l k"
proof -
  have "[1..<14] = [1, 2, 3, 4, 5, 6, 7, 8, 9, 10, 11, 12, 13]"
    by code_simp
  then have "sorted_wrt (<) (map (month_start l) [1..<14])"
    by (cases l) simp_all
  then show "m \<in> {1..13} \<Longrightarrow> k \<in> {1..13} \<Longrightarrow> m < k \<Longrightarrow> month_start l m < month_start l k"
    using sorted_wrt_nth_less [of "(<)" "map (month_start l) [1..<14]" "m - 1" "k - 1"] by simp
qed

lemma month_count:
  assumes "m \<in> {1..12}" "month_start l m \<le> n" "n < month_start l (m + 1)"
  shows "length (filter (\<lambda>k. month_start l k \<le> n) [1..<13]) = m"
proof -
  have "filter (\<lambda>k. month_start l k \<le> n) [1..<13] = filter (\<lambda>k. k < m + 1) [1..<13]"
  proof (rule filter_cong [OF refl])
    fix k
    assume "k \<in> set [1..<13]"
    then show "month_start l k \<le> n \<longleftrightarrow> k < m + 1"
      using assms month_start_mono [of k m l] month_start_mono [of "m + 1" k l]
      by (cases k m rule: linorder_cases; cases "k = m + 1") auto
  qed
  also have "\<dots> = [1..<m + 1]"
  proof -
    have "[1..<13] = [1..<m + 1] @ [m + 1..<13]"
      using assms(1) upt_add_eq_append [of 1 "m + 1" "12 - m"] by simp
    then show ?thesis by (simp add: filter_empty_conv del: upt_Suc)
  qed
  finally show ?thesis by simp
qed

text \<open>A date, and the bounds of its fields.\<close>

definition valid_date :: "int \<Rightarrow> nat \<Rightarrow> int \<Rightarrow> bool" where
  "valid_date y m d \<longleftrightarrow> m \<in> {1..12} \<and> 1 \<le> d \<and> month_start (leap y) m + d \<le> month_start (leap y) (m + 1)"

lemma date_of_day_number:
  assumes "valid_date y m d"
  shows "year_of (day_number y m d) = y" "month_of (day_number y m d) = m" "day_of (day_number y m d) = d"
proof -
  have m: "0 \<le> month_start (leap y) m" "month_start (leap y) (m + 1) \<le> 365 + of_bool (leap y)"
    using assms month_start_mono [of 1 m "leap y"] month_start_mono [of "m + 1" 13 "leap y"]
    by (cases "m = 1"; cases "m = 12"; simp add: valid_date_def)+
  then show y: "year_of (day_number y m d) = y"
    using assms year_start_step [of y] unfolding year_of_iff by (auto simp: valid_date_def day_number_def)
  show "month_of (day_number y m d) = m"
    unfolding month_of_def Let_def y
    by (rule month_count) (use assms in \<open>auto simp: valid_date_def day_number_def\<close>)
  then show "day_of (day_number y m d) = d"
    unfolding day_of_def Let_def y by (simp add: day_number_def)
qed

lemma day_number_of_date:
  "day_number (year_of n) (month_of n) (day_of n) = n" "valid_date (year_of n) (month_of n) (day_of n)"
proof -
  show "day_number (year_of n) (month_of n) (day_of n) = n"
    by (simp add: day_number_def day_of_def Let_def)
  define l where "l = leap (year_of n)"
  have "0 \<le> n - year_start (year_of n)" "n - year_start (year_of n) < 365 + of_bool l"
    using year_of_bounds [of n] year_start_step [of "year_of n"] by (auto simp: l_def split: if_splits)
  then obtain m where m: "m \<in> {1..12}" "month_start l m \<le> n - year_start (year_of n)"
    "n - year_start (year_of n) < month_start l (m + 1)"
    by (rule month_cases)
  then have "month_of n = m"
    using month_count [OF m] by (simp add: month_of_def Let_def l_def)
  then show "valid_date (year_of n) (month_of n) (day_of n)"
    using m by (simp add: valid_date_def day_of_def Let_def l_def)
qed

lemmas day_number_dates = date_of_day_number day_number_of_date

end
