(* ===== verification/CronFields.thy ===== *)
theory CronFields
  imports CronTime Scalars
begin

text \<open>
  Cron schedules of \<open>src/runtime/cron.go\<close>: \<open>parseCronSchedule\<close> with its fields, steps and values, and the
  predicate \<open>matches\<close>. The integers are Go's \<open>int\<close>, and the loop over a range adds the step with wrap-around, so an index
  can leave the slice; this panic is the error \<open>CronPanic\<close>. A grammar of field
  texts gives every text a set of numbers, and an accepted schedule matches the instants which the sets
  of its five fields describe.
\<close>

section \<open>Functions of package strings\<close>

text \<open>
  \<open>ToUpper\<close> and \<open>ToLower\<close> map a text of ASCII bytes byte by byte and any other text with the Unicode
  tables, which are the argument \<open>U\<close>.
\<close>

definition ascii :: "string \<Rightarrow> bool" where
  "ascii s \<longleftrightarrow> list_all (\<lambda>c. of_char c < (128 :: nat)) s"

definition upper_byte :: "char \<Rightarrow> char" where
  "upper_byte c = (if 97 \<le> (of_char c :: nat) \<and> (of_char c :: nat) \<le> 122 then char_of (of_char c - 32 :: nat) else c)"

definition lower_byte :: "char \<Rightarrow> char" where
  "lower_byte c = (if 65 \<le> (of_char c :: nat) \<and> (of_char c :: nat) \<le> 90 then char_of (of_char c + 32 :: nat) else c)"

definition to_upper :: "(string \<Rightarrow> string) \<Rightarrow> string \<Rightarrow> string" where
  "to_upper U s = (if ascii s then map upper_byte s else U s)"

definition to_lower :: "(string \<Rightarrow> string) \<Rightarrow> string \<Rightarrow> string" where
  "to_lower L s = (if ascii s then map lower_byte s else L s)"

text \<open>\<open>strings.Cut(s, sep)\<close> for a text that contains the separator.\<close>

definition cut_on :: "char \<Rightarrow> string \<Rightarrow> string \<times> string" where
  "cut_on c s = (takeWhile (\<lambda>x. x \<noteq> c) s, tl (dropWhile (\<lambda>x. x \<noteq> c) s))"

text \<open>\<open>strings.Fields\<close>: the longest pieces without a space.\<close>

lemma found_space_pos: "find f space_codes = Some c \<Longrightarrow> 0 < length c"
  using nth_mem by (metis find_Some_iff space_codes_pos)

function fields_from :: "string \<Rightarrow> string \<Rightarrow> string list" where
  "fields_from w s =
     (if s = [] then (if w = [] then [] else [w])
      else case find (has_prefix s) space_codes of
        Some c \<Rightarrow> (if w = [] then [] else [w]) @ fields_from [] (drop (length c) s)
      | None \<Rightarrow> fields_from (w @ [hd s]) (tl s))"
  by pat_completeness auto
termination
  by (relation "measure (\<lambda>(_, s). length s)") (auto dest: found_space_pos)

declare fields_from.simps [simp del]

definition string_fields :: "string \<Rightarrow> string list" where
  "string_fields s = fields_from [] s"

section \<open>Fields\<close>

record cron_field =
  cf_any :: bool
  cf_min :: int
  cf_max :: int
  cf_values :: "bool list"

datatype cron_error =
    CronFieldCount string
  | CronInField string cron_error
  | CronEmptySegment
  | CronInvalidStep string
  | CronEmptyValue
  | CronInvalidValue string
  | CronOutOfRange string int int
  | CronNoValues
  | CronPanic
  | CronFuel

type_synonym names = "(string \<times> int) list"

definition new_cron_field :: "int \<Rightarrow> int \<Rightarrow> cron_field" where
  "new_cron_field mn mx =
     \<lparr>cf_any = False, cf_min = mn, cf_max = mx, cf_values = replicate (nat (mx - mn + 1)) False\<rparr>"

definition cron_has :: "cron_field \<Rightarrow> int \<Rightarrow> bool" where
  "cron_has f v =
     (if cf_any f then True
      else if v < cf_min f \<or> cf_max f < v then False
      else cf_values f ! nat (v - cf_min f))"

definition cron_month_names :: names where
  "cron_month_names =
     [(''JAN'', 1), (''FEB'', 2), (''MAR'', 3), (''APR'', 4), (''MAY'', 5), (''JUN'', 6),
      (''JUL'', 7), (''AUG'', 8), (''SEP'', 9), (''OCT'', 10), (''NOV'', 11), (''DEC'', 12)]"

definition cron_day_names :: names where
  "cron_day_names =
     [(''SUN'', 0), (''MON'', 1), (''TUE'', 2), (''WED'', 3), (''THU'', 4), (''FRI'', 5), (''SAT'', 6)]"

definition parse_cron_value :: "(string \<Rightarrow> string) \<Rightarrow> names \<Rightarrow> string \<Rightarrow> cron_error + int" where
  "parse_cron_value U names expr =
     (let e = trim_space (to_upper U expr) in
      if e = [] then Inl CronEmptyValue
      else case map_of names e of
        Some v \<Rightarrow> Inr v
      | None \<Rightarrow> (case parse_int64 e of None \<Rightarrow> Inl (CronInvalidValue e) | Some v \<Rightarrow> Inr v))"

definition split_cron_step :: "string \<Rightarrow> cron_error + string \<times> int" where
  "split_cron_step part =
     (if CHR ''/'' \<notin> set part then Inr (part, 1)
      else
        let (base, text) = cut_on (CHR ''/'') part in
        if base = [] \<or> text = [] then Inl (CronInvalidStep part)
        else case parse_int64 text of
          None \<Rightarrow> Inl (CronInvalidStep part)
        | Some k \<Rightarrow> if k \<le> 0 then Inl (CronInvalidStep part) else Inr (base, k))"

definition segment_bounds :: "(string \<Rightarrow> string) \<Rightarrow> names \<Rightarrow> int \<Rightarrow> int \<Rightarrow> string \<Rightarrow> cron_error + int \<times> int" where
  "segment_bounds U names mn mx base =
     (if base = ''*'' then Inr (mn, mx)
      else if CHR ''-'' \<in> set base then
        let (l, r) = cut_on (CHR ''-'') base in
        res_bind (parse_cron_value U names l) (\<lambda>a. res_bind (parse_cron_value U names r) (\<lambda>z. Inr (a, z)))
      else res_bind (parse_cron_value U names base) (\<lambda>a. Inr (a, a)))"

text \<open>\<open>for value := start; value <= end; value += step\<close>, with an index that is checked.\<close>

fun mark_loop :: "nat \<Rightarrow> int \<Rightarrow> int \<Rightarrow> int \<Rightarrow> int \<Rightarrow> bool list \<Rightarrow> cron_error + bool list" where
  "mark_loop 0 v z k mn vs = Inl CronFuel"
| "mark_loop (Suc n) v z k mn vs =
     (if z < v then Inr vs
      else
        let i = wrap64 (v - mn) in
        if i < 0 \<or> int (length vs) \<le> i then Inl CronPanic
        else mark_loop n (wrap64 (v + k)) z k mn (vs[nat i := True]))"

fun parse_segments ::
  "(string \<Rightarrow> string) \<Rightarrow> names \<Rightarrow> int \<Rightarrow> int \<Rightarrow> string list \<Rightarrow> bool list \<Rightarrow> cron_error + bool list"
where
  "parse_segments U names mn mx [] vs = Inr vs"
| "parse_segments U names mn mx (p # ps) vs =
     (let part = trim_space p in
      if part = [] then Inl CronEmptySegment
      else
        res_bind (split_cron_step part) (\<lambda>(base, k).
        res_bind (segment_bounds U names mn mx base) (\<lambda>(a, z).
          if a < mn \<or> mx < z \<or> z < a then Inl (CronOutOfRange base mn mx)
          else res_bind (mark_loop (length vs + 1) a z k mn vs) (parse_segments U names mn mx ps))))"

definition parse_cron_field :: "(string \<Rightarrow> string) \<Rightarrow> string \<Rightarrow> int \<Rightarrow> int \<Rightarrow> names \<Rightarrow> cron_error + cron_field" where
  "parse_cron_field U expr mn mx names =
     (let f = new_cron_field mn mx in
      if expr = ''*'' then Inr (f\<lparr>cf_any := True\<rparr>)
      else
        res_bind (parse_segments U names mn mx (split_on (CHR '','') expr) (cf_values f)) (\<lambda>vs.
          if True \<in> set vs then Inr (f\<lparr>cf_values := vs\<rparr>) else Inl CronNoValues))"

section \<open>Schedules\<close>

record cron_schedule =
  cp_minute :: cron_field
  cp_hour :: cron_field
  cp_dom :: cron_field
  cp_month :: cron_field
  cp_dow :: cron_field

text \<open>\<open>fmt.Errorf("invalid minute field: %w", err)\<close>: a panic is not an error value and passes through.\<close>

fun in_field :: "string \<Rightarrow> cron_error + 'a \<Rightarrow> cron_error + 'a" where
  "in_field name (Inl CronPanic) = Inl CronPanic"
| "in_field name (Inl e) = Inl (CronInField name e)"
| "in_field name (Inr x) = Inr x"

definition parse_cron_schedule :: "(string \<Rightarrow> string) \<Rightarrow> string \<Rightarrow> cron_error + cron_schedule" where
  "parse_cron_schedule U expr =
     (let parts = string_fields (trim_space expr) in
      if length parts \<noteq> 5 then Inl (CronFieldCount expr)
      else
        res_bind (in_field ''minute'' (parse_cron_field U (parts ! 0) 0 59 [])) (\<lambda>mi.
        res_bind (in_field ''hour'' (parse_cron_field U (parts ! 1) 0 23 [])) (\<lambda>h.
        res_bind (in_field ''day-of-month'' (parse_cron_field U (parts ! 2) 1 31 [])) (\<lambda>dom.
        res_bind (in_field ''month'' (parse_cron_field U (parts ! 3) 1 12 cron_month_names)) (\<lambda>mo.
        res_bind (in_field ''day-of-week'' (parse_cron_field U (parts ! 4) 0 7 cron_day_names)) (\<lambda>dow.
          Inr \<lparr>cp_minute = mi, cp_hour = h, cp_dom = dom, cp_month = mo, cp_dow = dow\<rparr>))))))"

definition cron_matches :: "cron_schedule \<Rightarrow> zone \<Rightarrow> instant \<Rightarrow> bool" where
  "cron_matches p z t =
     (let d = local_day z t in
      if \<not> cron_has (cp_minute p) (clock_minute z t) \<or> \<not> cron_has (cp_hour p) (clock_hour z t)
         \<or> \<not> cron_has (cp_month p) (int (month_of d))
      then False
      else
        let dom_match = cron_has (cp_dom p) (day_of d);
            dow = weekday_of d;
            dow_match = (cron_has (cp_dow p) dow \<or> (dow = 0 \<and> cron_has (cp_dow p) 7))
        in if cf_any (cp_dom p) \<and> cf_any (cp_dow p) then True
           else if cf_any (cp_dom p) then dow_match
           else if cf_any (cp_dow p) then dom_match
           else dom_match \<or> dow_match)"

section \<open>Meaning of a field\<close>

text \<open>
  The terms of a field: \<open>cron_base\<close> gives the bounds of a base (a star, a range or a value) and
  \<open>cron_term\<close> adds the step.
\<close>

inductive cron_base :: "(string \<Rightarrow> string) \<Rightarrow> names \<Rightarrow> int \<Rightarrow> int \<Rightarrow> string \<Rightarrow> int \<Rightarrow> int \<Rightarrow> bool"
  for U names mn mx
where
  star: "cron_base U names mn mx ''*'' mn mx"
| range: "CHR ''-'' \<notin> set l \<Longrightarrow> parse_cron_value U names l = Inr a \<Longrightarrow> parse_cron_value U names r = Inr z \<Longrightarrow>
    cron_base U names mn mx (l @ CHR ''-'' # r) a z"
| single: "CHR ''-'' \<notin> set w \<Longrightarrow> w \<noteq> ''*'' \<Longrightarrow> parse_cron_value U names w = Inr a \<Longrightarrow>
    cron_base U names mn mx w a a"

inductive cron_term :: "(string \<Rightarrow> string) \<Rightarrow> names \<Rightarrow> int \<Rightarrow> int \<Rightarrow> string \<Rightarrow> int \<Rightarrow> int \<Rightarrow> int \<Rightarrow> bool"
  for U names mn mx
where
  plain: "cron_base U names mn mx w a z \<Longrightarrow> CHR ''/'' \<notin> set w \<Longrightarrow> cron_term U names mn mx w a z 1"
| stepped: "cron_base U names mn mx w a z \<Longrightarrow> CHR ''/'' \<notin> set w \<Longrightarrow> w \<noteq> [] \<Longrightarrow> parse_int64 s = Some k \<Longrightarrow> 0 < k \<Longrightarrow>
    cron_term U names mn mx (w @ CHR ''/'' # s) a z k"

text \<open>The numbers a field denotes.\<close>

definition cron_numbers :: "(string \<Rightarrow> string) \<Rightarrow> names \<Rightarrow> int \<Rightarrow> int \<Rightarrow> string \<Rightarrow> int set" where
  "cron_numbers U names mn mx w =
     (if w = ''*'' then {mn..mx}
      else {v. \<exists>p\<in>set (split_on (CHR '','') w). \<exists>a z k.
        cron_term U names mn mx (trim_space p) a z k \<and> a \<le> v \<and> v \<le> z \<and> k dvd (v - a)})"

section \<open>The parser computes the meaning\<close>

lemma wrap64_small: "- (2 ^ 63) \<le> i \<Longrightarrow> i < 2 ^ 63 \<Longrightarrow> wrap64 i = i"
  by (simp add: wrap64_def)

lemma wrap64_over: "2 ^ 63 \<le> i \<Longrightarrow> i < 2 ^ 63 + 2 ^ 63 \<Longrightarrow> wrap64 i = i - 2 ^ 64"
  using int_mod_pos_eq [of "i + 2 ^ 63" "2 ^ 64" 1 "i - 2 ^ 63"] by (simp add: wrap64_def)

lemma wrap64_under: "- (2 ^ 63) - 2 ^ 63 \<le> i \<Longrightarrow> i < - (2 ^ 63) \<Longrightarrow> wrap64 i = i + 2 ^ 64"
  using int_mod_pos_eq [of "i + 2 ^ 63" "2 ^ 64" "-1" "i + 2 ^ 63 + 2 ^ 64"] by (simp add: wrap64_def)

text \<open>The loop marks the progression from \<open>v\<close> by \<open>k\<close> up to \<open>z\<close>, unless adding the step leaves 64 bits.\<close>

definition progression :: "int \<Rightarrow> int \<Rightarrow> int \<Rightarrow> int set" where
  "progression v z k = {x. v \<le> x \<and> x \<le> z \<and> k dvd (x - v)}"

lemma progression_step: "0 < k \<Longrightarrow> v \<le> z \<Longrightarrow> progression v z k = insert v (progression (v + k) z k)"
proof (intro set_eqI iffI)
  fix x
  assume k: "0 < k" "v \<le> z" and x: "x \<in> progression v z k"
  then obtain j where j: "x - v = k * j" by (auto simp: progression_def dvd_def)
  have "0 \<le> k * j" using x j by (simp add: progression_def)
  then have "0 \<le> j" using k by (simp add: zero_le_mult_iff)
  then have "x = v \<or> v + k \<le> x \<and> x - (v + k) = k * (j - 1)"
    using j k mult_left_mono [of 1 j k] by (cases "j = 0") (auto simp: algebra_simps)
  then show "x \<in> insert v (progression (v + k) z k)"
    using x by (auto simp: progression_def)
next
  fix x
  assume "0 < k" "v \<le> z" "x \<in> insert v (progression (v + k) z k)"
  then show "x \<in> progression v z k"
    using dvd_add [of k "x - (v + k)" k] by (auto simp: progression_def)
qed

lemma progression_empty: "z < v \<Longrightarrow> progression v z k = {}"
  by (auto simp: progression_def)

definition marked :: "int \<Rightarrow> bool list \<Rightarrow> int set" where
  "marked mn vs = {x. mn \<le> x \<and> x - mn < int (length vs) \<and> vs ! nat (x - mn)}"

lemma marked_update:
  "mn \<le> v \<Longrightarrow> v - mn < int (length vs) \<Longrightarrow> marked mn (vs[nat (v - mn) := True]) = insert v (marked mn vs)"
  by (auto simp: marked_def nth_list_update split: if_splits)

lemma mark_loop_result:
  assumes "0 \<le> mn" "mn \<le> v" "z - mn < int (length vs)" "int (length vs) < 2 ^ 62" "mn < 2 ^ 62" "0 < k" "k < 2 ^ 63"
    and "z - v + 1 < int n" "0 < n" "v \<le> 2 ^ 63 - 1"
  shows "mark_loop n v z k mn vs = Inl CronPanic
    \<or> (\<exists>vs'. mark_loop n v z k mn vs = Inr vs' \<and> length vs' = length vs \<and> marked mn vs' = marked mn vs \<union> progression v z k)"
  using assms
proof (induction n arbitrary: v vs)
  case (Suc n)
  show ?case
  proof (cases "z < v")
    case False
    then have v: "v \<le> z" by simp
    then have n: "0 < n" using Suc.prems by simp
    have i: "wrap64 (v - mn) = v - mn" "0 \<le> v - mn" "v - mn < int (length vs)"
      using v Suc.prems by (auto intro!: wrap64_small)
    have step: "mark_loop (Suc n) v z k mn vs = mark_loop n (wrap64 (v + k)) z k mn (vs[nat (v - mn) := True])"
      using v i by (simp add: Let_def)
    show ?thesis
    proof (cases "v + k < 2 ^ 63")
      case True
      then have "wrap64 (v + k) = v + k" using Suc.prems by (intro wrap64_small) auto
      moreover have "progression v z k = insert v (progression (v + k) z k)"
        using v Suc.prems by (simp add: progression_step)
      moreover have "marked mn (vs[nat (v - mn) := True]) = insert v (marked mn vs)"
        using i Suc.prems by (simp add: marked_update)
      ultimately show ?thesis
        using Suc.IH [of "v + k" "vs[nat (v - mn) := True]"] Suc.prems v n True unfolding step by fastforce
    next
      case False
      have "v < 2 ^ 63" using v Suc.prems by linarith
      then have w: "wrap64 (v + k) = v + k - 2 ^ 64" using False Suc.prems by (intro wrap64_over) auto
      have "v + k - 2 ^ 64 \<le> z" "v + k - 2 ^ 64 < 0" "- (2 ^ 63) \<le> v + k - 2 ^ 64"
        using v False Suc.prems \<open>v < 2 ^ 63\<close> by auto
      then have "wrap64 (v + k - 2 ^ 64 - mn) < 0 \<or> int (length vs) \<le> wrap64 (v + k - 2 ^ 64 - mn)"
        using Suc.prems wrap64_small [of "v + k - 2 ^ 64 - mn"] wrap64_under [of "v + k - 2 ^ 64 - mn"]
        by (cases "- (2 ^ 63) \<le> v + k - 2 ^ 64 - mn") auto
      then show ?thesis
        using n \<open>v + k - 2 ^ 64 \<le> z\<close> unfolding step w by (cases n) (auto simp: Let_def)
    qed
  qed (simp add: progression_empty)
qed simp

lemma cut_on_append: "c \<notin> set l \<Longrightarrow> cut_on c (l @ c # r) = (l, r)"
  by (induction l) (auto simp: cut_on_def)

lemma cut_onE:
  assumes "c \<in> set s"
  obtains l r where "s = l @ c # r" "c \<notin> set l" "cut_on c s = (l, r)"
  using split_list_first [OF assms] cut_on_append by blast

lemma segment_bounds_iff: "segment_bounds U names mn mx w = Inr (a, z) \<longleftrightarrow> cron_base U names mn mx w a z"
proof
  assume bounds: "segment_bounds U names mn mx w = Inr (a, z)"
  show "cron_base U names mn mx w a z"
  proof (cases "CHR ''-'' \<in> set w")
    case True
    then obtain l r where w: "w = l @ CHR ''-'' # r" "CHR ''-'' \<notin> set l" "cut_on (CHR ''-'') w = (l, r)"
      by (rule cut_onE)
    then have "w \<noteq> ''*''" by (cases l) auto
    then show ?thesis
      using bounds True w cron_base.range [of l U names a r z mn mx] by (simp add: segment_bounds_def)
  qed (use bounds in \<open>auto simp: segment_bounds_def split: if_splits intro: cron_base.intros\<close>)
next
  assume "cron_base U names mn mx w a z"
  then show "segment_bounds U names mn mx w = Inr (a, z)"
    by cases (auto simp: segment_bounds_def cut_on_append append_eq_Cons_conv)
qed

lemma cron_term_iff:
  "cron_term U names mn mx w a z k \<longleftrightarrow> (\<exists>b. split_cron_step w = Inr (b, k) \<and> cron_base U names mn mx b a z)"
proof
  assume "cron_term U names mn mx w a z k"
  then show "\<exists>b. split_cron_step w = Inr (b, k) \<and> cron_base U names mn mx b a z"
    by cases (auto simp: split_cron_step_def cut_on_append parse_int64_def read_int_def all_digits_def)
next
  assume "\<exists>b. split_cron_step w = Inr (b, k) \<and> cron_base U names mn mx b a z"
  then obtain b where b: "split_cron_step w = Inr (b, k)" "cron_base U names mn mx b a z" by blast
  show "cron_term U names mn mx w a z k"
  proof (cases "CHR ''/'' \<in> set w")
    case True
    then obtain l r where "w = l @ CHR ''/'' # r" "CHR ''/'' \<notin> set l" "cut_on (CHR ''/'') w = (l, r)"
      by (rule cut_onE)
    then show ?thesis
      using b by (auto simp: split_cron_step_def split: if_splits option.splits intro: cron_term.stepped)
  qed (use b in \<open>auto simp: split_cron_step_def intro: cron_term.plain\<close>)
qed

text \<open>What the segments of a field mark.\<close>

definition segment_numbers :: "(string \<Rightarrow> string) \<Rightarrow> names \<Rightarrow> int \<Rightarrow> int \<Rightarrow> string \<Rightarrow> int set" where
  "segment_numbers U names mn mx p =
     {v. \<exists>a z k. cron_term U names mn mx (trim_space p) a z k \<and> v \<in> progression a z k}"

lemma split_cron_step_range: "split_cron_step w = Inr (b, k) \<Longrightarrow> 0 < k \<and> k < 2 ^ 63"
  by (auto simp: split_cron_step_def parse_int64_def split: if_splits option.splits prod.splits)

lemma parse_segments_result:
  assumes "parse_segments U names mn mx ps vs = Inr vs'"
    and "0 \<le> mn" "mx < 2 ^ 61" "int (length vs) = mx - mn + 1"
  shows "length vs' = length vs \<and> marked mn vs' = marked mn vs \<union> (\<Union>p\<in>set ps. segment_numbers U names mn mx p)"
  using assms
proof (induction ps arbitrary: vs)
  case (Cons p ps)
  obtain b k a z vs1 where p: "split_cron_step (trim_space p) = Inr (b, k)" "segment_bounds U names mn mx b = Inr (a, z)"
    "mn \<le> a" "a \<le> z" "z \<le> mx" "mark_loop (length vs + 1) a z k mn vs = Inr vs1"
    "parse_segments U names mn mx ps vs1 = Inr vs'"
    using Cons.prems(1) by (fastforce simp: Let_def split: if_splits prod.splits)
  have "mark_loop (length vs + 1) a z k mn vs = Inl CronPanic
    \<or> (\<exists>vs'. mark_loop (length vs + 1) a z k mn vs = Inr vs' \<and> length vs' = length vs
        \<and> marked mn vs' = marked mn vs \<union> progression a z k)"
    by (rule mark_loop_result) (use Cons.prems p split_cron_step_range [OF p(1)] in auto)
  then have vs1: "length vs1 = length vs" "marked mn vs1 = marked mn vs \<union> progression a z k"
    using p by auto
  have "segment_numbers U names mn mx p = progression a z k"
    using p by (auto simp: segment_numbers_def cron_term_iff segment_bounds_iff [symmetric])
  with Cons.IH [OF p(7)] vs1 Cons.prems show ?case by auto
qed simp

lemma marked_replicate [simp]: "marked mn (replicate n False) = {}"
  by (auto simp: marked_def)

lemma parse_cron_field_result:
  assumes "parse_cron_field U w mn mx names = Inr f" "0 \<le> mn" "mn \<le> mx" "mx < 2 ^ 61"
  shows "cf_any f \<longleftrightarrow> w = ''*''"
    and "mn \<le> v \<Longrightarrow> v \<le> mx \<Longrightarrow> cron_has f v \<longleftrightarrow> v \<in> cron_numbers U names mn mx w"
proof -
  have "(cf_any f \<longleftrightarrow> w = ''*'')
    \<and> (mn \<le> v \<and> v \<le> mx \<longrightarrow> (cron_has f v \<longleftrightarrow> v \<in> cron_numbers U names mn mx w))"
  proof (cases "w = ''*''")
    case False
    then obtain vs where vs: "parse_segments U names mn mx (split_on (CHR '','') w) (replicate (nat (mx - mn + 1)) False) = Inr vs"
      "f = (new_cron_field mn mx)\<lparr>cf_values := vs\<rparr>"
      using assms(1) by (auto simp: parse_cron_field_def Let_def new_cron_field_def split: if_splits)
    have len: "length vs = nat (mx - mn + 1)"
      and marks: "marked mn vs = (\<Union>p\<in>set (split_on (CHR '','') w). segment_numbers U names mn mx p)"
      using parse_segments_result [OF vs(1)] assms by simp_all
    have "v \<in> marked mn vs \<longleftrightarrow> v \<in> cron_numbers U names mn mx w"
      unfolding marks using False by (simp add: cron_numbers_def segment_numbers_def progression_def)
    then show ?thesis
      using False assms vs(2) len by (auto simp: new_cron_field_def cron_has_def marked_def)
  qed (use assms(1) in \<open>auto simp: parse_cron_field_def cron_has_def cron_numbers_def\<close>)
  then show "cf_any f \<longleftrightarrow> w = ''*''"
    and "mn \<le> v \<Longrightarrow> v \<le> mx \<Longrightarrow> cron_has f v \<longleftrightarrow> v \<in> cron_numbers U names mn mx w"
    by auto
qed

section \<open>Meaning of a schedule\<close>

text \<open>
  The instants that five field texts describe. The two day fields restrict independently: with a
  star in one of them the other decides, otherwise a day has to satisfy only one. Sunday is 0 and 7.
\<close>

definition schedule_denotes :: "(string \<Rightarrow> string) \<Rightarrow> string list \<Rightarrow> zone \<Rightarrow> instant \<Rightarrow> bool" where
  "schedule_denotes U ws z t \<longleftrightarrow>
     (let d = local_day z t;
          dom = (day_of d \<in> cron_numbers U [] 1 31 (ws ! 2));
          dow = (\<exists>n\<in>{0..7}. n \<in> cron_numbers U cron_day_names 0 7 (ws ! 4) \<and> n mod 7 = weekday_of d)
      in clock_minute z t \<in> cron_numbers U [] 0 59 (ws ! 0)
         \<and> clock_hour z t \<in> cron_numbers U [] 0 23 (ws ! 1)
         \<and> int (month_of d) \<in> cron_numbers U cron_month_names 1 12 (ws ! 3)
         \<and> (if ws ! 2 = ''*'' then dow else if ws ! 4 = ''*'' then dom else dom \<or> dow))"

lemma clock_ranges:
  "0 \<le> clock_minute z t" "clock_minute z t \<le> 59" "0 \<le> clock_hour z t" "clock_hour z t \<le> 23"
  "0 \<le> weekday_of d" "weekday_of d \<le> 6" "1 \<le> month_of d" "month_of d \<le> 12" "1 \<le> day_of d"
  using day_number_of_date(2) [of d]
  by (auto simp: clock_minute_def clock_hour_def weekday_of_def valid_date_def pos_imp_zdiv_nonneg_iff)

lemma month_length: "m \<in> {1..12} \<Longrightarrow> month_start l (m + 1) \<le> month_start l m + 31"
proof -
  assume "m \<in> {1..12}"
  then have "m \<in> {1, 2, 3, 4, 5, 6, 7, 8, 9, 10, 11, 12}" by (simp, presburger)
  then show ?thesis by (cases l) auto
qed

lemma day_of_bound: "day_of d \<le> 31"
  using day_number_of_date(2) [of d] month_length [of "month_of d" "leap (year_of d)"] by (simp add: valid_date_def)

lemma weekday_numbers:
  "(\<exists>n\<in>{0..7}. n \<in> S \<and> n mod 7 = weekday_of d) \<longleftrightarrow> weekday_of d \<in> S \<or> weekday_of d = 0 \<and> 7 \<in> S"
proof
  assume "\<exists>n\<in>{0..7}. n \<in> S \<and> n mod 7 = weekday_of d"
  then obtain n where "0 \<le> n" "n \<le> 7" "n \<in> S" "n mod 7 = weekday_of d" by auto
  then show "weekday_of d \<in> S \<or> weekday_of d = 0 \<and> 7 \<in> S"
    by (cases "n = 7") auto
next
  assume "weekday_of d \<in> S \<or> weekday_of d = 0 \<and> 7 \<in> S"
  then show "\<exists>n\<in>{0..7}. n \<in> S \<and> n mod 7 = weekday_of d"
    using clock_ranges(5,6) [of d] by (auto intro: bexI [of _ "weekday_of d"] bexI [of _ 7])
qed

lemma in_field_Inr [simp]: "in_field name r = Inr x \<longleftrightarrow> r = Inr x"
  by (cases "(name, r)" rule: in_field.cases) auto

lemma cron_matches_denotes:
  assumes "parse_cron_schedule U expr = Inr p"
  shows "cron_matches p z t \<longleftrightarrow> schedule_denotes U (string_fields (trim_space expr)) z t"
proof -
  let ?ws = "string_fields (trim_space expr)" and ?d = "local_day z t"
  have parsed: "parse_cron_field U (?ws ! 0) 0 59 [] = Inr (cp_minute p)"
    "parse_cron_field U (?ws ! 1) 0 23 [] = Inr (cp_hour p)"
    "parse_cron_field U (?ws ! 2) 1 31 [] = Inr (cp_dom p)"
    "parse_cron_field U (?ws ! 3) 1 12 cron_month_names = Inr (cp_month p)"
    "parse_cron_field U (?ws ! 4) 0 7 cron_day_names = Inr (cp_dow p)"
    using assms by (auto simp: parse_cron_schedule_def Let_def split: if_splits)
  note result = parsed [THEN parse_cron_field_result(2)] and any = parsed [THEN parse_cron_field_result(1)]
  have dow: "cron_has (cp_dow p) (weekday_of ?d) \<or> weekday_of ?d = 0 \<and> cron_has (cp_dow p) 7
    \<longleftrightarrow> (\<exists>n\<in>{0..7}. n \<in> cron_numbers U cron_day_names 0 7 (?ws ! 4) \<and> n mod 7 = weekday_of ?d)"
    unfolding weekday_numbers using result(5) [of "weekday_of ?d"] result(5) [of 7] clock_ranges(5,6) [of ?d] by auto
  have star: "cf_any (cp_dow p) \<Longrightarrow> cron_has (cp_dow p) (weekday_of ?d)" by (simp add: cron_has_def)
  show ?thesis
    using result(1) [of "clock_minute z t"] result(2) [of "clock_hour z t"] result(3) [of "day_of ?d"]
      result(4) [of "int (month_of ?d)"] any(3,5) clock_ranges(1-4) [of z t] clock_ranges(5-9) [of ?d] day_of_bound [of ?d] star
    unfolding cron_matches_def schedule_denotes_def Let_def dow [symmetric] by auto
qed

end
