(* ===== verification/CronPlan.thy ===== *)
theory CronPlan
  imports CronFields "HOL-Library.Signed_Division"
begin

text \<open>
  When a job is due: the plans of \<open>src/runtime/cron.go\<close> and the calendar rules of
  \<open>src/internal/calendartrigger/calendar.go\<close>. Both kinds of schedule look for the next minute that
  matches, up to five years ahead; the locale \<open>minute_search\<close> holds what such a search returns. Validation
  turns the declaration of a job into its plan.
\<close>

section \<open>Calendar rules\<close>

record calendar_rule =
  cr_frequency :: string
  cr_interval :: int
  cr_hour :: int
  cr_minute :: int
  cr_weekdays :: "int list"
  cr_month_day :: int
  cr_month :: int

datatype calendar_error =
    CalendarEmpty
  | CalendarComponent
  | CalendarFrequency
  | CalendarNotCanonical string
  | CalendarBounds string int int
  | CalendarByDayWeekly
  | CalendarWeekday
  | CalendarMonthDayFrequency
  | CalendarMonthFrequency
  | CalendarUnsupported "string list"

fun calendar_components :: "(string \<Rightarrow> string) \<Rightarrow> string list \<Rightarrow> (string \<times> string) list \<Rightarrow> calendar_error + (string \<times> string) list" where
  "calendar_components U [] vs = Inr vs"
| "calendar_components U (c # cs) vs =
     (if CHR ''='' \<notin> set c then Inl CalendarComponent
      else
        let (key, v) = cut_on (CHR ''='') c in
        if key = [] \<or> v = [] \<or> key \<noteq> to_upper U key \<or> map_of vs key \<noteq> None then Inl CalendarComponent
        else calendar_components U cs (vs @ [(key, v)]))"

definition bounded_integer :: "string \<Rightarrow> string \<Rightarrow> int \<Rightarrow> int \<Rightarrow> calendar_error + int" where
  "bounded_integer key v mn mx =
     (if v \<noteq> ''0'' \<and> has_prefix v ''0'' then Inl (CalendarNotCanonical key)
      else case parse_int64 v of
        None \<Rightarrow> Inl (CalendarBounds key mn mx)
      | Some i \<Rightarrow> if i < mn \<or> mx < i then Inl (CalendarBounds key mn mx) else Inr i)"

definition calendar_integer :: "(string \<times> string) list \<Rightarrow> string \<Rightarrow> int \<Rightarrow> int \<Rightarrow> int \<Rightarrow> calendar_error + int" where
  "calendar_integer vs key deflt mn mx =
     (case map_of vs key of None \<Rightarrow> Inr deflt | Some v \<Rightarrow> bounded_integer key v mn mx)"

definition weekdays :: "(string \<times> int) list" where
  "weekdays = [(''SU'', 0), (''MO'', 1), (''TU'', 2), (''WE'', 3), (''TH'', 4), (''FR'', 5), (''SA'', 6)]"

fun calendar_weekdays :: "string list \<Rightarrow> int list \<Rightarrow> calendar_error + int list" where
  "calendar_weekdays [] ds = Inr ds"
| "calendar_weekdays (w # ws) ds =
     (case map_of weekdays w of
        None \<Rightarrow> Inl CalendarWeekday
      | Some d \<Rightarrow> if d \<in> set ds then Inl CalendarWeekday else calendar_weekdays ws (ds @ [d]))"

definition calendar_keys :: "string list" where
  "calendar_keys = [''FREQ'', ''INTERVAL'', ''BYHOUR'', ''BYMINUTE'', ''BYDAY'', ''BYMONTHDAY'', ''BYMONTH'']"

text \<open>The message for unknown components names one of them; the error keeps them all.\<close>

definition parse_calendar :: "(string \<Rightarrow> string) \<Rightarrow> string \<Rightarrow> calendar_error + calendar_rule" where
  "parse_calendar U source =
     (let s = trim_space source in
      if s = [] then Inl CalendarEmpty
      else
        res_bind (calendar_components U (split_on (CHR '';'') s) []) (\<lambda>vs.
        let freq = (case map_of vs ''FREQ'' of None \<Rightarrow> [] | Some f \<Rightarrow> f) in
        if freq \<notin> set [''DAILY'', ''WEEKLY'', ''MONTHLY'', ''YEARLY''] then Inl CalendarFrequency
        else
          res_bind (calendar_integer vs ''INTERVAL'' 1 1 366) (\<lambda>interval.
          res_bind (calendar_integer vs ''BYHOUR'' 0 0 23) (\<lambda>hour.
          res_bind (calendar_integer vs ''BYMINUTE'' 0 0 59) (\<lambda>mi.
          res_bind
            (case map_of vs ''BYDAY'' of
               None \<Rightarrow> Inr []
             | Some v \<Rightarrow> if freq \<noteq> ''WEEKLY'' then Inl CalendarByDayWeekly
                 else calendar_weekdays (split_on (CHR '','') v) []) (\<lambda>days.
          res_bind
            (if map_of vs ''BYMONTHDAY'' \<noteq> None \<and> freq \<noteq> ''MONTHLY'' \<and> freq \<noteq> ''YEARLY''
             then Inl CalendarMonthDayFrequency else calendar_integer vs ''BYMONTHDAY'' 1 1 31) (\<lambda>mday.
          res_bind
            (if map_of vs ''BYMONTH'' \<noteq> None \<and> freq \<noteq> ''YEARLY''
             then Inl CalendarMonthFrequency else calendar_integer vs ''BYMONTH'' 1 1 12) (\<lambda>month.
          let rest = filter (\<lambda>k. k \<notin> set calendar_keys) (map fst vs) in
          if rest \<noteq> [] then Inl (CalendarUnsupported rest)
          else Inr \<lparr>cr_frequency = freq, cr_interval = interval, cr_hour = hour, cr_minute = mi,
                 cr_weekdays = (if freq = ''WEEKLY'' \<and> days = [] then [1] else days),
                 cr_month_day = mday, cr_month = month\<rparr>))))))))"

definition positive_modulo :: "int \<Rightarrow> int \<Rightarrow> int" where
  "positive_modulo v m = (let r = v smod m in if r < 0 then r + m else r)"

definition calendar_day :: "zone \<Rightarrow> instant \<Rightarrow> int" where
  "calendar_day z t = (let d = local_day z t in day_number (year_of d) (month_of d) (day_of d))"

definition calendar_matches :: "calendar_rule \<Rightarrow> zone \<Rightarrow> instant \<Rightarrow> bool" where
  "calendar_matches r z t =
     (let d = local_day z t; f = cr_frequency r in
      if clock_hour z t \<noteq> cr_hour r \<or> clock_minute z t \<noteq> cr_minute r then False
      else if f = ''DAILY'' then
        positive_modulo (calendar_day z t - calendar_day z (midnight z 1970 1 1)) (cr_interval r) = 0
      else if f = ''WEEKLY'' then
        positive_modulo ((calendar_day z t - calendar_day z (midnight z 1970 1 5)) sdiv 7) (cr_interval r) = 0
        \<and> weekday_of d \<in> set (cr_weekdays r)
      else if f = ''MONTHLY'' then
        positive_modulo ((year_of d - 1970) * 12 + int (month_of d) - 1) (cr_interval r) = 0
        \<and> day_of d = cr_month_day r
      else if f = ''YEARLY'' then
        positive_modulo (year_of d - 1970) (cr_interval r) = 0
        \<and> int (month_of d) = cr_month r \<and> day_of d = cr_month_day r
      else False)"

section \<open>Plans\<close>

datatype cron_plan =
    EveryPlan int
  | SchedulePlan cron_schedule zone
  | AtPlan instant
  | CalendarPlan calendar_rule zone

definition max_cron_schedule_horizon :: int where
  "max_cron_schedule_horizon = 5 * 366 * day"

function cron_search :: "cron_schedule \<Rightarrow> zone \<Rightarrow> instant \<Rightarrow> instant \<Rightarrow> instant" where
  "cron_search p z deadline t =
     (if deadline < t then zero_time
      else if cron_matches p z t then t
      else cron_search p z deadline (t + minute))"
  by pat_completeness auto
termination
  by (relation "measure (\<lambda>(_, _, deadline, t). nat (deadline - t + 1))") (auto simp: minute_def second_def)

function calendar_search :: "calendar_rule \<Rightarrow> zone \<Rightarrow> instant \<Rightarrow> instant \<Rightarrow> instant" where
  "calendar_search r z deadline t =
     (if deadline < t then zero_time
      else if calendar_matches r z t then t
      else calendar_search r z deadline (t + minute))"
  by pat_completeness auto
termination
  by (relation "measure (\<lambda>(_, _, deadline, t). nat (deadline - t + 1))") (auto simp: minute_def second_def)

declare cron_search.simps [simp del] calendar_search.simps [simp del]

definition every_next :: "int \<Rightarrow> instant \<Rightarrow> instant" where
  "every_next interval after =
     (let s = interval sdiv second in second * ((unix after sdiv s + 1) * s))"

definition cron_next :: "cron_schedule \<Rightarrow> zone \<Rightarrow> instant \<Rightarrow> instant" where
  "cron_next p z after =
     (let t = truncate_minute after + minute in cron_search p z (t + max_cron_schedule_horizon) t)"

definition calendar_next :: "calendar_rule \<Rightarrow> zone \<Rightarrow> instant \<Rightarrow> instant" where
  "calendar_next r z after =
     (let t = truncate_minute after + minute in calendar_search r z (t + 5 * 366 * 24 * 60 * minute) t)"

definition at_next :: "instant \<Rightarrow> instant \<Rightarrow> instant" where
  "at_next at after = (if after < at then at else zero_time)"

fun plan_next :: "cron_plan \<Rightarrow> instant \<Rightarrow> instant" where
  "plan_next (EveryPlan i) after = every_next i after"
| "plan_next (SchedulePlan p z) after = cron_next p z after"
| "plan_next (AtPlan at) after = at_next at after"
| "plan_next (CalendarPlan r z) after = calendar_next r z after"

section \<open>Jobs\<close>

record cron_job =
  job_id :: string
  job_title :: string
  job_every :: int
  job_schedule :: string
  job_calendar :: string
  job_at :: instant
  job_timezone :: string
  job_overlap :: string
  job_catchup :: int
  job_invoke :: bool
  job_plan :: "cron_plan option"

datatype job_error =
    JobNil
  | JobInvalidId string
  | JobNoEndpoint string
  | JobSelectors string
  | JobOverlap string
  | JobCatchup string
  | JobEverySeconds string
  | JobEveryDay string
  | JobTimezone string string
  | JobCalendar string calendar_error
  | JobSchedule string cron_error
  | JobPanic
  | JobDuplicate string

definition overlap_policies :: "string list" where
  "overlap_policies =
     [[], ''skip'', ''buffer_one'', ''buffer_all'', ''cancel_other'', ''terminate_other'', ''allow_all'']"

definition validate_cron_overlap_policy :: "(string \<Rightarrow> string) \<Rightarrow> string \<Rightarrow> job_error + unit" where
  "validate_cron_overlap_policy L policy =
     (if trim_space (to_lower L policy) \<in> set overlap_policies then Inr () else Inl (JobOverlap policy))"

definition lower_letter :: "char \<Rightarrow> bool" where
  "lower_letter c \<longleftrightarrow> 97 \<le> (of_char c :: nat) \<and> (of_char c :: nat) \<le> 122"

text \<open>A byte outside ASCII is part of a code point that no branch of the loop accepts.\<close>

definition is_valid_cron_job_id :: "string \<Rightarrow> bool" where
  "is_valid_cron_job_id s \<longleftrightarrow>
     0 < length s \<and> length s \<le> 63
     \<and> (\<forall>i<length s.
          if i = 0 then lower_letter (s ! i)
          else if i = length s - 1 then lower_letter (s ! i) \<or> is_digit (s ! i)
          else lower_letter (s ! i) \<or> is_digit (s ! i) \<or> s ! i = CHR ''-'')"

text \<open>
  The plan of a job with one selector; \<open>load\<close> is \<open>time.LoadLocation\<close>, which reads the time zone
  database.
\<close>

definition cron_job_plan :: "(string \<Rightarrow> string) \<Rightarrow> (string \<Rightarrow> zone option) \<Rightarrow> cron_job \<Rightarrow> job_error + cron_plan" where
  "cron_job_plan U load job =
     (if 0 < job_every job then
        (if job_every job smod second \<noteq> 0 then Inl (JobEverySeconds (job_id job))
         else if day smod job_every job \<noteq> 0 then Inl (JobEveryDay (job_id job))
         else Inr (EveryPlan (job_every job)))
      else if job_at job \<noteq> zero_time then Inr (AtPlan (job_at job))
      else
        let name = (if trim_space (job_timezone job) = [] then ''UTC'' else trim_space (job_timezone job)) in
        case load name of
          None \<Rightarrow> Inl (JobTimezone (job_id job) name)
        | Some z \<Rightarrow>
            if trim_space (job_calendar job) \<noteq> [] then
              (case parse_calendar U (job_calendar job) of
                 Inl e \<Rightarrow> Inl (JobCalendar (job_id job) e)
               | Inr r \<Rightarrow> Inr (CalendarPlan r z))
            else
              (case parse_cron_schedule U (job_schedule job) of
                 Inl e \<Rightarrow> Inl (if e = CronPanic then JobPanic else JobSchedule (job_id job) e)
               | Inr p \<Rightarrow> Inr (SchedulePlan p z)))"

text \<open>\<open>validateCronJob\<close>: the result is the job with its title and its plan.\<close>

definition validate_cron_job ::
  "(string \<Rightarrow> string) \<Rightarrow> (string \<Rightarrow> string) \<Rightarrow> (string \<Rightarrow> zone option) \<Rightarrow> cron_job option \<Rightarrow> job_error + cron_job"
where
  "validate_cron_job U L load job_opt =
     (case job_opt of None \<Rightarrow> Inl JobNil | Some job0 \<Rightarrow>
      if \<not> is_valid_cron_job_id (job_id job0) then Inl (JobInvalidId (job_id job0))
      else if \<not> job_invoke job0 then Inl (JobNoEndpoint (job_id job0))
      else
        let job = (if job_title job0 = [] then job0\<lparr>job_title := job_id job0\<rparr> else job0);
            selectors = [0 < job_every job, trim_space (job_schedule job) \<noteq> [], trim_space (job_calendar job) \<noteq> [],
              job_at job \<noteq> zero_time]
        in if length (filter id selectors) \<noteq> 1 then Inl (JobSelectors (job_id job))
           else res_bind (validate_cron_overlap_policy L (job_overlap job)) (\<lambda>_.
             if job_catchup job < 0 then Inl (JobCatchup (job_id job))
             else res_bind (cron_job_plan U load job) (\<lambda>plan. Inr (job\<lparr>job_plan := Some plan\<rparr>))))"

definition register_cron_job ::
  "(string \<Rightarrow> string) \<Rightarrow> (string \<Rightarrow> string) \<Rightarrow> (string \<Rightarrow> zone option) \<Rightarrow> (string \<times> cron_job) list \<Rightarrow> cron_job option \<Rightarrow>
   job_error + (string \<times> cron_job) list"
where
  "register_cron_job U L load jobs job_opt =
     res_bind (validate_cron_job U L load job_opt) (\<lambda>job.
       if map_of jobs (job_id job) \<noteq> None then Inl (JobDuplicate (job_id job))
       else Inr (jobs @ [(job_id job, job)]))"

section \<open>Searching for a minute\<close>

text \<open>The minutes after an instant, up to the horizon.\<close>

definition horizon :: "instant \<Rightarrow> instant" where
  "horizon after = truncate_minute after + minute + max_cron_schedule_horizon"

definition next_occurrence :: "(instant \<Rightarrow> bool) \<Rightarrow> instant \<Rightarrow> instant \<Rightarrow> bool" where
  "next_occurrence m after t \<longleftrightarrow>
     minute dvd t \<and> after < t \<and> m t \<and> (\<forall>u. minute dvd u \<longrightarrow> after < u \<longrightarrow> u < t \<longrightarrow> \<not> m u)"

lemma minute_pos [simp]: "0 < minute" "minute \<noteq> 0"
  by (simp_all add: minute_def second_def)

lemma minute_after:
  assumes "minute dvd u"
  shows "after < u \<longleftrightarrow> truncate_minute after + minute \<le> u"
proof
  assume "after < u"
  then have "truncate_minute after < u"
    using pos_mod_sign [OF minute_pos(1), of after] unfolding truncate_minute_def by linarith
  moreover have "minute dvd u - truncate_minute after"
    using assms by (simp add: truncate_minute_def minus_mod_eq_mult_div dvd_diff)
  ultimately show "truncate_minute after + minute \<le> u"
    using zdvd_imp_le [of minute "u - truncate_minute after"] by simp
qed (use pos_mod_bound [OF minute_pos(1), of after] in \<open>unfold truncate_minute_def, linarith\<close>)

lemma truncate_dvd [simp]: "minute dvd truncate_minute t"
  by (simp add: truncate_minute_def minus_mod_eq_mult_div)

text \<open>What a search from \<open>t\<close> to a deadline may return.\<close>

definition search_outcome :: "(instant \<Rightarrow> bool) \<Rightarrow> instant \<Rightarrow> instant \<Rightarrow> instant \<Rightarrow> bool" where
  "search_outcome m deadline t r \<longleftrightarrow>
     (minute dvd r \<and> t \<le> r \<and> r \<le> deadline \<and> m r \<and> (\<forall>u. minute dvd u \<longrightarrow> t \<le> u \<longrightarrow> u < r \<longrightarrow> \<not> m u))
     \<or> (r = zero_time \<and> (\<forall>u. minute dvd u \<longrightarrow> t \<le> u \<longrightarrow> u \<le> deadline \<longrightarrow> \<not> m u))"

lemma search_outcome_step:
  assumes "search_outcome m deadline (t + minute) r" "\<not> m t" "minute dvd t"
  shows "search_outcome m deadline t r"
proof -
  have "u = t \<or> t + minute \<le> u" if "minute dvd u" "t \<le> u" for u
    using zdvd_imp_le [of minute "u - t"] that assms(3) by (cases "u = t") (auto simp: dvd_diff)
  then have skip: "m u \<Longrightarrow> minute dvd u \<Longrightarrow> t \<le> u \<Longrightarrow> t + minute \<le> u" for u
    using assms(2) by blast
  have "t + minute \<le> r \<Longrightarrow> t \<le> r" using minute_pos(1) by linarith
  with assms(1) show ?thesis
    unfolding search_outcome_def by (elim disjE) (blast dest: skip)+
qed

locale minute_search =
  fixes search :: "instant \<Rightarrow> instant \<Rightarrow> instant"
    and m :: "instant \<Rightarrow> bool"
  assumes search_rec: "search deadline t = (if deadline < t then zero_time else if m t then t else search deadline (t + minute))"
begin

lemma search_result: "minute dvd t \<Longrightarrow> search_outcome m deadline t (search deadline t)"
proof (induction "nat (deadline - t + 1)" arbitrary: t rule: less_induct)
  case less
  show ?case
  proof (cases "deadline < t \<or> m t")
    case True
    then show ?thesis
      using less.prems by (subst search_rec) (auto simp: search_outcome_def)
  next
    case False
    have "nat (deadline - (t + minute) + 1) < nat (deadline - t + 1)"
      using False minute_pos(1) by linarith
    then have "search_outcome m deadline (t + minute) (search deadline (t + minute))"
      by (rule less.hyps) (use less.prems in simp)
    then have "search_outcome m deadline t (search deadline (t + minute))"
      using False less.prems by (auto dest: search_outcome_step)
    moreover have "search deadline t = search deadline (t + minute)"
      using False by (subst search_rec) simp
    ultimately show ?thesis by simp
  qed
qed

lemma search_next:
  defines "r after \<equiv> search (horizon after) (truncate_minute after + minute)"
  shows "next_occurrence m after (r after) \<and> r after \<le> horizon after
    \<or> r after = zero_time \<and> (\<forall>u. minute dvd u \<longrightarrow> after < u \<longrightarrow> u \<le> horizon after \<longrightarrow> \<not> m u)"
proof -
  have "search_outcome m (horizon after) (truncate_minute after + minute) (r after)"
    unfolding r_def by (rule search_result) simp
  then show ?thesis
    unfolding search_outcome_def next_occurrence_def by (elim disjE) (simp_all add: minute_after)
qed

end

interpretation cron_minutes: minute_search "cron_search p z" "cron_matches p z" for p z
  by unfold_locales (rule cron_search.simps)

interpretation calendar_minutes: minute_search "calendar_search r z" "calendar_matches r z" for r z
  by unfold_locales (rule calendar_search.simps)

text \<open>The next instants of the four kinds of plan.\<close>

lemma cron_next_result:
  "next_occurrence (cron_matches p z) after (cron_next p z after) \<and> cron_next p z after \<le> horizon after
   \<or> cron_next p z after = zero_time \<and> (\<forall>u. minute dvd u \<longrightarrow> after < u \<longrightarrow> u \<le> horizon after \<longrightarrow> \<not> cron_matches p z u)"
  using cron_minutes.search_next [of p z after] by (simp add: cron_next_def horizon_def Let_def)

lemma calendar_next_result:
  "next_occurrence (calendar_matches r z) after (calendar_next r z after) \<and> calendar_next r z after \<le> horizon after
   \<or> calendar_next r z after = zero_time \<and> (\<forall>u. minute dvd u \<longrightarrow> after < u \<longrightarrow> u \<le> horizon after \<longrightarrow> \<not> calendar_matches r z u)"
  using calendar_minutes.search_next [of r z after]
  by (simp add: calendar_next_def horizon_def Let_def max_cron_schedule_horizon_def day_def)

lemma every_next_result:
  assumes "0 < interval" "second dvd interval" "0 \<le> after"
  shows "interval dvd every_next interval after" "after < every_next interval after"
    "every_next interval after \<le> after + interval"
proof -
  obtain k where k: "interval = second * k" using assms(2) by (auto simp: dvd_def)
  have s: "0 < second" by (simp add: second_def)
  have "0 < k" using assms(1) k s by (simp add: zero_less_mult_iff)
  have "interval sdiv second = k" "0 \<le> unix after"
    using k s \<open>0 < k\<close> assms(3) by (auto simp: signed_divide_int_def unix_def pos_imp_zdiv_nonneg_iff abs_mult)
  then have next_def: "every_next interval after = second * ((unix after div k + 1) * k)"
    using \<open>0 < k\<close> by (simp add: every_next_def Let_def signed_divide_int_def sgn_if)
  show "interval dvd every_next interval after" unfolding next_def using k by simp
  have u: "second * unix after \<le> after" "after < second * unix after + second"
    using div_sandwich [OF s, of after] by (auto simp: unix_def)
  have q: "k * (unix after div k) \<le> unix after" "unix after < k * (unix after div k) + k"
    using div_sandwich [OF \<open>0 < k\<close>, of "unix after"] by auto
  have "unix after + 1 \<le> (unix after div k + 1) * k" using q by (simp add: algebra_simps)
  then have "second * (unix after + 1) \<le> every_next interval after"
    unfolding next_def using s by (intro mult_left_mono) auto
  then show "after < every_next interval after" using u by (simp add: algebra_simps)
  have "(unix after div k + 1) * k \<le> unix after + k" using q by (simp add: algebra_simps)
  then have "every_next interval after \<le> second * (unix after + k)"
    unfolding next_def using s by (intro mult_left_mono) auto
  then show "every_next interval after \<le> after + interval" using u k by (simp add: algebra_simps)
qed

end
