(* ===== verification/CronLoop.thy ===== *)
theory CronLoop
  imports CronPlan "HOL-Library.AList"
begin

text \<open>
  The loop that runs one job, \<open>runCronJobLoop\<close> of \<open>src/runtime/cron.go\<close>. Its state holds the next instant, the map
  of running executions, the queue and the worker goroutines; a step is one case of the loop's
  \<open>select\<close> or the return of an invocation, in any order. The lemmas show which executions may run at the same
  time under each overlap policy and what becomes of every scheduled instant.
\<close>

section \<open>Execution identifiers\<close>

definition hex_digit :: "nat \<Rightarrow> char" where
  "hex_digit d = ''0123456789abcdef'' ! d"

definition hex_text :: "string \<Rightarrow> string" where
  "hex_text s = concat (map (\<lambda>c. [hex_digit (of_char c div 16), hex_digit (of_char c mod 16)]) s)"

text \<open>\<open>Format("20060102T150405Z")\<close> in UTC\<close>

definition time_stamp :: "instant \<Rightarrow> string" where
  "time_stamp t =
     (let d = local_day utc t; y = year_of d; s = local_seconds utc t mod 86400 in
      (if y < 0 then ''-'' else []) @ pad_digits 4 (nat \<bar>y\<bar>) @ pad_digits 2 (month_of d) @ pad_digits 2 (nat (day_of d))
      @ ''T'' @ pad_digits 2 (nat (s div 3600)) @ pad_digits 2 (nat (s mod 3600 div 60)) @ pad_digits 2 (nat (s mod 60)) @ ''Z'')"

definition new_cron_execution_id :: "string \<Rightarrow> instant \<Rightarrow> string option \<Rightarrow> string option" where
  "new_cron_execution_id jid t random =
     (case random of
        None \<Rightarrow> None
      | Some bytes \<Rightarrow> Some (jid @ ''-'' @ time_stamp t @ ''-'' @ hex_text bytes))"

section \<open>State\<close>

text \<open>
  A worker invokes the job, offers its completion and is done when the loop has received it. The field
  \<open>l_expired\<close> records the instants that the loop takes from the queue and drops; no step reads it.
\<close>

datatype worker_phase = Working | Offering | Collected

record cron_worker =
  w_id :: string
  w_at :: instant
  w_cancelled :: bool
  w_phase :: worker_phase

record cron_loop =
  l_next :: instant
  l_running :: "(string \<times> nat) list"
  l_queued :: "instant list"
  l_workers :: "cron_worker list"
  l_expired :: "instant list"
  l_stopped :: bool

definition loop_init :: "cron_plan \<Rightarrow> instant \<Rightarrow> cron_loop" where
  "loop_init plan now =
     \<lparr>l_next = plan_next plan now, l_running = [], l_queued = [], l_workers = [], l_expired = [], l_stopped = False\<rparr>"

definition cancel_worker :: "nat \<Rightarrow> cron_worker list \<Rightarrow> cron_worker list" where
  "cancel_worker k ws = ws[k := (ws ! k)\<lparr>w_cancelled := True\<rparr>]"

text \<open>The closure \<open>start\<close>; \<open>random\<close> is what \<open>rand.Read\<close> delivers.\<close>

definition start_worker :: "cron_job \<Rightarrow> instant \<Rightarrow> string option \<Rightarrow> cron_loop \<Rightarrow> cron_loop" where
  "start_worker job t random s =
     (case new_cron_execution_id (job_id job) t random of
        None \<Rightarrow> s
      | Some i \<Rightarrow>
          s\<lparr>l_running := AList.update i (length (l_workers s)) (l_running s),
            l_workers := l_workers s @ [\<lparr>w_id = i, w_at = t, w_cancelled = False, w_phase = Working\<rparr>]\<rparr>)"

text \<open>The closure \<open>stopRunning\<close>\<close>

definition stop_running :: "cron_loop \<Rightarrow> cron_loop" where
  "stop_running s = s\<lparr>l_workers := fold cancel_worker (map snd (l_running s)) (l_workers s)\<rparr>"

text \<open>The case of the timer\<close>

definition handle_tick :: "cron_job \<Rightarrow> cron_plan \<Rightarrow> string option \<Rightarrow> cron_loop \<Rightarrow> cron_loop" where
  "handle_tick job plan random s0 =
     (let t = l_next s0; s = s0\<lparr>l_next := plan_next plan t\<rparr>; policy = job_overlap job in
      if policy = ''allow_all'' then start_worker job t random s
      else if policy \<in> set [''cancel_other'', ''terminate_other''] then
        start_worker job t random ((stop_running s)\<lparr>l_queued := []\<rparr>)
      else if policy = ''buffer_all'' then
        (if l_running s = [] then start_worker job t random s else s\<lparr>l_queued := l_queued s @ [t]\<rparr>)
      else if policy = ''buffer_one'' then
        (if l_running s = [] then start_worker job t random s
         else if l_queued s = [] then s\<lparr>l_queued := l_queued s @ [t]\<rparr> else s)
      else if l_running s = [] then start_worker job t random s else s)"

text \<open>The loop over the queue; \<open>clock t\<close> is the time at which the entry \<open>t\<close> is looked at.\<close>

fun drain_queue :: "cron_job \<Rightarrow> (instant \<Rightarrow> instant) \<Rightarrow> string option \<Rightarrow> instant list \<Rightarrow> cron_loop \<Rightarrow> cron_loop" where
  "drain_queue job clock random [] s = s\<lparr>l_queued := []\<rparr>"
| "drain_queue job clock random (t # ts) s =
     (if 0 < job_catchup job \<and> job_catchup job < clock t - t
      then drain_queue job clock random ts (s\<lparr>l_expired := l_expired s @ [t]\<rparr>)
      else start_worker job t random (s\<lparr>l_queued := ts\<rparr>))"

text \<open>The case of a completion\<close>

definition handle_finished :: "cron_job \<Rightarrow> nat \<Rightarrow> (instant \<Rightarrow> instant) \<Rightarrow> string option \<Rightarrow> cron_loop \<Rightarrow> cron_loop" where
  "handle_finished job k clock random s0 =
     (let i = w_id (l_workers s0 ! k);
          s1 = s0\<lparr>l_workers := (l_workers s0)[k := (l_workers s0 ! k)\<lparr>w_phase := Collected\<rparr>]\<rparr>;
          s = (case map_of (l_running s1) i of
                 None \<Rightarrow> s1
               | Some j \<Rightarrow> s1\<lparr>l_workers := cancel_worker j (l_workers s1), l_running := AList.delete i (l_running s1)\<rparr>)
      in if l_running s = [] \<and> l_queued s \<noteq> [] then drain_queue job clock random (l_queued s) s else s)"

definition loop_returns :: "cron_loop \<Rightarrow> bool" where
  "loop_returns s \<longleftrightarrow> l_next s = zero_time \<and> l_running s = [] \<and> l_queued s = []"

section \<open>Steps\<close>

datatype cron_event =
    Tick instant "string option"
  | Invoked nat
  | Finished nat "instant \<Rightarrow> instant" "string option"
  | Returned
  | ContextDone

inductive cron_step :: "cron_job \<Rightarrow> cron_plan \<Rightarrow> cron_event \<Rightarrow> cron_loop \<Rightarrow> cron_loop \<Rightarrow> bool"
  for job plan
where
  tick: "\<not> l_stopped s \<Longrightarrow> l_next s \<noteq> zero_time \<Longrightarrow>
    cron_step job plan (Tick (l_next s) random) s (handle_tick job plan random s)"
| invoked: "k < length (l_workers s) \<Longrightarrow> w_phase (l_workers s ! k) = Working \<Longrightarrow>
    cron_step job plan (Invoked k) s (s\<lparr>l_workers := (l_workers s)[k := (l_workers s ! k)\<lparr>w_phase := Offering\<rparr>]\<rparr>)"
| finished: "\<not> l_stopped s \<Longrightarrow> \<not> loop_returns s \<Longrightarrow> k < length (l_workers s) \<Longrightarrow> w_phase (l_workers s ! k) = Offering \<Longrightarrow>
    cron_step job plan (Finished k clock random) s (handle_finished job k clock random s)"
| returned: "\<not> l_stopped s \<Longrightarrow> loop_returns s \<Longrightarrow> cron_step job plan Returned s ((stop_running s)\<lparr>l_stopped := True\<rparr>)"
| context_done: "\<not> l_stopped s \<Longrightarrow> \<not> loop_returns s \<Longrightarrow>
    cron_step job plan ContextDone s ((stop_running s)\<lparr>l_stopped := True\<rparr>)"

text \<open>The instants at which the timer fired, in order.\<close>

fun tick_of :: "cron_event \<Rightarrow> instant list" where
  "tick_of (Tick t _) = [t]"
| "tick_of _ = []"

definition ticks :: "cron_event list \<Rightarrow> instant list" where
  "ticks ls = concat (map tick_of ls)"

definition started :: "cron_loop \<Rightarrow> instant list" where
  "started s = map w_at (l_workers s)"

text \<open>\<open>rand.Read\<close> delivers bytes whenever it is called.\<close>

fun random_available :: "cron_event \<Rightarrow> bool" where
  "random_available (Tick _ random) \<longleftrightarrow> random \<noteq> None"
| "random_available (Finished _ _ random) \<longleftrightarrow> random \<noteq> None"
| "random_available _ \<longleftrightarrow> True"

section \<open>Workers\<close>

lemma map_update_same [simp]: "(map f xs)[k := f (xs ! k)] = map f xs"
  by (metis list_update_beyond list_update_id map_update not_le_imp_less nth_map)

lemma nth_update: "k < length xs \<Longrightarrow> xs[a := x] ! k = (if a = k then x else xs ! k)"
  by simp

lemma cancel_worker_map [simp]:
  "length (cancel_worker k ws) = length ws" "map w_id (cancel_worker k ws) = map w_id ws"
  "map w_at (cancel_worker k ws) = map w_at ws" "map w_phase (cancel_worker k ws) = map w_phase ws"
  by (simp_all add: cancel_worker_def map_update)

lemma cancel_workers_map [simp]:
  "length (fold cancel_worker ks ws) = length ws" "map w_id (fold cancel_worker ks ws) = map w_id ws"
  "map w_at (fold cancel_worker ks ws) = map w_at ws" "map w_phase (fold cancel_worker ks ws) = map w_phase ws"
  by (induction ks arbitrary: ws) auto

lemma cancel_workers_nth [simp]:
  assumes "k < length ws"
  shows "w_id (fold cancel_worker ks ws ! k) = w_id (ws ! k)"
    and "w_phase (fold cancel_worker ks ws ! k) = w_phase (ws ! k)"
    and "w_cancelled (fold cancel_worker ks ws ! k) \<longleftrightarrow> w_cancelled (ws ! k) \<or> k \<in> set ks"
  using assms by (induction ks arbitrary: ws) (auto simp: cancel_worker_def nth_update)

text \<open>Executions whose completion the loop has not received, and those that were not told to stop.\<close>

definition active :: "cron_loop \<Rightarrow> nat set" where
  "active s = {k. k < length (l_workers s) \<and> w_phase (l_workers s ! k) \<noteq> Collected}"

definition live :: "cron_loop \<Rightarrow> nat set" where
  "live s = {k \<in> active s. \<not> w_cancelled (l_workers s ! k)}"

lemma start_worker_None [simp]: "start_worker job t None s = s"
  by (simp add: start_worker_def new_cron_execution_id_def)

lemma start_worker_Some:
  obtains i where "start_worker job t (Some bytes) s =
    s\<lparr>l_running := AList.update i (length (l_workers s)) (l_running s),
      l_workers := l_workers s @ [\<lparr>w_id = i, w_at = t, w_cancelled = False, w_phase = Working\<rparr>]\<rparr>"
  by (simp add: start_worker_def new_cron_execution_id_def)

lemma started_fields [simp]:
  "started (s\<lparr>l_queued := q\<rparr>) = started s" "started (s\<lparr>l_next := t\<rparr>) = started s"
  "started (s\<lparr>l_stopped := b\<rparr>) = started s" "started (s\<lparr>l_expired := e\<rparr>) = started s"
  "started (s\<lparr>l_workers := (l_workers s)[k := (l_workers s ! k)\<lparr>w_phase := ph\<rparr>]\<rparr>) = started s"
  by (simp_all add: started_def map_update)

lemma start_worker_fields [simp]:
  "l_next (start_worker job t random s) = l_next s"
  "l_queued (start_worker job t random s) = l_queued s"
  "l_expired (start_worker job t random s) = l_expired s"
  "l_stopped (start_worker job t random s) = l_stopped s"
  "started (start_worker job t (Some bytes) s) = started s @ [t]"
  by (simp_all add: start_worker_def new_cron_execution_id_def started_def split: option.split)

lemma stop_running_fields [simp]:
  "l_next (stop_running s) = l_next s" "l_running (stop_running s) = l_running s"
  "l_queued (stop_running s) = l_queued s" "l_expired (stop_running s) = l_expired s"
  "started (stop_running s) = started s" "active (stop_running s) = active s"
  by (auto simp: stop_running_def started_def active_def)

section \<open>Policies without overlap\<close>

text \<open>
  Every policy but three waits for the running execution. The map has at most one entry, and this
  entry is the only execution under way.
\<close>

definition serial_policy :: "string \<Rightarrow> bool" where
  "serial_policy policy \<longleftrightarrow> policy \<notin> set [''allow_all'', ''cancel_other'', ''terminate_other'']"

definition serial_inv :: "cron_loop \<Rightarrow> bool" where
  "serial_inv s \<longleftrightarrow>
     l_running s = [] \<and> active s = {} \<or> (\<exists>k. l_running s = [(w_id (l_workers s ! k), k)] \<and> active s = {k})"

lemma serial_start:
  assumes "serial_inv s" "l_running s = []"
  shows "serial_inv (start_worker job t random s)"
proof (cases random)
  case (Some bytes)
  obtain i where start: "start_worker job t (Some bytes) s =
    s\<lparr>l_running := AList.update i (length (l_workers s)) (l_running s),
      l_workers := l_workers s @ [\<lparr>w_id = i, w_at = t, w_cancelled = False, w_phase = Working\<rparr>]\<rparr>"
    by (rule start_worker_Some)
  have "active s = {}" using assms by (auto simp: serial_inv_def)
  then have "active (start_worker job t (Some bytes) s) = {length (l_workers s)}"
    unfolding start by (auto simp: active_def nth_append less_Suc_eq)
  then show ?thesis
    using assms(2) Some start by (simp add: serial_inv_def)
qed (use assms in simp)

lemma serial_queue [simp]:
  "serial_inv (s\<lparr>l_queued := q\<rparr>) = serial_inv s" "serial_inv (s\<lparr>l_expired := e\<rparr>) = serial_inv s"
  "serial_inv (s\<lparr>l_next := t\<rparr>) = serial_inv s" "serial_inv (s\<lparr>l_stopped := b\<rparr>) = serial_inv s"
  by (simp_all add: serial_inv_def active_def)

lemma serial_drain: "serial_inv s \<Longrightarrow> l_running s = [] \<Longrightarrow> serial_inv (drain_queue job clock random ts s)"
  by (induction ts arbitrary: s) (auto intro: serial_start)

lemma serial_stop: "serial_inv s \<Longrightarrow> serial_inv (stop_running s)"
proof -
  assume "serial_inv s"
  moreover have "k \<in> active s \<Longrightarrow> w_id (l_workers (stop_running s) ! k) = w_id (l_workers s ! k)" for k
    by (simp add: active_def stop_running_def)
  ultimately show ?thesis by (auto simp: serial_inv_def)
qed

text \<open>Receiving the completion of the only execution leaves none.\<close>

definition collected :: "nat \<Rightarrow> cron_loop \<Rightarrow> cron_loop" where
  "collected k s0 =
     (let i = w_id (l_workers s0 ! k);
          s1 = s0\<lparr>l_workers := (l_workers s0)[k := (l_workers s0 ! k)\<lparr>w_phase := Collected\<rparr>]\<rparr>
      in case map_of (l_running s1) i of
           None \<Rightarrow> s1
         | Some j \<Rightarrow> s1\<lparr>l_workers := cancel_worker j (l_workers s1), l_running := AList.delete i (l_running s1)\<rparr>)"

lemma handle_finished_eq:
  "handle_finished job k clock random s =
     (if l_running (collected k s) = [] \<and> l_queued s \<noteq> [] then drain_queue job clock random (l_queued s) (collected k s)
      else collected k s)"
  by (auto simp: handle_finished_def collected_def Let_def split: option.split)

lemma collected_fields [simp]:
  "l_next (collected k s) = l_next s" "l_queued (collected k s) = l_queued s"
  "l_expired (collected k s) = l_expired s" "started (collected k s) = started s"
  by (auto simp: collected_def Let_def started_def map_update split: option.split)

lemma serial_collected:
  assumes "serial_inv s" "k < length (l_workers s)" "w_phase (l_workers s ! k) = Offering"
  shows "serial_inv (collected k s)" "l_running (collected k s) = []"
proof -
  have "k \<in> active s" using assms by (simp add: active_def)
  then have running: "l_running s = [(w_id (l_workers s ! k), k)]" and "active s = {k}"
    using assms(1) by (auto simp: serial_inv_def)
  then have "j < length (l_workers s) \<Longrightarrow> j = k \<or> w_phase (l_workers s ! j) = Collected" for j
    by (auto simp: active_def)
  then have "active (collected k s) = {}"
    using running by (auto simp: collected_def active_def cancel_worker_def nth_update)
  moreover show "l_running (collected k s) = []"
    using running by (simp add: collected_def)
  ultimately show "serial_inv (collected k s)" by (simp add: serial_inv_def)
qed

lemma serial_invoked:
  assumes "serial_inv s" "k < length (l_workers s)" "w_phase (l_workers s ! k) = Working"
  shows "serial_inv (s\<lparr>l_workers := (l_workers s)[k := (l_workers s ! k)\<lparr>w_phase := Offering\<rparr>]\<rparr>)"
proof -
  let ?s = "s\<lparr>l_workers := (l_workers s)[k := (l_workers s ! k)\<lparr>w_phase := Offering\<rparr>]\<rparr>"
  have "active ?s = active s" using assms by (auto simp: active_def nth_update split: if_splits)
  moreover have "j \<in> active s \<Longrightarrow> w_id (l_workers ?s ! j) = w_id (l_workers s ! j)" for j
    by (auto simp: active_def nth_update split: if_splits)
  ultimately show ?thesis
    using assms(1) unfolding serial_inv_def by auto
qed

lemma serial_tick:
  assumes "serial_policy (job_overlap job)" "serial_inv s"
  shows "serial_inv (handle_tick job plan random s)"
  using assms by (auto simp: handle_tick_def serial_policy_def Let_def intro!: serial_start)

lemma serial_finished:
  assumes "serial_inv s" "k < length (l_workers s)" "w_phase (l_workers s ! k) = Offering"
  shows "serial_inv (handle_finished job k clock random s)"
  using serial_collected [OF assms] by (simp add: handle_finished_eq serial_drain)

lemma serial_step:
  assumes "cron_step job plan l s s'" "serial_policy (job_overlap job)" "serial_inv s"
  shows "serial_inv s'"
  using assms(1)
proof cases
  case (tick random)
  then show ?thesis using assms serial_tick by simp
next
  case (invoked k)
  then show ?thesis using assms serial_invoked by simp
next
  case (finished k clock random)
  then show ?thesis using assms serial_finished by simp
qed (simp_all add: assms serial_stop)

section \<open>Policies that replace the running execution\<close>

definition exclusive_inv :: "cron_loop \<Rightarrow> bool" where
  "exclusive_inv s \<longleftrightarrow>
     (\<forall>k\<in>live s. map_of (l_running s) (w_id (l_workers s ! k)) = Some k) \<and> (\<forall>k\<in>live s. \<forall>j\<in>live s. k = j)"

lemma live_stop:
  assumes "exclusive_inv s"
  shows "live (stop_running s) = {}"
proof -
  have "k \<in> snd ` set (l_running s)" if "k \<in> live s" for k
  proof (rule image_eqI)
    show "(w_id (l_workers s ! k), k) \<in> set (l_running s)"
      using assms that by (auto simp: exclusive_inv_def intro: map_of_SomeD)
  qed simp
  then show ?thesis
    by (auto simp: live_def active_def stop_running_def)
qed

lemma exclusive_empty: "live s = {} \<Longrightarrow> exclusive_inv s"
  by (simp add: exclusive_inv_def)

lemma live_fields [simp]:
  "live (s\<lparr>l_queued := q\<rparr>) = live s" "live (s\<lparr>l_next := t\<rparr>) = live s"
  "live (s\<lparr>l_stopped := b\<rparr>) = live s" "live (s\<lparr>l_expired := e\<rparr>) = live s"
  by (simp_all add: live_def active_def)

lemma exclusive_start:
  assumes "live s = {}"
  shows "exclusive_inv (start_worker job t random s)"
proof (cases random)
  case (Some bytes)
  obtain i where start: "start_worker job t (Some bytes) s =
    s\<lparr>l_running := AList.update i (length (l_workers s)) (l_running s),
      l_workers := l_workers s @ [\<lparr>w_id = i, w_at = t, w_cancelled = False, w_phase = Working\<rparr>]\<rparr>"
    by (rule start_worker_Some)
  have "live (start_worker job t (Some bytes) s) = {length (l_workers s)}"
    using assms unfolding start by (auto simp: live_def active_def nth_append less_Suc_eq)
  then show ?thesis
    using Some start by (simp add: exclusive_inv_def AList.update_conv)
qed (use assms in \<open>simp add: exclusive_empty\<close>)

lemma exclusive_collected:
  assumes "exclusive_inv s" "k < length (l_workers s)"
  shows "exclusive_inv (collected k s)"
proof -
  have sub: "live (collected k s) \<subseteq> live s - {k}"
    using assms(2) by (auto simp: live_def active_def collected_def Let_def cancel_worker_def nth_update
        split: option.splits if_splits)
  have "map_of (l_running (collected k s)) (w_id (l_workers (collected k s) ! j)) = Some j" if "j \<in> live (collected k s)" for j
    using that sub assms by (auto simp: live_def active_def exclusive_inv_def collected_def Let_def cancel_worker_def
        nth_update delete_conv split: option.splits if_splits)
  with sub assms(1) show ?thesis
    unfolding exclusive_inv_def by blast
qed

definition replace_policy :: "string \<Rightarrow> bool" where
  "replace_policy policy \<longleftrightarrow> policy \<in> set [''cancel_other'', ''terminate_other'']"

definition replace_inv :: "cron_loop \<Rightarrow> bool" where
  "replace_inv s \<longleftrightarrow> exclusive_inv s \<and> l_queued s = []"

lemma exclusive_fields [simp]:
  "exclusive_inv (s\<lparr>l_next := t\<rparr>) = exclusive_inv s" "exclusive_inv (s\<lparr>l_stopped := b\<rparr>) = exclusive_inv s"
  by (simp_all add: exclusive_inv_def)

lemma replace_tick:
  assumes "replace_policy (job_overlap job)" "replace_inv s"
  shows "replace_inv (handle_tick job plan random s)"
proof -
  have "exclusive_inv (start_worker job t random ((stop_running (s\<lparr>l_next := u\<rparr>))\<lparr>l_queued := []\<rparr>))" for t u
    by (rule exclusive_start) (use assms(2) in \<open>simp add: replace_inv_def live_stop\<close>)
  then show ?thesis
    using assms(1) by (auto simp: handle_tick_def replace_policy_def replace_inv_def Let_def)
qed

lemma exclusive_invoked:
  assumes "exclusive_inv s" "k < length (l_workers s)" "w_phase (l_workers s ! k) = Working"
  shows "exclusive_inv (s\<lparr>l_workers := (l_workers s)[k := (l_workers s ! k)\<lparr>w_phase := Offering\<rparr>]\<rparr>)"
proof -
  let ?s = "s\<lparr>l_workers := (l_workers s)[k := (l_workers s ! k)\<lparr>w_phase := Offering\<rparr>]\<rparr>"
  have "live ?s = live s" using assms by (auto simp: live_def active_def nth_update split: if_splits)
  moreover have "j \<in> live s \<Longrightarrow> w_id (l_workers ?s ! j) = w_id (l_workers s ! j)" for j
    by (auto simp: live_def active_def nth_update split: if_splits)
  ultimately show ?thesis
    using assms(1) unfolding exclusive_inv_def by auto
qed

lemma replace_step:
  assumes "cron_step job plan l s s'" "replace_policy (job_overlap job)" "replace_inv s"
  shows "replace_inv s'"
  using assms(1)
proof cases
  case (tick random)
  then show ?thesis using assms replace_tick by simp
next
  case (invoked k)
  then show ?thesis using assms exclusive_invoked by (simp add: replace_inv_def)
next
  case (finished k clock random)
  then show ?thesis using assms exclusive_collected by (simp add: handle_finished_eq replace_inv_def)
qed (use assms in \<open>simp_all add: replace_inv_def live_stop exclusive_empty\<close>)

section \<open>What becomes of the ticks\<close>

text \<open>The state together with the ticks so far.\<close>

definition history_step ::
  "cron_job \<Rightarrow> cron_plan \<Rightarrow> cron_event \<Rightarrow> instant list \<times> cron_loop \<Rightarrow> instant list \<times> cron_loop \<Rightarrow> bool"
where
  "history_step job plan l p p' \<longleftrightarrow> cron_step job plan l (snd p) (snd p') \<and> fst p' = fst p @ tick_of l"

lemma trace_history:
  "trace (cron_step job plan) s ls s' \<Longrightarrow> trace (history_step job plan) (h, s) ls (h @ ticks ls, s')"
proof (induction rule: trace.induct)
  case (trace_snoc s ls s' l s'')
  then have "history_step job plan l (h @ ticks ls, s') (h @ ticks (ls @ [l]), s'')"
    by (simp add: history_step_def ticks_def)
  with trace_snoc.IH show ?case by (rule trace.trace_snoc)
qed (simp add: ticks_def trace.trace_Nil)

text \<open>
  With \<open>buffer_all\<close> every tick is started, dropped as too old or still in the queue, each group in the
  order of the ticks.
\<close>

definition accounted :: "instant list \<times> cron_loop \<Rightarrow> bool" where
  "accounted p \<longleftrightarrow>
     serial_inv (snd p) \<and> (l_running (snd p) = [] \<longrightarrow> l_queued (snd p) = [])
     \<and> (\<exists>past\<in>shuffles (started (snd p)) (l_expired (snd p)). fst p = past @ l_queued (snd p))"

lemma shuffles_single: "ys @ [z] \<in> shuffles [z] ys" "ys @ [z] \<in> shuffles ys [z]"
  by (induction ys) auto

lemma shuffles_snoc:
  "zs \<in> shuffles xs ys \<Longrightarrow> zs @ [z] \<in> shuffles (xs @ [z]) ys" "zs \<in> shuffles xs ys \<Longrightarrow> zs @ [z] \<in> shuffles xs (ys @ [z])"
  by (induction xs ys arbitrary: zs rule: shuffles.induct) (auto simp: shuffles_single)

lemma start_running: "l_running (start_worker job t (Some bytes) s) \<noteq> []"
proof -
  have "AList.update i k xs \<noteq> []" for i k and xs :: "(string \<times> nat) list" by (induction xs) auto
  then show ?thesis by (simp add: start_worker_def new_cron_execution_id_def)
qed

lemma accounted_drain:
  assumes "serial_inv s" "l_running s = []" "zs \<in> shuffles (started s) (l_expired s)"
  shows "accounted (zs @ ts, drain_queue job clock (Some bytes) ts s)"
  using assms
proof (induction ts arbitrary: s zs)
  case Nil
  then show ?case by (auto simp: accounted_def)
next
  case (Cons t ts)
  show ?case
  proof (cases "0 < job_catchup job \<and> job_catchup job < clock t - t")
    case True
    have "accounted ((zs @ [t]) @ ts, drain_queue job clock (Some bytes) ts (s\<lparr>l_expired := l_expired s @ [t]\<rparr>))"
      by (rule Cons.IH) (use Cons.prems in \<open>simp_all add: shuffles_snoc\<close>)
    with True show ?thesis by simp
  next
    case False
    let ?s = "start_worker job t (Some bytes) (s\<lparr>l_queued := ts\<rparr>)"
    have "serial_inv ?s" by (rule serial_start) (use Cons.prems in simp_all)
    moreover have "started ?s = started s @ [t]" by (simp)
    ultimately have "accounted ((zs @ [t]) @ ts, ?s)"
      using Cons.prems(3) shuffles_snoc(1) [of zs "started s" "l_expired s" t] by (auto simp: accounted_def start_running)
    with False show ?thesis by auto
  qed
qed

lemma accounted_tick:
  assumes "job_overlap job = ''buffer_all''" "accounted (h, s)"
  shows "accounted (h @ [l_next s], handle_tick job plan (Some bytes) s)"
proof -
  let ?s = "s\<lparr>l_next := plan_next plan (l_next s)\<rparr>"
  have inv: "serial_inv ?s" "l_running s = [] \<longrightarrow> l_queued s = []" using assms(2) by (auto simp: accounted_def)
  obtain zs where zs: "zs \<in> shuffles (started ?s) (l_expired ?s)" "h = zs @ l_queued s"
    using assms(2) by (auto simp: accounted_def)
  show ?thesis
  proof (cases "l_running s = []")
    case True
    have "serial_inv (start_worker job (l_next s) (Some bytes) ?s)"
      by (rule serial_start) (use inv True in simp_all)
    then show ?thesis
      using assms(1) True inv(2) zs shuffles_snoc(1) [OF zs(1)]
      by (auto simp: handle_tick_def accounted_def start_running Let_def)
  next
    case False
    then show ?thesis
      using assms(1) inv zs by (auto simp: handle_tick_def accounted_def Let_def)
  qed
qed

lemma accounted_step:
  assumes "history_step job plan l p p'" "random_available l" "job_overlap job = ''buffer_all''" "accounted p"
  shows "accounted p'"
proof -
  obtain h s s' where p: "p = (h, s)" "p' = (h @ tick_of l, s')" "cron_step job plan l s s'"
    using assms(1) by (cases p; cases p') (auto simp: history_step_def)
  have serial: "serial_inv s'"
    using serial_step [OF p(3)] assms(3,4) p(1) by (simp add: accounted_def serial_policy_def)
  from p(3) show ?thesis
  proof cases
    case (tick random)
    then show ?thesis using assms p accounted_tick by auto
  next
    case (finished k clock random)
    obtain zs where zs: "zs \<in> shuffles (started s) (l_expired s)" "h = zs @ l_queued s"
      using assms(4) p by (auto simp: accounted_def)
    have inv: "serial_inv (collected k s)" "l_running (collected k s) = []"
      using serial_collected [of s k] finished assms(4) p by (auto simp: accounted_def)
    obtain bytes where "random = Some bytes" using finished assms(2) by auto
    then have "accounted (h, drain_queue job clock random (l_queued s) (collected k s))"
      using accounted_drain [OF inv, of zs "l_queued s"] zs by simp
    then show ?thesis
      using finished p inv zs by (cases "l_queued s") (auto simp: handle_finished_eq accounted_def)
  qed (use serial assms(4) p in \<open>auto simp: accounted_def\<close>)
qed

end
