(* ===== verification/CronRuns.thy ===== *)
theory CronRuns
  imports CronLoop
begin

text \<open>
  Guarantees for a job that validation accepted: when its loop ticks, which of its executions may
  overlap and what happens to every tick. The contracts of the loop's invariants are interpretations of
  \<open>step_system\<close>.
\<close>

section \<open>Due instants\<close>

text \<open>The instants that a plan names, and the plans that validation produces.\<close>

fun plan_due :: "cron_plan \<Rightarrow> instant \<Rightarrow> bool" where
  "plan_due (EveryPlan i) t \<longleftrightarrow> i dvd t"
| "plan_due (SchedulePlan p z) t \<longleftrightarrow> minute dvd t \<and> cron_matches p z t"
| "plan_due (AtPlan at) t \<longleftrightarrow> t = at"
| "plan_due (CalendarPlan r z) t \<longleftrightarrow> minute dvd t \<and> calendar_matches r z t"

fun plan_valid :: "cron_plan \<Rightarrow> bool" where
  "plan_valid (EveryPlan i) \<longleftrightarrow> 0 < i \<and> second dvd i \<and> i dvd day"
| "plan_valid _ \<longleftrightarrow> True"

lemma smod_dvd: "x smod k = 0 \<longleftrightarrow> k dvd x" for x k :: int
proof -
  have "x smod k = 0 \<longleftrightarrow> x = 0 \<or> \<bar>x\<bar> mod \<bar>k\<bar> = 0" by (simp add: signed_modulo_int_def sgn_0_0)
  then show ?thesis by (auto simp: mod_eq_0_iff_dvd)
qed

lemma validate_cron_jobE:
  assumes "validate_cron_job U L load job0 = Inr job"
  obtains j j' plan where "job0 = Some j" "j' = (if job_title j = [] then j\<lparr>job_title := job_id j\<rparr> else j)"
    "cron_job_plan U load j' = Inr plan" "job = j'\<lparr>job_plan := Some plan\<rparr>"
  using assms by (auto simp: validate_cron_job_def Let_def split: if_split_asm option.split_asm)

lemma cron_job_plan_valid: "cron_job_plan U load job = Inr plan \<Longrightarrow> plan_valid plan"
  by (auto simp: cron_job_plan_def Let_def smod_dvd split: if_split_asm option.split_asm sum.split_asm)

lemma validate_cron_job_plan:
  assumes "validate_cron_job U L load job0 = Inr job"
  obtains plan where "job_plan job = Some plan" "plan_valid plan"
proof -
  obtain j j' plan where "job0 = Some j" "cron_job_plan U load j' = Inr plan" "job = j'\<lparr>job_plan := Some plan\<rparr>"
    using validate_cron_jobE [OF assms] .
  then show thesis using that [of plan] cron_job_plan_valid by simp
qed

lemma next_is_first_due:
  assumes "plan_valid plan" "0 \<le> after" "plan_next plan after \<noteq> zero_time"
  shows "after < plan_next plan after" "plan_due plan (plan_next plan after)"
    "after < u \<Longrightarrow> u < plan_next plan after \<Longrightarrow> \<not> plan_due plan u"
proof -
  have "after < plan_next plan after \<and> plan_due plan (plan_next plan after)
    \<and> (\<forall>u. after < u \<longrightarrow> u < plan_next plan after \<longrightarrow> \<not> plan_due plan u)"
  proof (cases plan)
    case (EveryPlan i)
    then have i: "0 < i" "second dvd i" using assms(1) by auto
    note result = every_next_result [OF i assms(2)]
    have "u \<le> after" if "i dvd u" "u < every_next i after" for u
      using zdvd_imp_le [of i "every_next i after - u"] that result by simp
    with result EveryPlan show ?thesis by fastforce
  next
    case (SchedulePlan p z)
    then show ?thesis
      using cron_next_result [of p z after] assms(3) by (auto simp: next_occurrence_def)
  next
    case (AtPlan at)
    then show ?thesis using assms(3) by (auto simp: at_next_def)
  next
    case (CalendarPlan r z)
    then show ?thesis
      using calendar_next_result [of r z after] assms(3) by (auto simp: next_occurrence_def)
  qed
  then show "after < plan_next plan after" "plan_due plan (plan_next plan after)"
    "after < u \<Longrightarrow> u < plan_next plan after \<Longrightarrow> \<not> plan_due plan u"
    by blast+
qed

text \<open>A plan without a next instant has none within 1830 days.\<close>

lemma no_next_none_due:
  assumes "plan_valid plan" "0 \<le> after" "plan_next plan after = zero_time" "plan_due plan u" "after < u"
  shows "after + 1830 * 86400 * 1000000000 < u"
proof -
  have past: "zero_time < 0" by (simp add: zero_time_def second_def)
  have far: "after + 1830 * 86400 * 1000000000 < u" if "horizon after < u"
  proof -
    have "after < truncate_minute after + minute" by (subst minute_after) simp_all
    moreover have "max_cron_schedule_horizon = 1830 * 86400 * 1000000000"
      by (simp add: max_cron_schedule_horizon_def day_def minute_def second_def)
    ultimately show ?thesis using that by (simp add: horizon_def)
  qed
  show ?thesis
  proof (cases plan)
    case (EveryPlan i)
    then show ?thesis using every_next_result [of i after] assms past by auto
  next
    case (SchedulePlan p z)
    then show ?thesis using cron_next_result [of p z after] assms past far by (force simp: next_occurrence_def)
  next
    case (AtPlan at)
    then show ?thesis using assms past by (auto simp: at_next_def)
  next
    case (CalendarPlan r z)
    then show ?thesis using calendar_next_result [of r z after] assms past far by (force simp: next_occurrence_def)
  qed
qed

text \<open>Instants that follow each other.\<close>

fun follows :: "cron_plan \<Rightarrow> instant \<Rightarrow> instant list \<Rightarrow> bool" where
  "follows plan t [] \<longleftrightarrow> True"
| "follows plan t (u # us) \<longleftrightarrow> u = plan_next plan t \<and> u \<noteq> zero_time \<and> follows plan u us"

lemma follows_snoc:
  "follows plan t (us @ [u]) \<longleftrightarrow> follows plan t us \<and> u = plan_next plan (last (t # us)) \<and> u \<noteq> zero_time"
  by (induction us arbitrary: t) auto

lemma follows_due:
  assumes "plan_valid plan" "0 \<le> t" "follows plan t us"
  shows "sorted_wrt (<) (t # us)" "set us = {u. plan_due plan u \<and> t < u \<and> u \<le> last (t # us)}"
proof -
  have "sorted_wrt (<) (t # us) \<and> set us = {u. plan_due plan u \<and> t < u \<and> u \<le> last (t # us)}"
    using assms
  proof (induction us arbitrary: t)
    case (Cons u us)
    then have u: "u = plan_next plan t" "plan_next plan t \<noteq> zero_time" "follows plan u us" by auto
    note first = next_is_first_due [OF Cons.prems(1,2) u(2), folded u(1)]
    have "0 \<le> u" using first(1) Cons.prems(2) by linarith
    then have IH: "sorted_wrt (<) (u # us)" "set us = {v. plan_due plan v \<and> u < v \<and> v \<le> last (u # us)}"
      using Cons.IH [OF Cons.prems(1) _ u(3)] by blast+
    have "u \<le> last (u # us)" using IH(1) last_in_set [of us] by (cases "us = []") (auto intro: less_imp_le)
    have "v \<in> set (u # us) \<longleftrightarrow> plan_due plan v \<and> t < v \<and> v \<le> last (u # us)" for v
      using first \<open>u \<le> last (u # us)\<close> unfolding list.set IH(2)
      by (cases v u rule: linorder_cases) auto
    then have "set (u # us) = {v. plan_due plan v \<and> t < v \<and> v \<le> last (t # u # us)}"
      by (intro set_eqI) simp
    moreover have "sorted_wrt (<) (t # u # us)" using IH(1) first(1) by auto
    ultimately show ?case by blast
  qed auto
  then show "sorted_wrt (<) (t # us)" "set us = {u. plan_due plan u \<and> t < u \<and> u \<le> last (t # us)}" by blast+
qed

section \<open>The contracts of the loop\<close>

lemma drain_next [simp]: "l_next (drain_queue job clock random ts s) = l_next s"
  by (induction ts arbitrary: s) auto

lemma handle_next [simp]:
  "l_next (handle_finished job k clock random s) = l_next s"
  "l_next (handle_tick job plan random s) = plan_next plan (l_next s)"
  by (auto simp: handle_finished_eq handle_tick_def Let_def)

definition on_schedule :: "cron_plan \<Rightarrow> instant \<Rightarrow> instant list \<times> cron_loop \<Rightarrow> bool" where
  "on_schedule plan now p \<longleftrightarrow> follows plan now (fst p) \<and> l_next (snd p) = plan_next plan (last (now # fst p))"

lemma on_schedule_step:
  assumes "history_step job plan l p p'" "on_schedule plan now p"
  shows "on_schedule plan now p'"
proof -
  obtain h s s' where p: "p = (h, s)" "p' = (h @ tick_of l, s')" "cron_step job plan l s s'"
    using assms(1) by (cases p; cases p') (auto simp: history_step_def)
  from p(3) show ?thesis
    by cases (use assms(2) p in \<open>auto simp: on_schedule_def follows_snoc\<close>)
qed

interpretation serial: step_system "cron_step job plan" "\<lambda>_. True" "\<lambda>s. serial_policy (job_overlap job) \<longrightarrow> serial_inv s" for job plan
  by unfold_locales (blast intro: serial_step)

interpretation replacing: step_system "cron_step job plan" "\<lambda>_. True" "\<lambda>s. replace_policy (job_overlap job) \<longrightarrow> replace_inv s" for job plan
  by unfold_locales (blast intro: replace_step)

interpretation queueing: step_system "history_step job plan" random_available
    "\<lambda>p. job_overlap job = ''buffer_all'' \<longrightarrow> accounted p" for job plan
  by unfold_locales (blast intro: accounted_step)

interpretation ticking: step_system "history_step job plan" "\<lambda>_. True" "on_schedule plan now" for job plan now
  by unfold_locales (rule on_schedule_step)

text \<open>An instant leaves the queue unstarted only when it is older than a catch-up window that is set.\<close>

lemma drain_expired:
  "t \<in> set (l_expired (drain_queue job clock random ts s)) \<Longrightarrow>
     t \<in> set (l_expired s) \<or> 0 < job_catchup job \<and> job_catchup job < clock t - t"
proof (induction ts arbitrary: s)
  case (Cons a ts)
  show ?case
  proof (cases "0 < job_catchup job \<and> job_catchup job < clock a - a")
    case True
    with Cons.prems have "t \<in> set (l_expired (drain_queue job clock random ts (s\<lparr>l_expired := l_expired s @ [a]\<rparr>)))" by simp
    from Cons.IH [OF this] True show ?thesis by auto
  qed (use Cons.prems in auto)
qed simp

lemma step_expired:
  assumes "cron_step job plan l s s'" "t \<in> set (l_expired s')"
  shows "t \<in> set (l_expired s)
    \<or> 0 < job_catchup job \<and> (\<exists>k clock random. l = Finished k clock random \<and> job_catchup job < clock t - t)"
  using assms(1)
proof cases
  case (tick random)
  then show ?thesis using assms(2) by (auto simp: handle_tick_def Let_def split: if_splits)
next
  case (finished k clock random)
  then have "t \<in> set (l_expired s) \<or> 0 < job_catchup job \<and> job_catchup job < clock t - t"
    using assms(2) drain_expired [of t job clock random "l_queued s" "collected k s"]
    by (auto simp: handle_finished_eq split: if_splits)
  with finished show ?thesis by blast
qed (use assms(2) in auto)

lemma trace_expired:
  assumes "trace (cron_step job plan) s ls s'" "t \<in> set (l_expired s')" "l_expired s = []"
  shows "0 < job_catchup job \<and> (\<exists>k clock random. Finished k clock random \<in> set ls \<and> job_catchup job < clock t - t)"
  using assms
proof (induction rule: trace.induct)
  case (trace_snoc s ls s' l s'')
  from step_expired [OF trace_snoc.hyps(2) trace_snoc.prems(1)] trace_snoc.IH [OF _ trace_snoc.prems(2)]
  show ?case by auto
qed simp

section \<open>Properties\<close>

lemma loop_init_inv: "serial_inv (loop_init plan now)" "replace_inv (loop_init plan now)"
  "accounted ([], loop_init plan now)" "on_schedule plan now ([], loop_init plan now)"
  by (auto simp: loop_init_def serial_inv_def replace_inv_def exclusive_inv_def live_def active_def accounted_def
      on_schedule_def started_def)

text \<open>
  C9. The loop of an accepted job ticks exactly when the job is due: the instants at which it has ticked are, in
  order, all instants its plan names after the start of the loop and up to the last tick, and the
  next tick is set to the first one after that. The loop has no next tick only if the plan
  names none for the next 1830 days.
\<close>

theorem job_runs_when_due:
  assumes "validate_cron_job U L load job0 = Inr job" "job_plan job = Some plan" "0 \<le> now"
    and "trace (cron_step job plan) (loop_init plan now) ls s"
  shows "sorted_wrt (<) (ticks ls)
    \<and> set (ticks ls) = {u. plan_due plan u \<and> now < u \<and> u \<le> last (now # ticks ls)}
    \<and> (l_next s \<noteq> zero_time \<longrightarrow> plan_due plan (l_next s) \<and> last (now # ticks ls) < l_next s
         \<and> (\<forall>u. last (now # ticks ls) < u \<longrightarrow> u < l_next s \<longrightarrow> \<not> plan_due plan u))
    \<and> (l_next s = zero_time \<longrightarrow>
         (\<forall>u. last (now # ticks ls) < u \<longrightarrow> u \<le> last (now # ticks ls) + 1830 * 86400 * 1000000000 \<longrightarrow> \<not> plan_due plan u))"
proof -
  let ?last = "last (now # ticks ls)"
  have valid: "plan_valid plan"
    using validate_cron_job_plan [OF assms(1)] assms(2) by (metis option.inject)
  have on: "follows plan now (ticks ls)" "l_next s = plan_next plan ?last"
    using ticking.trace_invariant [OF trace_history [OF assms(4), of "[]"]] loop_init_inv(4)
    by (simp_all add: list_all_iff on_schedule_def)
  note due = follows_due [OF valid assms(3) on(1)]
  have "now \<le> ?last" using due(1) last_in_set [of "ticks ls"] by (cases "ticks ls = []") (auto intro: less_imp_le)
  then have pos: "0 \<le> ?last" using assms(3) by linarith
  have first: "plan_next plan ?last \<noteq> zero_time \<longrightarrow> plan_due plan (plan_next plan ?last) \<and> ?last < plan_next plan ?last
      \<and> (\<forall>u. ?last < u \<longrightarrow> u < plan_next plan ?last \<longrightarrow> \<not> plan_due plan u)"
    using next_is_first_due [OF valid pos] by simp
  have none: "plan_next plan ?last = zero_time \<longrightarrow> (\<forall>u. ?last < u \<longrightarrow> u \<le> ?last + 1830 * 86400 * 1000000000 \<longrightarrow> \<not> plan_due plan u)"
    by (intro impI allI notI, drule (2) no_next_none_due [OF valid pos]) simp
  have "sorted_wrt (<) (ticks ls)" using due(1) by simp
  then show ?thesis unfolding on(2) by (intro conjI due(2) first none)
qed

text \<open>
  C10. Overlap policies are kept: under a policy that waits at most one execution is under way at any moment, and under a policy that
  replaces at most one execution has not been told to stop.
\<close>

theorem overlap_policy_kept:
  assumes "trace (cron_step job plan) (loop_init plan now) ls s"
  shows "(serial_policy (job_overlap job) \<longrightarrow> card (active s) \<le> 1) \<and> (replace_policy (job_overlap job) \<longrightarrow> card (live s) \<le> 1)"
proof -
  have "serial_policy (job_overlap job) \<longrightarrow> serial_inv s"
    using serial.trace_invariant [OF assms] loop_init_inv(1) by (simp add: list_all_iff)
  then have "serial_policy (job_overlap job) \<longrightarrow> card (active s) \<le> 1"
    by (auto simp: serial_inv_def)
  moreover have "replace_policy (job_overlap job) \<longrightarrow> replace_inv s"
    using replacing.trace_invariant [OF assms] loop_init_inv(2) by (simp add: list_all_iff)
  then have "replace_policy (job_overlap job) \<longrightarrow> card (live s) \<le> 1"
    by (auto simp: replace_inv_def exclusive_inv_def card_le_Suc0_iff_eq live_def active_def)
  ultimately show ?thesis ..
qed

text \<open>
  C13. A job that queues loses no run but those it may drop: every tick has been started, was dropped from the
  queue or is still in the queue, each of the three groups is in the order of the ticks, and a tick
  was dropped only if the job has a catch-up window and the tick was older than the window at the
  time at which the loop looked at it. The random source is assumed to deliver.
\<close>

theorem queued_runs_accounted:
  assumes "trace (cron_step job plan) (loop_init plan now) ls s" "job_overlap job = ''buffer_all''"
    and "list_all random_available ls"
  shows "(\<exists>past\<in>shuffles (started s) (l_expired s). ticks ls = past @ l_queued s)
    \<and> (\<forall>t\<in>set (l_expired s). 0 < job_catchup job
         \<and> (\<exists>k clock random. Finished k clock random \<in> set ls \<and> job_catchup job < clock t - t))"
proof -
  have "accounted (ticks ls, s)"
    using queueing.trace_invariant [OF trace_history [OF assms(1), of "[]"] assms(3)] assms(2) loop_init_inv(3)
    by simp
  moreover have "l_expired (loop_init plan now) = []" by (simp add: loop_init_def)
  ultimately show ?thesis using trace_expired [OF assms(1)] by (simp add: accounted_def)
qed

text \<open>
  C16. A schedule text means what the grammar of its five fields says: an accepted schedule matches an instant exactly if the
  minute, hour and month are among the numbers of their fields and the day satisfies the rule for the two day fields.
\<close>

theorem cron_schedule_meaning:
  assumes "parse_cron_schedule U expr = Inr p"
  shows "length (string_fields (trim_space expr)) = 5
    \<and> (\<forall>z t. cron_matches p z t \<longleftrightarrow> schedule_denotes U (string_fields (trim_space expr)) z t)"
proof (intro conjI allI)
  show "length (string_fields (trim_space expr)) = 5"
    using assms by (rule contrapos_pp) (simp add: parse_cron_schedule_def)
qed (rule cron_matches_denotes [OF assms])

section \<open>Divergences\<close>



end
