(* ===== verification/CronHorizon.thy ===== *)
theory CronHorizon
  imports CronRuns
begin

text \<open>
  The horizon of five years in \<open>Next\<close> of \<open>src/internal/calendartrigger/calendar.go\<close>: a rule whose
  instants are further apart is accepted and has no next instant.
\<close>

text \<open>A rule for the first minute of every tenth year, at an instant of a year between.\<close>

definition decade_rule :: calendar_rule where
  "decade_rule =
     \<lparr>cr_frequency = ''YEARLY'', cr_interval = 10, cr_hour = 0, cr_minute = 0, cr_weekdays = [], cr_month_day = 1, cr_month = 1\<rparr>"

definition new_year :: "int \<Rightarrow> instant" where
  "new_year y = second * (86400 * day_number y 1 1)"

lemma positive_modulo_iff: "0 < m \<Longrightarrow> positive_modulo v m = 0 \<longleftrightarrow> m dvd v"
proof -
  assume "0 < m"
  then have "- m < v smod m" using smod_int_range [of m v] by simp
  then have "v smod m + m \<noteq> 0" by linarith
  then have "positive_modulo v m = 0 \<longleftrightarrow> v smod m = 0" by (simp add: positive_modulo_def Let_def)
  then show ?thesis by (simp add: smod_dvd)
qed

lemma decade_matches:
  "calendar_matches decade_rule utc t \<longleftrightarrow>
     (let d = local_day utc t in clock_hour utc t = 0 \<and> clock_minute utc t = 0 \<and> 10 dvd year_of d \<and> month_of d = 1 \<and> day_of d = 1)"
proof -
  have "10 dvd year_of d - 1970 \<longleftrightarrow> 10 dvd year_of d" for d
    using dvd_diff_left_iff [of 10 1970 "year_of d"] by simp
  then show ?thesis
    by (simp add: calendar_matches_def decade_rule_def Let_def positive_modulo_iff) blast
qed

lemma day_start:
  assumes "minute dvd t" "clock_hour utc t = 0" "clock_minute utc t = 0"
  shows "t = second * (86400 * local_day utc t)"
proof -
  define n where "n = local_seconds utc t"
  obtain m where m: "t = minute * m" using assms(1) by (auto simp: dvd_def)
  then have n: "n = 60 * m" by (simp add: n_def local_seconds_def utc_def unix_def minute_def second_def)
  have "n mod 86400 < 3600"
    using assms(2) by (auto simp: clock_hour_def n_def [symmetric] zdiv_eq_0_iff)
  then have "n mod 86400 = n mod 3600"
    using mod_mod_cancel [of 3600 86400 n] by (simp add: mod_pos_pos_trivial)
  moreover have "n mod 3600 < 60"
    using assms(3) by (auto simp: clock_minute_def n_def [symmetric] zdiv_eq_0_iff)
  moreover have "60 dvd n mod 86400" using n by (simp add: dvd_mod)
  ultimately have "n mod 86400 = 0"
    using zdvd_imp_le [of 60 "n mod 86400"] pos_mod_sign [of 86400 n] by (cases "n mod 86400 = 0") auto
  then have "n = 86400 * local_day utc t"
    using mult_div_mod_eq [of 86400 n] by (simp add: local_day_def n_def)
  then show ?thesis using m n by (simp add: minute_def)
qed

lemma new_year_2030: "day_number 2030 1 1 = 21915" "new_year 2030 = 21915 * day" "horizon (new_year 2030) = minute + 23745 * day"
proof -
  show "day_number 2030 1 1 = 21915" by (simp add: day_number_def year_start_def)
  then show "new_year 2030 = 21915 * day" by (simp add: new_year_def day_def minute_def)
  then show "horizon (new_year 2030) = minute + 23745 * day"
    by (simp add: horizon_def truncate_minute_def max_cron_schedule_horizon_def day_def)
qed

lemma decade_gap:
  assumes "minute dvd t" "new_year 2030 < t" "t \<le> horizon (new_year 2030)"
  shows "\<not> calendar_matches decade_rule utc t"
proof
  define d where "d = local_day utc t"
  assume "calendar_matches decade_rule utc t"
  then have t: "clock_hour utc t = 0" "clock_minute utc t = 0" "10 dvd year_of d" "month_of d = 1" "day_of d = 1"
    by (auto simp: decade_matches Let_def d_def)
  have "t = d * day" using day_start [OF assms(1) t(1,2)] by (simp add: d_def [symmetric] day_def minute_def)
  then have d: "21915 < d" "d \<le> 23745"
    using assms(2,3) new_year_2030 by (simp_all add: day_def minute_def second_def)
  have "2030 \<le> year_of d" "year_of d < 2036"
    using d year_of_bounds [of d] year_start_mono [of "year_of d + 1" 2030] year_start_mono [of 2036 "year_of d"]
    by (auto simp: year_start_def [of 2030] year_start_def [of 2036] not_less [symmetric])
  then have "year_of d = 2030" using t(3) by presburger
  then have "d = day_number 2030 1 1" using day_number_of_date(1) [of d] t(4,5) by simp
  with d(1) new_year_2030(1) show False by simp
qed

text \<open>
  C35. A rule with a long interval is accepted and stops for good: the rule for every tenth year is due at the start of 2030 and of 2040,
  and after 2030 there is no next instant, which ends the loop of the job.
\<close>

theorem decade_rule_stops:
  "parse_calendar U ''FREQ=YEARLY;INTERVAL=10'' = Inr decade_rule
   \<and> plan_due (CalendarPlan decade_rule utc) (new_year 2030) \<and> plan_due (CalendarPlan decade_rule utc) (new_year 2040)
   \<and> plan_next (CalendarPlan decade_rule utc) (new_year 2030) = zero_time"
proof (intro conjI)
  show "parse_calendar U ''FREQ=YEARLY;INTERVAL=10'' = Inr decade_rule"
    by code_simp
  show "plan_due (CalendarPlan decade_rule utc) (new_year 2030)" "plan_due (CalendarPlan decade_rule utc) (new_year 2040)"
    by code_simp+
  show "plan_next (CalendarPlan decade_rule utc) (new_year 2030) = zero_time"
    using calendar_next_result [of decade_rule utc "new_year 2030"] decade_gap
    by (auto simp: next_occurrence_def)
qed

end
