(* ===== verification/CronRegistry.thy ===== *)
theory CronRegistry
  imports CronRuns AuthPolicy "HOL-Library.Word"
begin

text \<open>
  Contract schedules, \<open>src/runtime/contract_schedule.go\<close>: a schedule becomes a job whose name is made
  from the schedule's name and a 64-bit hash of its address, and every run carries the
  workload identity of the schedule. \<open>time.ParseDuration\<close> and \<open>time.Parse\<close>, which read the values of
  the triggers \<open>every\<close> and \<open>at\<close>, are arguments.
\<close>

unbundle bit_operations_syntax

section \<open>Job names\<close>

text \<open>One step of the hash on the next byte of the address.\<close>

definition hash_byte :: "64 word \<Rightarrow> char \<Rightarrow> 64 word" where
  "hash_byte h c = (h XOR of_nat (of_char c)) * 1099511628211"

definition hash_alphabet :: string where
  "hash_alphabet = ''abcdefghijklmnopqrstuvwxyz234567''"

definition short_contract_address_hash :: "string \<Rightarrow> string" where
  "short_contract_address_hash address =
     (let h = foldl hash_byte 1469598103934665603 address in
      map (\<lambda>i. hash_alphabet ! unat (drop_bit (5 * i) h AND 31)) [0..<8])"

text \<open>One character for every code point; a byte that starts no code point counts as one.\<close>

function slug :: "string \<Rightarrow> string" where
  "slug s =
     (if s = [] then []
      else (if lower_letter (hd s) \<or> is_digit (hd s) then hd s else CHR ''-'')
        # slug (drop (max 1 (utf8_front s)) s))"
  by pat_completeness auto
termination
  by (relation "measure length") auto

declare slug.simps [simp del]

definition trim_dashes :: "string \<Rightarrow> string" where
  "trim_dashes s = rev (dropWhile (\<lambda>c. c = CHR ''-'') (rev (dropWhile (\<lambda>c. c = CHR ''-'') s)))"

definition contract_schedule_id :: "(string \<Rightarrow> string) \<Rightarrow> string \<Rightarrow> string \<Rightarrow> string" where
  "contract_schedule_id L address name =
     (let v = take 48 (trim_dashes (slug (to_lower L (trim_space name))));
          v = (if v = [] then ''schedule'' else v)
      in v @ ''-'' @ short_contract_address_hash address)"

section \<open>Registration\<close>

definition contract_schedule_overlap :: "string \<Rightarrow> string" where
  "contract_schedule_overlap v =
     (if v = ''queue'' then ''buffer_all''
      else if v = ''replace'' then ''cancel_other''
      else if v = ''allow'' then ''allow_all''
      else ''skip'')"

definition default_string_runtime :: "string \<Rightarrow> string \<Rightarrow> string" where
  "default_string_runtime v fallback = (if trim_space v = [] then fallback else v)"

record contract_schedule =
  sc_address :: string
  sc_name :: string
  sc_trigger_kind :: string
  sc_trigger_value :: string
  sc_timezone :: string
  sc_overlap :: string
  sc_catchup :: int
  sc_identity :: workload_identity
  sc_authorization :: string
  sc_pipeline :: string
  sc_policy :: "http_policy option"
  sc_invoke :: bool

datatype schedule_error =
    ScheduleIncomplete
  | ScheduleIdentity string identity_error
  | SchedulePolicy string policy_error
  | ScheduleEvery string
  | ScheduleAt string
  | ScheduleTrigger string
  | ScheduleJob job_error

definition trim_schedule :: "contract_schedule \<Rightarrow> contract_schedule" where
  "trim_schedule r =
     r\<lparr>sc_address := trim_space (sc_address r), sc_name := trim_space (sc_name r),
       sc_trigger_kind := trim_space (sc_trigger_kind r), sc_trigger_value := trim_space (sc_trigger_value r),
       sc_authorization := trim_space (sc_authorization r), sc_pipeline := trim_space (sc_pipeline r)\<rparr>"

text \<open>The job before its trigger is set\<close>

definition schedule_job :: "(string \<Rightarrow> string) \<Rightarrow> contract_schedule \<Rightarrow> cron_job" where
  "schedule_job L r =
     \<lparr>job_id = contract_schedule_id L (sc_address r) (sc_name r), job_title = sc_address r, job_every = 0,
      job_schedule = [], job_calendar = [], job_at = zero_time, job_timezone = [],
      job_overlap = contract_schedule_overlap (sc_overlap r), job_catchup = sc_catchup r, job_invoke = True,
      job_plan = None\<rparr>"

definition trigger_job ::
  "(string \<Rightarrow> int option) \<Rightarrow> (string \<Rightarrow> instant option) \<Rightarrow> contract_schedule \<Rightarrow> cron_job \<Rightarrow> schedule_error + cron_job"
where
  "trigger_job parse_every parse_at r job =
     (let kind = sc_trigger_kind r; v = sc_trigger_value r; zone = default_string_runtime (sc_timezone r) ''UTC'' in
      if kind = ''cron'' then Inr (job\<lparr>job_schedule := v, job_timezone := zone\<rparr>)
      else if kind = ''every'' then
        (case parse_every v of
           None \<Rightarrow> Inl (ScheduleEvery (sc_address r))
         | Some d \<Rightarrow> if d \<le> 0 then Inl (ScheduleEvery (sc_address r)) else Inr (job\<lparr>job_every := d\<rparr>))
      else if kind = ''at'' then
        (case parse_at v of None \<Rightarrow> Inl (ScheduleAt (sc_address r)) | Some t \<Rightarrow> Inr (job\<lparr>job_at := t\<rparr>))
      else if kind = ''calendar'' then Inr (job\<lparr>job_calendar := v, job_timezone := zone\<rparr>)
      else Inl (ScheduleTrigger kind))"

definition register_contract_schedule ::
  "(string \<Rightarrow> string) \<Rightarrow> (string \<Rightarrow> string) \<Rightarrow> (string \<Rightarrow> zone option) \<Rightarrow> (string \<Rightarrow> int option) \<Rightarrow> (string \<Rightarrow> instant option) \<Rightarrow>
   (string \<times> cron_job) list \<Rightarrow> contract_schedule \<Rightarrow> schedule_error + (string \<times> cron_job) list"
where
  "register_contract_schedule U L load parse_every parse_at jobs r0 =
     (let r = trim_schedule r0 in
      if sc_address r = [] \<or> sc_name r = [] \<or> sc_trigger_kind r = [] \<or> sc_trigger_value r = []
         \<or> wl_address (sc_identity r) = [] \<or> sc_authorization r = [] \<or> sc_pipeline r = [] \<or> \<not> sc_invoke r
      then Inl ScheduleIncomplete
      else case mint (sc_identity r) of
        Inl e \<Rightarrow> Inl (ScheduleIdentity (sc_address r) e)
      | Inr _ \<Rightarrow>
          (case validate_policy (sc_policy r) of
             Inl e \<Rightarrow> Inl (SchedulePolicy (sc_address r) e)
           | Inr _ \<Rightarrow>
               res_bind (trigger_job parse_every parse_at r (schedule_job L r)) (\<lambda>job.
                 case register_cron_job U L load jobs (Some job) of
                   Inl e \<Rightarrow> Inl (ScheduleJob e)
                 | Inr jobs' \<Rightarrow> Inr jobs')))"

text \<open>The identity that the job's \<open>Invoke\<close> gives to a run, with the claims added.\<close>

definition schedule_auth :: "contract_schedule \<Rightarrow> identity_error + auth_info" where
  "schedule_auth r0 =
     (let r = trim_schedule r0 in
      res_bind (mint (sc_identity r)) (\<lambda>auth.
        let claims = (case au_data auth of DataMap m \<Rightarrow> m | _ \<Rightarrow> []) in
        Inr (auth\<lparr>au_data := DataMap (set_key ''pipeline'' (VString (sc_pipeline r))
          (set_key ''authorization'' (VString (sc_authorization r)) claims))\<rparr>)))"

section \<open>Names are valid\<close>

text \<open>The identifiers of the contract language, \<open>^[a-z][a-z0-9_]*$\<close>.\<close>

definition contract_identifier :: "string \<Rightarrow> bool" where
  "contract_identifier s \<longleftrightarrow>
     s \<noteq> [] \<and> lower_letter (hd s) \<and> list_all (\<lambda>c. lower_letter c \<or> is_digit c \<or> c = CHR ''_'') s"

definition id_char :: "char \<Rightarrow> bool" where
  "id_char c \<longleftrightarrow> lower_letter c \<or> is_digit c \<or> c = CHR ''-''"

lemma valid_cron_job_id:
  assumes "lower_letter c" "list_all id_char mid" "lower_letter d \<or> is_digit d" "length mid \<le> 61"
  shows "is_valid_cron_job_id (c # mid @ [d])"
proof -
  let ?s = "c # mid @ [d]"
  have "if i = 0 then lower_letter (?s ! i)
    else if i = length ?s - 1 then lower_letter (?s ! i) \<or> is_digit (?s ! i)
    else lower_letter (?s ! i) \<or> is_digit (?s ! i) \<or> ?s ! i = CHR ''-''" if "i < length ?s" for i
  proof (cases i)
    case (Suc j)
    then consider "j = length mid" | "j < length mid" using \<open>i < length ?s\<close> by fastforce
    then show ?thesis
      using Suc assms by cases (auto simp: list_all_length id_char_def nth_append)
  qed (use assms in simp)
  moreover have "0 < length ?s" "length ?s \<le> 63" using assms(4) by simp_all
  ultimately show ?thesis unfolding is_valid_cron_job_id_def by blast
qed

lemma hash_alphabet_chars: "c \<in> set hash_alphabet \<Longrightarrow> lower_letter c \<or> is_digit c"
proof -
  have "list_all (\<lambda>c. lower_letter c \<or> is_digit c) hash_alphabet" by code_simp
  then show "c \<in> set hash_alphabet \<Longrightarrow> lower_letter c \<or> is_digit c" by (simp add: list_all_iff)
qed

lemma hash_alphabet_length: "length hash_alphabet = 32"
  by code_simp

lemma short_hash:
  "length (short_contract_address_hash a) = 8"
  "c \<in> set (short_contract_address_hash a) \<Longrightarrow> lower_letter c \<or> is_digit c"
proof -
  have "unat (w AND 31) < length hash_alphabet" for w :: "64 word"
    using word_and_le1 [of w 31] word_le_nat_alt [of "w AND 31" 31] by (simp add: hash_alphabet_length)
  then show "c \<in> set (short_contract_address_hash a) \<Longrightarrow> lower_letter c \<or> is_digit c"
    by (auto simp: short_contract_address_hash_def Let_def intro!: hash_alphabet_chars nth_mem)
qed (simp add: short_contract_address_hash_def Let_def)

lemma utf8_front_ascii:
  assumes "(of_char c :: nat) < 128"
  shows "utf8_front (c # s) = 0"
proof -
  have no: "\<not> byte_in 0xC2 0xDF c" "\<not> byte_in 0xE0 0xEF c" "\<not> byte_in 0xF0 0xF4 c"
    using assms by (simp_all add: byte_in_def)
  show ?thesis
  proof (cases s)
    case (Cons b t)
    show ?thesis unfolding Cons by (simp only: utf8_front.simps no if_False simp_thms split: list.split)
  qed simp
qed

lemma name_char_ascii: "lower_letter c \<or> is_digit c \<or> c = CHR ''_'' \<Longrightarrow> (of_char c :: nat) < 128"
  by (auto simp: lower_letter_def is_digit_def)

lemma slug_ascii:
  "list_all (\<lambda>c. lower_letter c \<or> is_digit c \<or> c = CHR ''_'') s \<Longrightarrow>
   slug s = map (\<lambda>c. if c = CHR ''_'' then CHR ''-'' else c) s"
proof (induction s)
  case (Cons c s)
  have "\<not> lower_letter CHR ''_''" "\<not> is_digit CHR ''_''" by code_simp+
  then have c: "(if lower_letter c \<or> is_digit c then c else CHR ''-'') = (if c = CHR ''_'' then CHR ''-'' else c)"
    using Cons.prems by auto
  have "utf8_front (c # s) = 0"
    using Cons.prems name_char_ascii utf8_front_ascii by simp
  then have "slug (c # s) = (if lower_letter c \<or> is_digit c then c else CHR ''-'') # slug s"
    by (subst slug.simps) simp
  with c show ?case using Cons by simp
qed (simp add: slug.simps)

lemma trim_dashes_front:
  assumes "s \<noteq> []" "hd s \<noteq> CHR ''-''"
  shows "trim_dashes s \<noteq> []" "hd (trim_dashes s) = hd s" "set (trim_dashes s) \<subseteq> set s"
proof -
  let ?r = "dropWhile (\<lambda>c. c = CHR ''-'') (rev s)"
  have front: "dropWhile (\<lambda>c. c = CHR ''-'') s = s" using assms by (cases s) auto
  have "hd s \<in> set (rev s)" using assms by simp
  then have ne: "?r \<noteq> []" using assms(2) by (auto simp: dropWhile_eq_Nil_conv)
  have "rev s = takeWhile (\<lambda>c. c = CHR ''-'') (rev s) @ ?r" by simp
  then have "last (rev s) = last ?r" using ne by (metis last_appendR)
  then show "trim_dashes s \<noteq> []" "hd (trim_dashes s) = hd s"
    using ne front by (auto simp: trim_dashes_def hd_rev last_rev)
  show "set (trim_dashes s) \<subseteq> set s"
    by (auto simp: trim_dashes_def front dest: set_dropWhileD)
qed

lemma identifier_chars: "contract_identifier s \<Longrightarrow> to_lower L (trim_space s) = s"
proof -
  assume s: "contract_identifier s"
  have char: "graphic c \<and> (of_char c :: nat) < 128 \<and> lower_byte c = c" if "c \<in> set s" for c
    using s that by (auto simp: contract_identifier_def list_all_iff graphic_def lower_byte_def lower_letter_def is_digit_def)
  have "s \<noteq> []" using s by (simp add: contract_identifier_def)
  then have "trim_space s = s" using char by (intro trim_space_graphic) auto
  moreover have "map lower_byte s = s" using char by (simp add: map_idI)
  ultimately show ?thesis using char by (simp add: to_lower_def ascii_def list_all_iff)
qed

lemma schedule_id_valid:
  assumes "contract_identifier name"
  shows "is_valid_cron_job_id (contract_schedule_id L address name)"
proof -
  define w where "w = slug name"
  define v where "v = take 48 (trim_dashes w)"
  define h where "h = short_contract_address_hash address"
  have name: "name \<noteq> []" "lower_letter (hd name)" "list_all (\<lambda>c. lower_letter c \<or> is_digit c \<or> c = CHR ''_'') name"
    using assms by (auto simp: contract_identifier_def)
  have "hd name \<noteq> CHR ''_''" using name(2) by (auto simp: lower_letter_def)
  then have w: "w \<noteq> []" "hd w = hd name" "list_all id_char w"
    using name by (auto simp: w_def slug_ascii hd_map list_all_iff id_char_def)
  moreover have "hd name \<noteq> CHR ''-''" using name(2) by (auto simp: lower_letter_def)
  ultimately have trim: "trim_dashes w \<noteq> []" "hd (trim_dashes w) = hd name" "set (trim_dashes w) \<subseteq> set w"
    using trim_dashes_front [of w] by simp_all
  then have v: "v \<noteq> []" "hd v = hd name" "list_all id_char (tl v)" "length v \<le> 48"
    using w(3) by (auto simp: v_def list_all_iff hd_take dest!: list.set_sel(2) [rotated] in_set_takeD)
  have "length h = 8" by (simp add: h_def short_hash)
  then have h: "h \<noteq> []" "length h = 8" by auto
  then have hs: "list_all id_char (butlast h)" "lower_letter (last h) \<or> is_digit (last h)"
    using short_hash(2) [of "last h" address] short_hash(2) [of _ address]
    by (auto simp: h_def [symmetric] list_all_iff id_char_def dest!: in_set_butlastD)
  have "contract_schedule_id L address name = hd v # (tl v @ ''-'' @ butlast h) @ [last h]"
    using v(1) h(1) by (simp add: contract_schedule_id_def identifier_chars [OF assms] w_def [symmetric] v_def [symmetric] h_def [symmetric] Let_def)
  moreover have "is_valid_cron_job_id (hd v # (tl v @ ''-'' @ butlast h) @ [last h])"
    by (rule valid_cron_job_id) (use v h hs name in \<open>auto simp: id_char_def\<close>)
  ultimately show ?thesis by simp
qed

section \<open>Registered schedules\<close>

lemma validate_cron_job_fields:
  assumes "validate_cron_job U L load (Some j) = Inr job"
  shows "job_id job = job_id j" "job_overlap job = job_overlap j" "job_catchup job = job_catchup j"
proof -
  obtain j0 j' plan where "Some j = Some j0" "j' = (if job_title j0 = [] then j0\<lparr>job_title := job_id j0\<rparr> else j0)"
    "job = j'\<lparr>job_plan := Some plan\<rparr>"
    using validate_cron_jobE [OF assms] .
  then show "job_id job = job_id j" "job_overlap job = job_overlap j" "job_catchup job = job_catchup j"
    by simp_all
qed

lemma trigger_job_fields:
  assumes "trigger_job pe pa r j = Inr job"
  shows "job_id job = job_id j" "job_overlap job = job_overlap j" "job_catchup job = job_catchup j"
  using assms by (auto simp: trigger_job_def Let_def split: if_splits option.splits)

lemma wrapped_error_Inr: "(case x of Inl e \<Rightarrow> Inl (f e) | Inr y \<Rightarrow> Inr y) = Inr z \<longleftrightarrow> x = Inr z"
  by (cases x) auto

lemma register_contract_schedule_job:
  assumes "register_contract_schedule U L load pe pa jobs r = Inr jobs'"
  obtains job j0 plan a where "jobs' = jobs @ [(job_id job, job)]" "map_of jobs (job_id job) = None"
    "validate_cron_job U L load j0 = Inr job" "job_plan job = Some plan" "plan_valid plan"
    "job_id job = contract_schedule_id L (sc_address (trim_schedule r)) (sc_name (trim_schedule r))"
    "job_overlap job = contract_schedule_overlap (sc_overlap r)" "mint (sc_identity r) = Inr a"
proof -
  let ?r = "trim_schedule r"
  obtain j where j: "trigger_job pe pa ?r (schedule_job L ?r) = Inr j"
    "register_cron_job U L load jobs (Some j) = Inr jobs'" and "\<exists>a. mint (sc_identity ?r) = Inr a"
    using assms by (auto simp: register_contract_schedule_def Let_def wrapped_error_Inr split: if_split_asm sum.split_asm)
  then obtain a where a: "mint (sc_identity r) = Inr a" by (auto simp: trim_schedule_def)
  obtain job where job: "validate_cron_job U L load (Some j) = Inr job" "map_of jobs (job_id job) = None"
    "jobs' = jobs @ [(job_id job, job)]"
    using j(2) by (auto simp: register_cron_job_def split: if_splits)
  obtain plan where "job_plan job = Some plan" "plan_valid plan"
    using validate_cron_job_plan [OF job(1)] .
  with that [OF job(3,2,1)] a show thesis
    using validate_cron_job_fields [OF job(1)] trigger_job_fields [OF j(1)]
    by (simp add: schedule_job_def trim_schedule_def)
qed

text \<open>The variables that the rules see of a scheduled run.\<close>

lemma schedule_auth_variables:
  assumes "mint (sc_identity r) = Inr a"
  obtains b where "schedule_auth r = Inr b"
    and "\<And>p request input vars. authorization_variables p (Some b) request input = Inr vars \<Longrightarrow>
      resolve_variable vars ''principal.id'' = Inr (VString (''workload:'' @ trim_space (wl_address (sc_identity r))))
      \<and> resolve_variable vars ''principal.authorization'' = Inr (VString (trim_space (sc_authorization r)))
      \<and> resolve_variable vars ''principal.pipeline'' = Inr (VString (trim_space (sc_pipeline r)))"
proof -
  obtain claims where a: "au_uid a = ''workload:'' @ trim_space (wl_address (sc_identity r))" "au_data a = DataMap claims"
    using assms by (auto simp: mint_def Let_def split: if_splits option.splits)
  define b where "b = a\<lparr>au_data := DataMap (set_key ''pipeline'' (VString (trim_space (sc_pipeline r)))
    (set_key ''authorization'' (VString (trim_space (sc_authorization r))) claims))\<rparr>"
  have auth: "schedule_auth r = Inr b"
    using assms a(2) by (simp add: schedule_auth_def trim_schedule_def b_def Let_def)
  have look: "map_of m ''id'' = Some (VString (au_uid a)) \<and> map_of m ''authorization'' = Some (VString (trim_space (sc_authorization r)))
      \<and> map_of m ''pipeline'' = Some (VString (trim_space (sc_pipeline r)))" if "principal_value (Some b) = Inr m" for m
    using that by (auto simp: b_def principal_value_def principal_data_def map_of_set_key map_of_through_json)
  show thesis
  proof (rule that [OF auth])
    fix p request input vars
    assume vars: "authorization_variables p (Some b) request input = Inr vars"
    show "resolve_variable vars ''principal.id'' = Inr (VString (''workload:'' @ trim_space (wl_address (sc_identity r))))
      \<and> resolve_variable vars ''principal.authorization'' = Inr (VString (trim_space (sc_authorization r)))
      \<and> resolve_variable vars ''principal.pipeline'' = Inr (VString (trim_space (sc_pipeline r)))"
      using resolve_principal [OF vars, of "''id''"] resolve_principal [OF vars, of "''authorization''"]
        resolve_principal [OF vars, of "''pipeline''"] look a(1) by (force simp: append_Cons)
  qed
qed

end
