(* ===== verification/CronExamples.thy ===== *)
theory CronExamples
  imports CronHorizon CronRegistry
begin

text \<open>Concrete jobs, schedules and histories on which the guarantees of the scheduler hold.\<close>

definition minute_job :: "string \<Rightarrow> cron_job" where
  "minute_job policy =
     \<lparr>job_id = ''sync'', job_title = ''sync'', job_every = minute, job_schedule = [], job_calendar = [], job_at = zero_time,
      job_timezone = [], job_overlap = policy, job_catchup = 0, job_invoke = True, job_plan = None\<rparr>"

definition minute_plan :: cron_plan where
  "minute_plan = EveryPlan minute"

definition planned_job :: "string \<Rightarrow> cron_job" where
  "planned_job policy = (minute_job policy)\<lparr>job_plan := Some minute_plan\<rparr>"

text \<open>The first tick starts an execution and the second is handled while it runs.\<close>

definition first_state :: "string \<Rightarrow> cron_loop" where
  "first_state policy = handle_tick (planned_job policy) minute_plan (Some ''abcdefgh'') (loop_init minute_plan 0)"

definition second_state :: "string \<Rightarrow> cron_loop" where
  "second_state policy = handle_tick (planned_job policy) minute_plan (Some ''ijklmnop'') (first_state policy)"

definition two_ticks :: "cron_event list" where
  "two_ticks = [Tick minute (Some ''abcdefgh''), Tick (2 * minute) (Some ''ijklmnop'')]"

lemma two_ticks_trace:
  "trace (cron_step (planned_job policy) minute_plan) (loop_init minute_plan 0) two_ticks (second_state policy)"
proof -
  have init: "l_next (loop_init minute_plan 0) = minute" "\<not> l_stopped (loop_init minute_plan 0)" "minute \<noteq> zero_time"
    by code_simp+
  have one: "l_next (first_state policy) = 2 * minute" "2 * minute \<noteq> zero_time"
    by (simp add: first_state_def init(1)) code_simp+
  have stopped: "\<not> l_stopped (first_state policy)"
    using init(2) by (simp add: first_state_def handle_tick_def stop_running_def Let_def)
  have first: "cron_step (planned_job policy) minute_plan (Tick minute (Some ''abcdefgh'')) (loop_init minute_plan 0) (first_state policy)"
    using cron_step.tick [of "loop_init minute_plan 0" "planned_job policy" minute_plan "Some ''abcdefgh''"] init
    by (simp add: first_state_def)
  have "cron_step (planned_job policy) minute_plan (Tick (2 * minute) (Some ''ijklmnop'')) (first_state policy) (second_state policy)"
    using cron_step.tick [of "first_state policy" "planned_job policy" minute_plan "Some ''ijklmnop''"] one stopped
    by (simp add: second_state_def)
  from trace.trace_snoc [where step = "cron_step (planned_job policy) minute_plan",
      OF trace.trace_snoc [where step = "cron_step (planned_job policy) minute_plan", OF trace.trace_Nil first] this] show ?thesis
    by (simp only: two_ticks_def append.simps)
qed

lemma minute_job_accepted: "validate_cron_job id id (\<lambda>_. None) (Some (minute_job ''skip'')) = Inr (planned_job ''skip'')"
proof -
  have "is_valid_cron_job_id ''sync''" "validate_cron_overlap_policy id ''skip'' = Inr ()"
    "minute smod second = 0" "day smod minute = 0" "0 < minute"
    by code_simp+
  then show ?thesis
    by (simp add: validate_cron_job_def cron_job_plan_def minute_job_def planned_job_def minute_plan_def)
qed

text \<open>Witness: a job that runs every minute, and its first two ticks.\<close>

theorem job_runs_when_due_example:
  "sorted_wrt (<) (ticks two_ticks)
   \<and> set (ticks two_ticks) = {u. plan_due minute_plan u \<and> 0 < u \<and> u \<le> last (0 # ticks two_ticks)}
   \<and> plan_due minute_plan (l_next (second_state ''skip''))"
proof -
  have "job_plan (planned_job ''skip'') = Some minute_plan" by (simp add: planned_job_def)
  moreover have "l_next (second_state ''skip'') \<noteq> zero_time" by code_simp
  ultimately show ?thesis using job_runs_when_due [OF minute_job_accepted _ _ two_ticks_trace] by blast
qed

text \<open>Witness: a second tick while the first execution runs, for a policy that waits and one that replaces.\<close>

theorem overlap_policy_kept_example:
  "card (active (second_state ''skip'')) \<le> 1 \<and> card (live (second_state ''cancel_other'')) \<le> 1"
proof -
  have "serial_policy (job_overlap (planned_job ''skip''))" "replace_policy (job_overlap (planned_job ''cancel_other''))"
    by code_simp+
  then show ?thesis
    using overlap_policy_kept [OF two_ticks_trace [of "''skip''"]] overlap_policy_kept [OF two_ticks_trace [of "''cancel_other''"]]
    by blast
qed

text \<open>Witness: the second tick waits in the queue.\<close>

theorem queued_runs_accounted_example:
  "(\<exists>past\<in>shuffles (started (second_state ''buffer_all'')) (l_expired (second_state ''buffer_all'')).
      ticks two_ticks = past @ l_queued (second_state ''buffer_all''))
   \<and> l_expired (second_state ''buffer_all'') = []"
proof -
  have "job_overlap (planned_job ''buffer_all'') = ''buffer_all''" "list_all random_available two_ticks"
    by (simp_all add: planned_job_def minute_job_def two_ticks_def)
  with queued_runs_accounted [OF two_ticks_trace this] show ?thesis by (auto simp: two_ticks_def)
qed

text \<open>Witness: every quarter of an hour in two hours of working days.\<close>

theorem cron_schedule_meaning_example:
  "length (string_fields (trim_space ''*/15 2,14 * * MON-FRI'')) = 5
   \<and> (\<forall>z t. cron_matches (projr (parse_cron_schedule id ''*/15 2,14 * * MON-FRI'')) z t
        \<longleftrightarrow> schedule_denotes id (string_fields (trim_space ''*/15 2,14 * * MON-FRI'')) z t)"
proof -
  have "\<not> isl (parse_cron_schedule id ''*/15 2,14 * * MON-FRI'')" by code_simp
  then have "parse_cron_schedule id ''*/15 2,14 * * MON-FRI'' = Inr (projr (parse_cron_schedule id ''*/15 2,14 * * MON-FRI''))"
    by (simp add: sum.expand)
  then show ?thesis by (rule cron_schedule_meaning)
qed


end
