(* ===== verification/Spec2Isabelle.thy ===== *)
theory Spec2Isabelle
  imports Lifecycle DurableExamples WorkspaceExamples ScalarCodecs AuthExamples CronExamples
begin

text \<open>
  A verification development for the scenery repository, an application framework and tool chain
  written in Go. An application declares its contracts in source files; the tool chain compiles them to a graph,
  generates code, publishes the generated files and plans the actions of a command; the runtime
  serves the contracts, authorizes their invocations, decodes their values, keeps durable jobs and runs
  scheduled ones. The development models six parts of this program and proves what each of them
  promises to the others.

  \<^bold>\<open>Conventions.\<close> A Go string is a list of bytes (\<open>string\<close>). A function that returns \<open>(T, error)\<close> has its result in
  \<open>error + T\<close>, with one constructor of an error datatype per message of the source; a
  panic is a constructor as well. A struct is a record, a type switch over \<open>any\<close> is a datatype with one constructor per dynamic
  type. A map is an association list or a function; where the source ranges over a map, the order is an argument. Go's
  \<open>int64\<close> arithmetic is written with its wrap-around where the source can overflow. What is not in
  the repository (the operating system, Postgres, Unicode tables, the time zone database) is an argument, with what
  is assumed of it as a named hypothesis. Functions of the Go library that the source calls are modelled.

  \<^bold>\<open>Library.\<close>
  \<^item> \<open>Prelude\<close>: results with errors, the packages \<open>strings\<close> and \<open>path\<close> (split, join, trim, clean), sorting, histories
    (\<open>trace\<close>) and the locale \<open>step_system\<close>, the contract between a step relation and its invariant.
  \<^item> \<open>DecimalText\<close>: decimal numerals, \<open>big.Int.String\<close> and \<open>SetString\<close>.

  \<^bold>\<open>Lifecycle planner\<close> (\<open>src/internal/lifecycle/plan.go\<close>), theory \<open>Lifecycle\<close>. \<open>new_plan\<close> is \<open>New\<close>, \<open>run_plan\<close> is \<open>Run\<close>. An accepted
  plan lists every node once, after its dependencies; an error names a true cycle or a true conflict and does not
  depend on the order in which Go ranges over the nodes; a run executes exactly the closure of its
  targets, in plan order, and refuses capabilities that were not allowed before anything runs.

  \<^bold>\<open>Durable job store\<close> (\<open>src/internal/durable/store\<close>), theories \<open>DurableStore\<close> (tables and operations, one definition
  per method), \<open>DurableJobs\<close> (histories \<open>durable_step\<close> and the invariant \<open>durable_inv\<close>, an interpretation of
  \<open>step_system\<close>), \<open>DurableSafety\<close> (guarantees), \<open>DurableLocks\<close> (lease transactions statement by statement) and
  \<open>DurableExamples\<close>. The event log determines every job; a worker that lost its lease can neither finish nor
  fail the job; leasing takes the first ready job; deduplication, reconciliation and retry delays are as documented.
  The histories of \<open>durable_step\<close> are serial, one transaction after the other: this is an assumption on Postgres,
  whose level \<open>READ COMMITTED\<close> the code uses, and it is met by the operations that decide on rows they update or
  lock. The lease also counts rows it does not lock. \<open>lease_step\<close> therefore splits a lease into its selection, with
  the snapshot the statement reads and the row locks it takes, and its commit: with the named
  hypothesis \<open>snapshot_current\<close> a task never runs more jobs than its limit, and without it two leases exceed the limit.

  \<^bold>\<open>Workspace transactions\<close> (\<open>src/internal/workspacetx\<close>), theories \<open>WorkspaceTx\<close> (the file system, publication, recovery,
  ownership), \<open>WorkspaceRecovery\<close> (atomicity), \<open>WorkspaceSafety\<close> (what recovery never does) and \<open>WorkspaceExamples\<close>. An
  operation yields the list of the workspaces it passes through, so a crash at any moment is one
  of them. From every crash state of a staged publication recovery restores all files or keeps all of
  them; recovery changes no file that it has not verified and touches no transaction whose owner may live. Two ways to
  get stuck are proved as such.

  \<^bold>\<open>Contract scalars\<close> (\<open>src/internal/contract/contract_scalars.go\<close>), theories \<open>Scalars\<close> (parsers, printers and decoders),
  \<open>ScalarLaws\<close> (the locale \<open>canonical_codec\<close> and its interpretations for integers and durations, the value
  of a decimal text), \<open>UrlLaws\<close> (escapes, dot segments, relative paths) and \<open>ScalarCodecs\<close> (decimals and
  sizes as codecs, and the properties). The JSON decoders accept exactly the texts the printers write;
  decimals are exact although their scale is computed in 64 bits; URL paths and relative paths have no parent elements.

  \<^bold>\<open>Authorization\<close> (\<open>src/internal/contractpolicy/expression.go\<close> and \<open>src/runtime/contract_authorization.go\<close>,
  \<open>contract_policy_validation.go\<close>, \<open>contract_pipeline.go\<close>, \<open>contract_identity.go\<close>), theories \<open>AuthExpr\<close> (lexer,
  dynamic values, the parser that evaluates), \<open>AuthLaws\<close> (the parser returns), \<open>AuthGrammar\<close> and \<open>AuthComplete\<close> (a grammar with
  a compositional semantics, and the parser computes it), \<open>AuthTypes\<close> (what the static checks predict), \<open>AuthPolicy\<close>
  (variables, decision, validation, pipeline, workload identities and the properties) and
  \<open>AuthExamples\<close>. The definitions of the parser take fuel; \<open>parse_expression\<close> gives them one unit more
  than the length of the text, and \<open>rule_evaluation_returns\<close> shows that this is never used up, since every call
  consumes a token.

  \<^bold>\<open>Job scheduler\<close> (\<open>src/runtime/cron.go\<close>, \<open>src/runtime/contract_schedule.go\<close>,
  \<open>src/internal/calendartrigger/calendar.go\<close>), theories \<open>CronTime\<close> (instants in nanoseconds, the calendar, zones), \<open>CronFields\<close>
  (the parser of cron schedules, a grammar of their fields, and the parser computes it), \<open>CronPlan\<close> (calendar rules,
  plans, validation and registration of jobs; the locale \<open>minute_search\<close> and its two interpretations),
  \<open>CronLoop\<close> (the loop of a job as the step relation \<open>cron_step\<close>), \<open>CronRuns\<close> and \<open>CronHorizon\<close> (the properties),
  \<open>CronRegistry\<close> (contract schedules) and \<open>CronExamples\<close>. A loop ticks exactly when its plan is due and gives up
  only when nothing is due for 1830 days; overlap policies are kept; a queue loses nothing but what is
  older than the catch-up window; a registered schedule runs under its own identity. The loop that
  marks the values of a field takes one unit of fuel more than the field has values, and \<open>mark_loop_result\<close>
  shows that this is enough. The searches for the next minute end by their deadline.

  \<^bold>\<open>Not modelled.\<close> The contract compiler, the graph and the generators are transformations of large syntax trees whose
  specification is the language reference; they are left out. The
  command line, the host agent, the HTTP server, the MCP gateway, the assistant runtime, object
  storage, authentication flows and deployment are mostly input and output against other
  processes and services. Within the modelled parts: waiting for locks and the recovery gate of workspace transactions, the SQL text of
  the durable store (its statements are definitions over lists of rows), date-times and the host part
  of URLs, and JSON texts, which are represented by their values. Simplified: the floating point arithmetic of
  retry delays is exact (\<open>DurableStore\<close>), \<open>os.RemoveAll\<close> is one change and \<open>os.MkdirAll\<close> and \<open>os.Remove\<close> are
  modelled for the paths that transactions use them on (\<open>WorkspaceTx\<close>).
\<close>

section \<open>Schedules and authorization\<close>

text \<open>
  C24. A registered contract schedule runs under its own identity: registration adds one job with a valid plan and the policy of the
  schedule's overlap mode (queue, replace and allow have their own, every other mode skips), every run is given an identity, and the rules that authorize the run see the schedule's workload
  identity, authorization and pipeline, whatever the claims of the identity are.
\<close>

theorem scheduled_run_identity:
  assumes "register_contract_schedule U L load pe pa table r = Inr table'"
  shows "\<exists>job plan a. table' = table @ [(job_id job, job)] \<and> job_plan job = Some plan \<and> plan_valid plan
    \<and> job_overlap job =
        (case map_of [(''queue'', ''buffer_all''), (''replace'', ''cancel_other''), (''allow'', ''allow_all'')] (sc_overlap r) of
           Some policy \<Rightarrow> policy | None \<Rightarrow> ''skip'')
    \<and> schedule_auth r = Inr a
    \<and> (\<forall>p request input vars. authorization_variables p (Some a) request input = Inr vars \<longrightarrow>
         resolve_variable vars ''principal.id'' = Inr (VString (''workload:'' @ trim_space (wl_address (sc_identity r))))
         \<and> resolve_variable vars ''principal.authorization'' = Inr (VString (trim_space (sc_authorization r)))
         \<and> resolve_variable vars ''principal.pipeline'' = Inr (VString (trim_space (sc_pipeline r))))"
proof -
  obtain job j0 plan a where job: "table' = table @ [(job_id job, job)]" "job_plan job = Some plan" "plan_valid plan"
    "job_overlap job = contract_schedule_overlap (sc_overlap r)" "mint (sc_identity r) = Inr a"
    using register_contract_schedule_job [OF assms] .
  have overlap: "job_overlap job =
      (case map_of [(''queue'', ''buffer_all''), (''replace'', ''cancel_other''), (''allow'', ''allow_all'')] (sc_overlap r) of
         Some policy \<Rightarrow> policy | None \<Rightarrow> ''skip'')"
    unfolding job(4) contract_schedule_overlap_def by simp
  show ?thesis
    by (rule schedule_auth_variables [OF job(5)]) (use job overlap in blast)
qed

definition nightly :: contract_schedule where
  "nightly =
     \<lparr>sc_address = ''app.schedule.nightly'', sc_name = ''nightly'', sc_trigger_kind = ''cron'', sc_trigger_value = ''0 2 * * *'',
      sc_timezone = [], sc_overlap = ''skip'', sc_catchup = 0,
      sc_identity = \<lparr>wl_address = ''std.workload_identity.scheduler'', wl_issuer = ''std.identity_issuer.runtime'',
        wl_principal_type = ''std.type.workload_principal'', wl_claims = None\<rparr>,
      sc_authorization = ''std.authorization.scheduled'', sc_pipeline = ''std.pipeline.empty'', sc_policy = None, sc_invoke = True\<rparr>"

text \<open>Witness: the schedule of the specification's example.\<close>

theorem scheduled_run_identity_example:
  "\<exists>jobs' job plan a. register_contract_schedule id id (\<lambda>_. Some utc) (\<lambda>_. None) (\<lambda>_. None) [] nightly = Inr jobs'
    \<and> jobs' = [(job_id job, job)] \<and> job_plan job = Some plan \<and> job_overlap job = ''skip'' \<and> schedule_auth nightly = Inr a"
proof -
  have "\<not> isl (register_contract_schedule id id (\<lambda>_. Some utc) (\<lambda>_. None) (\<lambda>_. None) [] nightly)"
    by code_simp
  then obtain jobs' where jobs': "register_contract_schedule id id (\<lambda>_. Some utc) (\<lambda>_. None) (\<lambda>_. None) [] nightly = Inr jobs'"
    by (auto simp: isl_def split: sum.splits intro: sum.exhaust)
  have "sc_overlap nightly = ''skip''" by (simp add: nightly_def)
  with scheduled_run_identity [OF jobs'] jobs' show ?thesis by auto
qed

end
